(* ===== verification/Lebro_Prelude.thy ===== *)
theory Lebro_Prelude
  imports Main "HOL-Library.AList" "HOL-Library.Char_ord" "HOL-Library.List_Lexorder"
    "HOL-Library.Product_Lexorder"
begin

text \<open>
  Shared ground of the development: Go errors as values, Go's 64-bit \<^verbatim>\<open>int\<close> with the decimal
  conversions of \<^verbatim>\<open>strconv\<close>, the helpers of package \<^verbatim>\<open>strings\<close> the sources use, Go maps as
  association lists with unique keys, and the generic lemmas the component theories share.

  Go strings are byte strings, so they are \<^typ>\<open>string\<close> (a list of bytes) and
  their order is the bytewise lexicographic one.
\<close>

named_theorems gomap_simps \<open>read-over-write laws of Go maps\<close>
named_theorems err_simps \<open>sequencing of Go error checks\<close>
named_theorems err_eval \<open>evaluating a sequence of Go error checks\<close>

section \<open>Errors\<close>

text \<open>
  \<^verbatim>\<open>Errorf\<close> is \<^verbatim>\<open>fmt.Errorf\<close> or \<^verbatim>\<open>errors.New\<close>: the format string and the formatted
  arguments. \<^verbatim>\<open>Wrapf\<close> is a format with one \<^verbatim>\<open>%w\<close> verb, so it keeps its cause.
\<close>

record Resource =
  rs_Kind :: string
  rs_ID :: string
  rs_Tenant :: string
  rs_OwnerID :: string
  rs_Attributes :: "(string \<times> string) list"

text \<open>\<^verbatim>\<open>PolicyDenial\<close> is the struct of \<^verbatim>\<open>authz.go\<close>; it matches the sentinel
  \<^verbatim>\<open>ErrPolicyDenied\<close>.\<close>

datatype go_error =
    ErrNotFound
  | ErrConflict
  | ErrInvalidPage
  | ErrCanceled
  | ErrDeadlineExceeded
  | ErrInvalidRunID
  | ErrProviderNotFound
  | ErrProviderAlreadyExists
  | ErrPolicyDenied
  | PolicyDenial (pd_Subject: string) (pd_Tenant: string) (pd_Action: string) (pd_Resource: Resource) (pd_Reason: string)
  | Errorf string "string list"
  | Wrapf string "string list" go_error

type_synonym 'a result = "go_error + 'a"

text \<open>\<^verbatim>\<open>errors.Is\<close>: the error itself or one in its chain of causes.\<close>

primrec errors_Is :: "go_error \<Rightarrow> go_error \<Rightarrow> bool" where
  "errors_Is ErrNotFound t = (t = ErrNotFound)"
| "errors_Is ErrConflict t = (t = ErrConflict)"
| "errors_Is ErrInvalidPage t = (t = ErrInvalidPage)"
| "errors_Is ErrCanceled t = (t = ErrCanceled)"
| "errors_Is ErrDeadlineExceeded t = (t = ErrDeadlineExceeded)"
| "errors_Is ErrInvalidRunID t = (t = ErrInvalidRunID)"
| "errors_Is ErrProviderNotFound t = (t = ErrProviderNotFound)"
| "errors_Is ErrProviderAlreadyExists t = (t = ErrProviderAlreadyExists)"
| "errors_Is ErrPolicyDenied t = (t = ErrPolicyDenied)"
| "errors_Is (PolicyDenial sub ten act res why) t =
     (t = PolicyDenial sub ten act res why \<or> t = ErrPolicyDenied)"
| "errors_Is (Errorf f as) t = (t = Errorf f as)"
| "errors_Is (Wrapf f as e) t = (t = Wrapf f as e \<or> errors_Is e t)"

lemma errors_Is_refl [simp]: "errors_Is e e"
  by (cases e) simp_all

text \<open>
  A Go validator returns \<^verbatim>\<open>nil\<close> or an error: \<^typ>\<open>go_error option\<close>. A function body
  that runs several checks and returns the first error is \<open>first_err\<close> of the checks in source
  order; \<open>chk\<close> is one \<^verbatim>\<open>if cond { return err }\<close> and \<open>wrap_err\<close> one wrapped call.
\<close>

primrec first_err :: "go_error option list \<Rightarrow> go_error option" where
  "first_err [] = None"
| "first_err (c # cs) = (case c of None \<Rightarrow> first_err cs | Some e \<Rightarrow> Some e)"

definition chk :: "bool \<Rightarrow> go_error \<Rightarrow> go_error option" where
  "chk b e = (if b then Some e else None)"

definition wrap_err :: "string \<Rightarrow> string list \<Rightarrow> go_error option \<Rightarrow> go_error option" where
  "wrap_err f as = map_option (Wrapf f as)"

definition ret_if_ok :: "go_error option \<Rightarrow> 'a \<Rightarrow> 'a result" where
  "ret_if_ok c x = (case c of None \<Rightarrow> Inr x | Some e \<Rightarrow> Inl e)"

lemma first_err_None [err_simps, simp]:
  "first_err cs = None \<longleftrightarrow> (\<forall>c \<in> set cs. c = None)"
  by (induction cs) (auto split: option.splits)

lemma first_err_None_Cons [simp]: "first_err (None # cs) = first_err cs"
  and first_err_Some_Cons [simp]: "first_err (Some e # cs) = Some e"
  and first_err_chk_Cons [err_eval]: "first_err (chk b e # cs) = (if b then Some e else first_err cs)"
  by (simp_all add: chk_def)

declare first_err.simps(2) [simp del]

lemma first_err_append:
  "first_err (xs @ ys) = (case first_err xs of None \<Rightarrow> first_err ys | Some e \<Rightarrow> Some e)"
proof (induction xs)
  case (Cons x xs)
  then show ?case by (cases x) simp_all
qed simp

lemma chk_None [err_simps, simp]: "chk b e = None \<longleftrightarrow> \<not> b"
  and chk_Some [err_simps, simp]: "chk b e = Some e' \<longleftrightarrow> b \<and> e' = e"
  by (auto simp: chk_def)

lemma chk_True [simp]: "chk True e = Some e"
  and chk_False [simp]: "chk False e = None"
  by (simp_all add: chk_def)

lemma wrap_err_None [err_simps, simp]: "wrap_err f as c = None \<longleftrightarrow> c = None"
  and wrap_err_Nothing [simp]: "wrap_err f as None = None"
  and wrap_err_Just [simp]: "wrap_err f as (Some e) = Some (Wrapf f as e)"
  by (auto simp: wrap_err_def)

lemma ret_if_ok_Inr [err_simps, simp]: "ret_if_ok c x = Inr y \<longleftrightarrow> c = None \<and> y = x"
  and ret_if_ok_Inl [err_simps, simp]: "ret_if_ok c x = Inl e \<longleftrightarrow> c = Some e"
  and ret_if_ok_None [simp]: "ret_if_ok None x = Inr x"
  and ret_if_ok_Some [simp]: "ret_if_ok (Some e) x = Inl e"
  by (auto simp: ret_if_ok_def split: option.splits)

section \<open>Machine integers and decimal text\<close>

definition max_int64 :: int where "max_int64 = 9223372036854775807"
definition min_int64 :: int where "min_int64 = -9223372036854775808"

definition in_int64 :: "int \<Rightarrow> bool" where
  "in_int64 i \<longleftrightarrow> min_int64 \<le> i \<and> i \<le> max_int64"

text \<open>Two's complement wrap-around of a 64-bit signed result.\<close>

definition wrap64 :: "int \<Rightarrow> int" where
  "wrap64 i = (i + 9223372036854775808) mod 18446744073709551616 - 9223372036854775808"

lemma wrap64_in_int64: "in_int64 (wrap64 i)"
  using pos_mod_bound [of 18446744073709551616 "i + 9223372036854775808"]
    pos_mod_sign [of 18446744073709551616 "i + 9223372036854775808"]
  by (simp add: wrap64_def in_int64_def max_int64_def min_int64_def)

lemma wrap64_id: "in_int64 i \<Longrightarrow> wrap64 i = i"
  by (simp add: wrap64_def in_int64_def max_int64_def min_int64_def)

definition digit_char :: "nat \<Rightarrow> char" where
  "digit_char d = char_of (48 + d)"

definition is_digit :: "char \<Rightarrow> bool" where
  "is_digit c \<longleftrightarrow> 48 \<le> (of_char c :: nat) \<and> (of_char c :: nat) \<le> 57"

definition digit_val :: "char \<Rightarrow> nat" where
  "digit_val c = of_char c - 48"

fun show_nat :: "nat \<Rightarrow> string" where
  "show_nat n = (if n < 10 then [digit_char n] else show_nat (n div 10) @ [digit_char (n mod 10)])"

declare show_nat.simps [simp del]

definition dec_val :: "nat \<Rightarrow> string \<Rightarrow> nat" where
  "dec_val = foldl (\<lambda>acc c. acc * 10 + digit_val c)"

text \<open>\<^verbatim>\<open>strconv.Itoa\<close> and the base-10 \<^verbatim>\<open>strconv.Atoi\<close> on a 64-bit platform.\<close>

definition itoa :: "int \<Rightarrow> string" where
  "itoa i = (if i < 0 then CHR ''-'' # show_nat (nat (- i)) else show_nat (nat i))"

definition signed_digits :: "string \<Rightarrow> bool \<times> string" where
  "signed_digits s = (case s of [] \<Rightarrow> (False, [])
     | c # cs \<Rightarrow> if c = CHR ''-'' then (True, cs)
                 else if c = CHR ''+'' then (False, cs) else (False, c # cs))"

definition atoi :: "string \<Rightarrow> int option" where
  "atoi s = (let (neg, ds) = signed_digits s in
     if ds = [] \<or> \<not> list_all is_digit ds then None
     else let v = (if neg then - int (dec_val 0 ds) else int (dec_val 0 ds))
          in if in_int64 v then Some v else None)"

lemma of_char_digit_char [simp]: "d < 10 \<Longrightarrow> of_char (digit_char d) = 48 + d"
  by (simp add: digit_char_def)

lemma digit_char_digit [simp]: "d < 10 \<Longrightarrow> is_digit (digit_char d)"
  and digit_char_val [simp]: "d < 10 \<Longrightarrow> digit_val (digit_char d) = d"
  by (simp_all add: is_digit_def digit_val_def)

lemma dec_val_append: "dec_val a (xs @ ys) = dec_val (dec_val a xs) ys"
  and dec_val_Nil [simp]: "dec_val a [] = a"
  and dec_val_Cons [simp]: "dec_val a (c # cs) = dec_val (a * 10 + digit_val c) cs"
  by (simp_all add: dec_val_def)

lemma dec_val_acc: "dec_val a cs = a * 10 ^ length cs + dec_val 0 cs"
proof (induction cs arbitrary: a)
  case (Cons c cs)
  show ?case
    using Cons.IH [of "a * 10 + digit_val c"] Cons.IH [of "digit_val c"]
    by (simp add: algebra_simps)
qed simp

lemma show_nat_digits: "list_all is_digit (show_nat n)"
  by (induction n rule: show_nat.induct) (subst show_nat.simps, auto)

lemma show_nat_nonempty [simp]: "show_nat n \<noteq> []"
  by (subst show_nat.simps) simp

lemma dec_val_show_nat [simp]: "dec_val 0 (show_nat n) = n"
proof (induction n rule: show_nat.induct)
  case (1 n)
  then show ?case
    by (subst show_nat.simps) (auto simp: dec_val_append)
qed

lemma show_nat_inj: "show_nat m = show_nat n \<longleftrightarrow> m = n"
  by (metis dec_val_show_nat)

lemma show_nat_hd: "is_digit (hd (show_nat n))"
  using show_nat_digits [of n] by (cases "show_nat n") auto

lemma digit_not_sign: "is_digit c \<Longrightarrow> c \<noteq> CHR ''-'' \<and> c \<noteq> CHR ''+''"
  by (auto simp: is_digit_def)

lemma signed_digits_show_nat [simp]: "signed_digits (show_nat n) = (False, show_nat n)"
  using show_nat_hd [of n] digit_not_sign
  by (cases "show_nat n") (auto simp: signed_digits_def)

lemma signed_digits_minus [simp]: "signed_digits (CHR ''-'' # ds) = (True, ds)"
  by (simp add: signed_digits_def)

lemma atoi_itoa: "in_int64 i \<Longrightarrow> atoi (itoa i) = Some i"
  by (cases "i < 0") (simp_all add: atoi_def itoa_def show_nat_digits)

lemma itoa_nonempty [simp]: "itoa i \<noteq> []"
  by (simp add: itoa_def)

lemma itoa_inj: "itoa i = itoa j \<longleftrightarrow> i = j"
proof
  assume eq: "itoa i = itoa j"
  have "i < 0 \<longleftrightarrow> hd (itoa i) = CHR ''-''" for i
    using show_nat_hd [of "nat i"] digit_not_sign by (auto simp: itoa_def)
  with eq have "i < 0 \<longleftrightarrow> j < 0" by metis
  with eq show "i = j" by (auto simp: itoa_def show_nat_inj split: if_splits)
qed simp

section \<open>Strings\<close>

text \<open>
  The UTF-8 encodings of the runes \<^verbatim>\<open>unicode.IsSpace\<close> accepts. Each starts with
  an ASCII byte or a lead byte, so matching them byte by byte is matching whole runes.
\<close>

definition space_seqs :: "string list" where
  "space_seqs = [[CHR 0x09], [CHR 0x0A], [CHR 0x0B], [CHR 0x0C], [CHR 0x0D], [CHR 0x20],
     [CHR 0xC2, CHR 0x85], [CHR 0xC2, CHR 0xA0], [CHR 0xE1, CHR 0x9A, CHR 0x80],
     [CHR 0xE2, CHR 0x80, CHR 0x80], [CHR 0xE2, CHR 0x80, CHR 0x81], [CHR 0xE2, CHR 0x80, CHR 0x82],
     [CHR 0xE2, CHR 0x80, CHR 0x83], [CHR 0xE2, CHR 0x80, CHR 0x84], [CHR 0xE2, CHR 0x80, CHR 0x85],
     [CHR 0xE2, CHR 0x80, CHR 0x86], [CHR 0xE2, CHR 0x80, CHR 0x87], [CHR 0xE2, CHR 0x80, CHR 0x88],
     [CHR 0xE2, CHR 0x80, CHR 0x89], [CHR 0xE2, CHR 0x80, CHR 0x8A], [CHR 0xE2, CHR 0x80, CHR 0xA8],
     [CHR 0xE2, CHR 0x80, CHR 0xA9], [CHR 0xE2, CHR 0x80, CHR 0xAF], [CHR 0xE2, CHR 0x81, CHR 0x9F],
     [CHR 0xE3, CHR 0x80, CHR 0x80]]"

fun strip_prefix :: "string \<Rightarrow> string \<Rightarrow> string option" where
  "strip_prefix [] s = Some s"
| "strip_prefix (p # ps) [] = None"
| "strip_prefix (p # ps) (c # cs) = (if p = c then strip_prefix ps cs else None)"

definition match_first :: "string list \<Rightarrow> string \<Rightarrow> string option" where
  "match_first ps s = (case List.extract (\<lambda>p. strip_prefix p s \<noteq> None) ps of
     None \<Rightarrow> None | Some (_, p, _) \<Rightarrow> strip_prefix p s)"

lemma strip_prefix_eq: "strip_prefix p s = Some r \<longleftrightarrow> s = p @ r"
  by (induction p s rule: strip_prefix.induct) auto

lemma match_first_Some:
  "match_first ps s = Some r \<Longrightarrow> \<exists>p \<in> set ps. s = p @ r"
  by (auto simp: match_first_def strip_prefix_eq extract_Some_iff split: option.splits)

lemma space_seqs_nonempty: "[] \<notin> set space_seqs"
  by (simp add: space_seqs_def)

lemma match_space_shorter: "match_first space_seqs s = Some r \<Longrightarrow> length r < length s"
proof -
  assume "match_first space_seqs s = Some r"
  then obtain p where "p \<in> set space_seqs" "s = p @ r" by (auto dest: match_first_Some)
  with space_seqs_nonempty show ?thesis by (cases p) auto
qed

text \<open>\<^verbatim>\<open>strings.TrimSpace\<close>: drop leading, then trailing, white space.\<close>

function trim_left_with :: "string list \<Rightarrow> string \<Rightarrow> string" where
  "trim_left_with ps s = (case match_first ps s of
     Some r \<Rightarrow> if length r < length s then trim_left_with ps r else s | None \<Rightarrow> s)"
  by pat_completeness auto
termination by (relation "measure (\<lambda>(ps, s). length s)") auto

declare trim_left_with.simps [simp del]

definition trim_space :: "string \<Rightarrow> string" where
  "trim_space s =
     rev (trim_left_with (map rev space_seqs) (rev (trim_left_with space_seqs s)))"

text \<open>\<^verbatim>\<open>strings.Fields\<close>: the maximal runs without white space.\<close>

function fields_from :: "string \<Rightarrow> string \<Rightarrow> string list" where
  "fields_from acc s = (case match_first space_seqs s of
     Some r \<Rightarrow> if length r < length s then (if acc = [] then [] else [rev acc]) @ fields_from [] r
              else []
   | None \<Rightarrow> (case s of [] \<Rightarrow> (if acc = [] then [] else [rev acc])
              | c # cs \<Rightarrow> fields_from (c # acc) cs))"
  by pat_completeness auto
termination by (relation "measure (\<lambda>(acc, s). length s)") auto

declare fields_from.simps [simp del]

definition go_fields :: "string \<Rightarrow> string list" where
  "go_fields s = fields_from [] s"

text \<open>\<^verbatim>\<open>strings.Split\<close> and \<^verbatim>\<open>strings.Cut\<close> at a single byte.\<close>

fun split_byte :: "char \<Rightarrow> string \<Rightarrow> string list" where
  "split_byte d [] = [[]]"
| "split_byte d (c # cs) =
     (if c = d then [] # split_byte d cs
      else (case split_byte d cs of [] \<Rightarrow> [[c]] | p # ps \<Rightarrow> (c # p) # ps))"

fun cut_byte :: "char \<Rightarrow> string \<Rightarrow> string \<times> string \<times> bool" where
  "cut_byte d [] = ([], [], False)"
| "cut_byte d (c # cs) =
     (if c = d then ([], cs, True) else (case cut_byte d cs of (a, b, f) \<Rightarrow> (c # a, b, f)))"

lemma cut_byte_found: "cut_byte d s = (a, b, True) \<Longrightarrow> s = a @ d # b \<and> d \<notin> set a"
  by (induction s arbitrary: a) (auto split: if_splits prod.splits)

lemma cut_byte_missing: "cut_byte d s = (a, b, False) \<Longrightarrow> a = s \<and> b = [] \<and> d \<notin> set s"
  by (induction s arbitrary: a) (auto split: if_splits prod.splits)

lemma cut_byte_append: "d \<notin> set a \<Longrightarrow> cut_byte d (a @ d # b) = (a, b, True)"
  by (induction a) auto

lemma cut_at_inj:
  "(d :: char) \<notin> set a \<Longrightarrow> d \<notin> set b \<Longrightarrow> a @ d # x = b @ d # y \<Longrightarrow> a = b \<and> x = y"
proof -
  assume a: "d \<notin> set a" and b: "d \<notin> set b" and eq: "a @ d # x = b @ d # y"
  have "(a, x, True) = cut_byte d (a @ d # x)" by (rule cut_byte_append [OF a, symmetric])
  also have "\<dots> = cut_byte d (b @ d # y)" by (simp only: eq)
  also have "\<dots> = (b, y, True)" by (rule cut_byte_append [OF b])
  finally show ?thesis by simp
qed

lemma cut_last_inj:
  assumes "(d :: char) \<notin> set x" "d \<notin> set y" "a @ d # x = b @ d # y"
  shows "a = b \<and> x = y"
proof -
  have "rev x @ d # rev a = rev y @ d # rev b" using arg_cong [OF assms(3), of rev] by simp
  from cut_at_inj [OF _ _ this] assms(1,2) show ?thesis by simp
qed

lemma split_byte_nonempty [simp]: "split_byte d s \<noteq> []"
  by (cases s) (auto split: list.splits)

section \<open>Go maps\<close>

text \<open>
  A Go map is an association list without duplicate keys. The list order is one of the iteration
  orders Go may choose; everything the sources return after ranging over a map is sorted first.
\<close>

type_synonym ('k, 'v) gomap = "('k \<times> 'v) list"

definition gm_ok :: "('k, 'v) gomap \<Rightarrow> bool" where
  "gm_ok m \<longleftrightarrow> distinct (map fst m)"

definition mget :: "('k, 'v) gomap \<Rightarrow> 'k \<Rightarrow> 'v option" where
  "mget m k = map_of m k"

definition mset_at :: "'k \<Rightarrow> 'v \<Rightarrow> ('k, 'v) gomap \<Rightarrow> ('k, 'v) gomap" where
  "mset_at k v m = AList.update k v m"

definition mdel :: "'k \<Rightarrow> ('k, 'v) gomap \<Rightarrow> ('k, 'v) gomap" where
  "mdel k m = AList.delete k m"

definition mkeys :: "('k, 'v) gomap \<Rightarrow> 'k list" where
  "mkeys m = map fst m"

definition mvals :: "('k, 'v) gomap \<Rightarrow> 'v list" where
  "mvals m = map snd m"

text \<open>Reading a map of slices: a missing key reads as the nil slice.\<close>

definition mslice :: "('k, 'v list) gomap \<Rightarrow> 'k \<Rightarrow> 'v list" where
  "mslice m k = (case mget m k of None \<Rightarrow> [] | Some vs \<Rightarrow> vs)"

lemma mget_empty [gomap_simps, simp]: "mget [] k = None"
  by (simp add: mget_def)

lemma mget_mset_at [gomap_simps, simp]:
  "mget (mset_at k v m) k' = (if k' = k then Some v else mget m k')"
  by (simp add: mget_def mset_at_def update_conv)

lemma mget_mdel [gomap_simps, simp]: "mget (mdel k m) k' = (if k' = k then None else mget m k')"
  by (simp add: mget_def mdel_def delete_conv)

lemma mslice_empty [gomap_simps, simp]: "mslice [] k = []"
  by (simp add: mslice_def)

lemma mslice_mset_at [gomap_simps, simp]:
  "mslice (mset_at k v m) k' = (if k' = k then v else mslice m k')"
  by (simp add: mslice_def)

lemma mslice_mdel [gomap_simps, simp]: "mslice (mdel k m) k' = (if k' = k then [] else mslice m k')"
  by (simp add: mslice_def)

lemma gm_ok_empty [simp]: "gm_ok []"
  by (simp add: gm_ok_def)

lemma gm_ok_mset_at [simp, intro]: "gm_ok m \<Longrightarrow> gm_ok (mset_at k v m)"
  by (simp add: gm_ok_def mset_at_def distinct_update)

lemma gm_ok_mdel [simp, intro]: "gm_ok m \<Longrightarrow> gm_ok (mdel k m)"
  by (simp add: gm_ok_def mdel_def distinct_delete)

lemma mkeys_mget: "k \<in> set (mkeys m) \<longleftrightarrow> mget m k \<noteq> None"
  by (auto simp: mkeys_def mget_def map_of_eq_None_iff)

lemma mvals_mget: "gm_ok m \<Longrightarrow> v \<in> set (mvals m) \<longleftrightarrow> (\<exists>k. mget m k = Some v)"
  by (auto simp: mvals_def mget_def gm_ok_def map_of_eq_Some_iff) force+

lemma distinct_mkeys: "gm_ok m \<Longrightarrow> distinct (mkeys m)"
  by (simp add: gm_ok_def mkeys_def)


section \<open>Lists\<close>

lemma in_set_drop_nth:
  assumes "x \<in> set (drop n xs)"
  obtains k where "n + k < length xs" "x = xs ! (n + k)"
proof -
  from assms obtain i where "i < length (drop n xs)" "x = drop n xs ! i"
    by (auto simp: in_set_conv_nth)
  then show thesis
    using that [of i] by auto
qed

lemma sorted_wrt_map_filter:
  assumes "sorted_wrt P ks"
    and "\<And>a b x y. P a b \<Longrightarrow> f a = Some x \<Longrightarrow> f b = Some y \<Longrightarrow> Q x y"
  shows "sorted_wrt Q (List.map_filter f ks)"
  using assms(1)
proof (induction ks)
  case (Cons k ks)
  then show ?case
    using assms(2) by (auto simp: List.map_filter_def split: option.split)
qed (simp add: List.map_filter_def)

lemma set_map_filter_mget: "set (List.map_filter f ks) = {y. \<exists>k \<in> set ks. f k = Some y}"
  by (force simp: List.map_filter_def)

lemma sorted_key_strict:
  fixes f :: "'a \<Rightarrow> 'b :: linorder"
  assumes "distinct ks" "inj_on f (set ks)"
  shows "sorted_wrt (\<lambda>a b. f a < f b) (sort_key f ks)"
proof -
  have "distinct (map f (sort_key f ks))"
    using assms by (simp add: distinct_map)
  then have "sorted_wrt (<) (map f (sort_key f ks))"
    using sorted_sort_key [of f ks] by (simp add: strict_sorted_iff)
  then show ?thesis by (simp add: sorted_wrt_map)
qed


lemma sorted_wrt_concat_map:
  assumes "sorted_wrt (<) ks" "\<And>k. k \<in> set ks \<Longrightarrow> sorted_wrt R (f k)"
    and "\<And>i j a b. i < j \<Longrightarrow> a \<in> set (f i) \<Longrightarrow> b \<in> set (f j) \<Longrightarrow> R a b"
  shows "sorted_wrt R (concat (map f ks))"
  using assms(1,2)
proof (induction ks)
  case (Cons k ks)
  then show ?case
    using assms(3) by (fastforce simp: sorted_wrt_append)
qed simp

end
