(* ===== verification/Utf8.thy ===== *)
theory Utf8
  imports Lebro_Prelude
begin

text \<open>
  Runes: \<^verbatim>\<open>utf8.DecodeRuneInString\<close>, the conversions \<^verbatim>\<open>[]rune(s)\<close> and
  \<^verbatim>\<open>string(runes)\<close>, \<^verbatim>\<open>utf8.RuneCountInString\<close> and
  \<^verbatim>\<open>utf8.ValidString\<close>. A byte that starts no valid encoding decodes to the replacement
  rune with width one. The main fact is the round trip of valid text through its runes.
\<close>

definition rune_error :: nat where "rune_error = 0xFFFD"

definition byte_in :: "nat \<Rightarrow> nat \<Rightarrow> char \<Rightarrow> bool" where
  "byte_in lo hi c \<longleftrightarrow> lo \<le> of_char c \<and> of_char c \<le> hi"

definition low6 :: "char \<Rightarrow> nat" where
  "low6 c = of_char c - 0x80"

definition decode2 :: "nat \<Rightarrow> string \<Rightarrow> (nat \<times> nat) option" where
  "decode2 b0 cs = (case cs of c1 # _ \<Rightarrow>
       if byte_in 0x80 0xBF c1 then Some ((b0 - 0xC0) * 64 + low6 c1, 2) else None
     | _ \<Rightarrow> None)"

definition decode3 :: "nat \<Rightarrow> string \<Rightarrow> (nat \<times> nat) option" where
  "decode3 b0 cs = (case cs of c1 # c2 # _ \<Rightarrow>
       if byte_in (if b0 = 0xE0 then 0xA0 else 0x80) (if b0 = 0xED then 0x9F else 0xBF) c1
          \<and> byte_in 0x80 0xBF c2
       then Some ((b0 - 0xE0) * 4096 + low6 c1 * 64 + low6 c2, 3) else None
     | _ \<Rightarrow> None)"

definition decode4 :: "nat \<Rightarrow> string \<Rightarrow> (nat \<times> nat) option" where
  "decode4 b0 cs = (case cs of c1 # c2 # c3 # _ \<Rightarrow>
       if byte_in (if b0 = 0xF0 then 0x90 else 0x80) (if b0 = 0xF4 then 0x8F else 0xBF) c1
          \<and> byte_in 0x80 0xBF c2 \<and> byte_in 0x80 0xBF c3
       then Some ((b0 - 0xF0) * 262144 + low6 c1 * 4096 + low6 c2 * 64 + low6 c3, 4) else None
     | _ \<Rightarrow> None)"

text \<open>The valid rune at the front of a string, with its width in bytes.\<close>

definition decode_lead :: "nat \<Rightarrow> string \<Rightarrow> (nat \<times> nat) option" where
  "decode_lead b0 cs =
     (if b0 < 0x80 then Some (b0, 1)
      else if 0xC2 \<le> b0 \<and> b0 \<le> 0xDF then decode2 b0 cs
      else if 0xE0 \<le> b0 \<and> b0 \<le> 0xEF then decode3 b0 cs
      else if 0xF0 \<le> b0 \<and> b0 \<le> 0xF4 then decode4 b0 cs
      else None)"

fun decode_valid :: "string \<Rightarrow> (nat \<times> nat) option" where
  "decode_valid [] = None"
| "decode_valid (c # cs) = decode_lead (of_char c) cs"

definition decode_rune :: "string \<Rightarrow> nat \<times> nat" where
  "decode_rune s = (case decode_valid s of Some rw \<Rightarrow> rw | None \<Rightarrow> (rune_error, 1))"

definition encode_rune :: "nat \<Rightarrow> string" where
  "encode_rune r =
     (if r < 0x80 then [char_of r]
      else if r < 0x800 then [char_of (0xC0 + r div 64), char_of (0x80 + r mod 64)]
      else if 0xD800 \<le> r \<and> r \<le> 0xDFFF \<or> 0x10FFFF < r then [CHR 0xEF, CHR 0xBF, CHR 0xBD]
      else if r < 0x10000 then
        [char_of (0xE0 + r div 4096), char_of (0x80 + r div 64 mod 64), char_of (0x80 + r mod 64)]
      else [char_of (0xF0 + r div 262144), char_of (0x80 + r div 4096 mod 64),
            char_of (0x80 + r div 64 mod 64), char_of (0x80 + r mod 64)])"

lemmas decodeN_defs = decode2_def decode3_def decode4_def

lemma decode_valid_width:
  "decode_valid s = Some (r, w) \<Longrightarrow> 1 \<le> w \<and> w \<le> length s"
  by (cases s) (auto simp: decode_lead_def decodeN_defs split: if_splits list.splits)

lemma decode_rune_width: "s \<noteq> [] \<Longrightarrow> decode_rune s = (r, w) \<Longrightarrow> 1 \<le> w \<and> w \<le> length s"
  by (auto simp: decode_rune_def Suc_le_eq split: option.splits dest: decode_valid_width)

function runes :: "string \<Rightarrow> nat list" where
  "runes s = (if s = [] then [] else case decode_rune s of (r, w) \<Rightarrow> r # runes (drop w s))"
  by pat_completeness auto
termination
  by (relation "measure length") (auto dest: decode_rune_width [OF _ sym])

function utf8_valid :: "string \<Rightarrow> bool" where
  "utf8_valid s = (s = [] \<or> (case decode_valid s of None \<Rightarrow> False
      | Some (r, w) \<Rightarrow> utf8_valid (drop w s)))"
  by pat_completeness auto
termination
  by (relation "measure length") (auto dest: decode_valid_width)

declare runes.simps [simp del] utf8_valid.simps [simp del]

definition rune_count :: "string \<Rightarrow> nat" where
  "rune_count s = length (runes s)"

definition string_of_runes :: "nat list \<Rightarrow> string" where
  "string_of_runes rs = concat (map encode_rune rs)"

lemma char_of_eqI: "n = of_char c \<Longrightarrow> char_of n = c"
  by simp

lemma byte_low6: "byte_in 0x80 0xBF c \<Longrightarrow> low6 c < 64 \<and> 0x80 + low6 c = of_char c"
  by (auto simp: byte_in_def low6_def)

lemma byte_in_cont: "byte_in lo hi c \<Longrightarrow> 0x80 \<le> lo \<Longrightarrow> hi \<le> 0xBF \<Longrightarrow> byte_in 0x80 0xBF c"
  by (auto simp: byte_in_def)

text \<open>Mixed-radix digits of a rune.\<close>

lemma radix64:
  assumes "c < (64::nat)"
  shows "(a * 64 + c) mod 64 = c" "(a * 64 + c) div 64 = a"
  using assms by auto

lemma encode_decode2:
  assumes "0xC2 \<le> b0" "b0 \<le> 0xDF" "b0 = of_char c" "decode2 b0 cs = Some (r, w)"
  shows "encode_rune r = take w (c # cs)"
proof -
  obtain c1 t where cs: "cs = c1 # t" and b1: "byte_in 0x80 0xBF c1"
    and r: "r = (b0 - 0xC0) * 64 + low6 c1" and w: "w = 2"
    using assms(4) by (auto simp: decode2_def split: list.splits if_splits)
  have l1: "low6 c1 < 64" "0x80 + low6 c1 = of_char c1" using byte_low6 [OF b1] by auto
  have "r < 0x800" "\<not> r < 0x80" using r l1 assms(1,2) by auto
  moreover have "r div 64 = b0 - 0xC0" "r mod 64 = low6 c1" using r radix64 [OF l1(1)] by auto
  ultimately show ?thesis
    using cs w l1 assms(1,3) by (simp add: encode_rune_def)
qed

lemma encode_decode3:
  assumes "0xE0 \<le> b0" "b0 \<le> 0xEF" "b0 = of_char c" "decode3 b0 cs = Some (r, w)"
  shows "encode_rune r = take w (c # cs)"
proof -
  obtain c1 c2 t where cs: "cs = c1 # c2 # t"
    and b1: "byte_in (if b0 = 0xE0 then 0xA0 else 0x80) (if b0 = 0xED then 0x9F else 0xBF) c1"
    and b2: "byte_in 0x80 0xBF c2"
    and r: "r = (b0 - 0xE0) * 4096 + low6 c1 * 64 + low6 c2" and w: "w = 3"
    using assms(4) by (auto simp: decode3_def split: list.splits if_splits)
  have "byte_in 0x80 0xBF c1" using b1 by (auto split: if_splits elim: byte_in_cont)
  then have l1: "low6 c1 < 64" "0x80 + low6 c1 = of_char c1" by (auto dest: byte_low6)
  have l2: "low6 c2 < 64" "0x80 + low6 c2 = of_char c2" using byte_low6 [OF b2] by auto
  have d1: "r mod 64 = low6 c2" "r div 64 = (b0 - 0xE0) * 64 + low6 c1"
    using r radix64 [OF l2(1), of "(b0 - 0xE0) * 64 + low6 c1"] by (simp_all add: algebra_simps)
  have d2: "r div 64 mod 64 = low6 c1" "r div 4096 = b0 - 0xE0"
    using d1 l1 radix64 [OF l1(1)] by (auto simp: div_mult2_eq [of r 64 64, simplified])
  have e0: "b0 = 0xE0 \<Longrightarrow> 0x20 \<le> low6 c1" using b1 by (auto simp: byte_in_def low6_def)
  have ed: "b0 = 0xED \<Longrightarrow> low6 c1 \<le> 0x1F" using b1 by (auto simp: byte_in_def low6_def)
  have lo: "\<not> r < 0x800" using r e0 assms(1) by (cases "b0 = 0xE0") auto
  have hi: "r < 0x10000" using r l1 l2 assms(2) by auto
  have nosur: "\<not> (0xD800 \<le> r \<and> r \<le> 0xDFFF \<or> 0x10FFFF < r)"
  proof (cases "b0 = 0xED")
    case True
    then show ?thesis using r ed l2 by auto
  next
    case False
    then have "b0 \<le> 0xEC \<or> 0xEE \<le> b0" by auto
    then show ?thesis using r l1 l2 hi by auto
  qed
  show ?thesis
    using lo hi nosur d1(1) d2 cs w l1(2) l2(2) assms(1,3) by (auto simp: encode_rune_def)
qed

lemma encode_decode4:
  assumes "0xF0 \<le> b0" "b0 \<le> 0xF4" "b0 = of_char c" "decode4 b0 cs = Some (r, w)"
  shows "encode_rune r = take w (c # cs)"
proof -
  obtain c1 c2 c3 t where cs: "cs = c1 # c2 # c3 # t"
    and b1: "byte_in (if b0 = 0xF0 then 0x90 else 0x80) (if b0 = 0xF4 then 0x8F else 0xBF) c1"
    and b2: "byte_in 0x80 0xBF c2" and b3: "byte_in 0x80 0xBF c3"
    and r: "r = (b0 - 0xF0) * 262144 + low6 c1 * 4096 + low6 c2 * 64 + low6 c3" and w: "w = 4"
    using assms(4) by (auto simp: decode4_def split: list.splits if_splits)
  have "byte_in 0x80 0xBF c1" using b1 by (auto split: if_splits elim: byte_in_cont)
  then have l1: "low6 c1 < 64" "0x80 + low6 c1 = of_char c1" by (auto dest: byte_low6)
  have l2: "low6 c2 < 64" "0x80 + low6 c2 = of_char c2" using byte_low6 [OF b2] by auto
  have l3: "low6 c3 < 64" "0x80 + low6 c3 = of_char c3" using byte_low6 [OF b3] by auto
  have d1: "r mod 64 = low6 c3" "r div 64 = (b0 - 0xF0) * 4096 + low6 c1 * 64 + low6 c2"
    using r radix64 [OF l3(1), of "(b0 - 0xF0) * 4096 + low6 c1 * 64 + low6 c2"]
    by (simp_all add: algebra_simps)
  have d2: "r div 64 mod 64 = low6 c2" "r div 4096 = (b0 - 0xF0) * 64 + low6 c1"
    using d1 radix64 [OF l2(1), of "(b0 - 0xF0) * 64 + low6 c1"]
    by (simp_all add: div_mult2_eq [of r 64 64, simplified] algebra_simps)
  have d3: "r div 4096 mod 64 = low6 c1" "r div 262144 = b0 - 0xF0"
    using d2 radix64 [OF l1(1), of "b0 - 0xF0"]
    by (simp_all add: div_mult2_eq [of r 4096 64, simplified])
  have f0: "b0 = 0xF0 \<Longrightarrow> 0x10 \<le> low6 c1" using b1 by (auto simp: byte_in_def low6_def)
  have f4: "b0 = 0xF4 \<Longrightarrow> low6 c1 \<le> 0xF" using b1 by (auto simp: byte_in_def low6_def)
  have lo: "\<not> r < 0x10000" using r f0 assms(1) by (cases "b0 = 0xF0") auto
  have hi: "r \<le> 0x10FFFF" using r f4 l1 l2 l3 assms(2) by (cases "b0 = 0xF4") auto
  show ?thesis
    using lo hi d1(1) d2(1) d3 cs w l1(2) l2(2) l3(2) assms(1,3) by (simp add: encode_rune_def)
qed

lemma encode_decode_valid:
  assumes "decode_valid s = Some (r, w)"
  shows "encode_rune r = take w s"
  using assms
  by (cases s)
     (auto simp: decode_lead_def encode_rune_def split: if_splits
        dest: encode_decode2 [OF _ _ refl] encode_decode3 [OF _ _ refl] encode_decode4 [OF _ _ refl])

lemma utf8_valid_Some:
  assumes "utf8_valid s" "s \<noteq> []"
  obtains r w where "decode_valid s = Some (r, w)" "utf8_valid (drop w s)"
    "decode_rune s = (r, w)" "1 \<le> w" "w \<le> length s"
  using assms
  by (subst (asm) utf8_valid.simps)
     (auto split: option.splits dest: decode_valid_width simp: decode_rune_def)

lemma string_of_runes_runes: "utf8_valid s \<Longrightarrow> string_of_runes (runes s) = s"
proof (induction s rule: runes.induct)
  case (1 s)
  show ?case
  proof (cases "s = []")
    case True
    then show ?thesis by (simp add: string_of_runes_def runes.simps)
  next
    case False
    then obtain r w where d: "decode_valid s = Some (r, w)" "utf8_valid (drop w s)"
        "decode_rune s = (r, w)" by (rule utf8_valid_Some [OF "1.prems"])
    then have "string_of_runes (runes (drop w s)) = drop w s"
      using "1.IH" [OF False d(3) [symmetric]] by simp
    then show ?thesis
      using d False encode_decode_valid [OF d(1)]
      by (subst runes.simps) (simp add: string_of_runes_def)
  qed
qed

lemma runes_Nil [simp]: "runes [] = []" and runes_eq_Nil [simp]: "runes s = [] \<longleftrightarrow> s = []"
  by (subst runes.simps; simp split: prod.splits)+

lemma string_of_runes_append: "string_of_runes (xs @ ys) = string_of_runes xs @ string_of_runes ys"
  by (simp add: string_of_runes_def)

end
