(* ===== verification/Json.thy ===== *)
theory Json
  imports Utf8
begin

text \<open>
  What the sources use of \<^verbatim>\<open>encoding/json\<close>: \<^verbatim>\<open>json.Valid\<close>, decoding a text
  into a generic value (\<^verbatim>\<open>json.Unmarshal\<close> into \<^verbatim>\<open>any\<close>, where a later
  duplicate key wins and a number outside the float64 range is an error), and
  \<^verbatim>\<open>jsonValueDepth\<close> of \<^verbatim>\<open>metadata.go\<close>. The parser runs on fuel;
  \<open>pval_fuel\<close> shows that twice the length of the text is always enough.
\<close>

datatype jvalue =
    JNull
  | JBool bool
  | JNum string
  | JStr string
  | JArr "jvalue list"
  | JObj "(string \<times> jvalue) list"

section \<open>Lexical level\<close>

definition is_ws :: "char \<Rightarrow> bool" where
  "is_ws c \<longleftrightarrow> c = CHR 0x20 \<or> c = CHR 0x09 \<or> c = CHR 0x0A \<or> c = CHR 0x0D"

definition skip_ws :: "string \<Rightarrow> string" where
  "skip_ws = dropWhile is_ws"

definition is_hex :: "char \<Rightarrow> bool" where
  "is_hex c \<longleftrightarrow> is_digit c \<or> byte_in 0x41 0x46 c \<or> byte_in 0x61 0x66 c"

definition hex_val :: "char \<Rightarrow> nat" where
  "hex_val c = (if is_digit c then of_char c - 48
     else if byte_in 0x41 0x46 c then of_char c - 55 else of_char c - 87)"

text \<open>The raw text of a string literal, after its opening quote.\<close>

fun scan_str :: "string \<Rightarrow> string \<Rightarrow> (string \<times> string) option" where
  "scan_str acc [] = None"
| "scan_str acc (c # cs) =
     (if c = CHR 0x22 then Some (rev acc, cs)
      else if of_char c < (0x20::nat) then None
      else if c = CHR 0x5C then
        (case cs of [] \<Rightarrow> None
         | e # es \<Rightarrow>
             if e \<in> set [CHR 0x22, CHR 0x5C, CHR ''/'', CHR ''b'', CHR ''f'', CHR ''n'', CHR ''r'', CHR ''t'']
             then scan_str (e # c # acc) es
             else if e = CHR ''u'' then
               (case es of h1 # h2 # h3 # h4 # rest \<Rightarrow>
                  if is_hex h1 \<and> is_hex h2 \<and> is_hex h3 \<and> is_hex h4
                  then scan_str (h4 # h3 # h2 # h1 # e # c # acc) rest else None
                | _ \<Rightarrow> None)
             else None)
      else scan_str (c # acc) cs)"

definition hex4 :: "char \<Rightarrow> char \<Rightarrow> char \<Rightarrow> char \<Rightarrow> nat" where
  "hex4 a b c d = ((hex_val a * 16 + hex_val b) * 16 + hex_val c) * 16 + hex_val d"

definition unescape :: "char \<Rightarrow> char" where
  "unescape e = (if e = CHR ''b'' then CHR 0x08 else if e = CHR ''f'' then CHR 0x0C
     else if e = CHR ''n'' then CHR 0x0A else if e = CHR ''r'' then CHR 0x0D
     else if e = CHR ''t'' then CHR 0x09 else e)"

text \<open>One step of \<^verbatim>\<open>unquote\<close>: the decoded bytes at the front and what is left.\<close>

definition unquote_u :: "nat \<Rightarrow> string \<Rightarrow> string \<times> string" where
  "unquote_u rr rest =
     (if 0xD800 \<le> rr \<and> rr < 0xE000 then
        (case rest of b # u # g1 # g2 # g3 # g4 # rest2 \<Rightarrow>
           if b = CHR 0x5C \<and> u = CHR ''u'' \<and> rr < 0xDC00
              \<and> 0xDC00 \<le> hex4 g1 g2 g3 g4 \<and> hex4 g1 g2 g3 g4 < 0xE000
           then (encode_rune ((rr - 0xD800) * 1024 + (hex4 g1 g2 g3 g4 - 0xDC00) + 0x10000), rest2)
           else (encode_rune rune_error, rest)
         | _ \<Rightarrow> (encode_rune rune_error, rest))
      else (encode_rune rr, rest))"

definition unquote_step :: "char \<Rightarrow> string \<Rightarrow> string \<times> string" where
  "unquote_step c cs =
     (if c = CHR 0x5C then
        (case cs of [] \<Rightarrow> ([], [])
         | e # es \<Rightarrow> if e = CHR ''u'' then
             (case es of h1 # h2 # h3 # h4 # rest \<Rightarrow> unquote_u (hex4 h1 h2 h3 h4) rest
              | _ \<Rightarrow> ([], []))
           else ([unescape e], es))
      else (case decode_rune (c # cs) of (r, w) \<Rightarrow> (encode_rune r, drop (w - 1) cs)))"

lemma unquote_u_length: "unquote_u rr rest = (out, r) \<Longrightarrow> length r \<le> length rest"
  by (auto simp: unquote_u_def split: if_splits list.splits)

lemma unquote_step_length: "unquote_step c cs = (out, r) \<Longrightarrow> length r \<le> length cs"
  by (auto simp: unquote_step_def split: if_splits list.splits prod.splits dest!: unquote_u_length)

function unquote :: "string \<Rightarrow> string" where
  "unquote [] = []"
| "unquote (c # cs) = (case unquote_step c cs of (out, r) \<Rightarrow> out @ unquote r)"
  by pat_completeness auto
termination
  by (relation "measure length") (auto dest: unquote_step_length [OF sym] simp: le_imp_less_Suc)

text \<open>Number literals: sign, integer part, fraction, exponent.\<close>

definition scan_digits :: "string \<Rightarrow> string \<times> string" where
  "scan_digits s = (takeWhile is_digit s, dropWhile is_digit s)"

definition scan_int :: "string \<Rightarrow> (string \<times> string) option" where
  "scan_int s = (case s of [] \<Rightarrow> None
     | c # cs \<Rightarrow> if c = CHR ''0'' then Some ([c], cs)
                 else if is_digit c then Some (scan_digits s) else None)"

definition scan_frac :: "string \<Rightarrow> (string \<times> string) option" where
  "scan_frac s = (case s of c # cs \<Rightarrow>
       if c = CHR ''.'' then
         (case scan_digits cs of (ds, r) \<Rightarrow> if ds = [] then None else Some (ds, r))
       else Some ([], s)
     | [] \<Rightarrow> Some ([], []))"

definition scan_exp :: "string \<Rightarrow> ((bool \<times> string) \<times> string) option" where
  "scan_exp s = (case s of c # cs \<Rightarrow>
       if c = CHR ''e'' \<or> c = CHR ''E'' then
         (let neg = (cs \<noteq> [] \<and> hd cs = CHR ''-'');
              t = (if cs \<noteq> [] \<and> (hd cs = CHR ''-'' \<or> hd cs = CHR ''+'') then tl cs else cs)
          in case scan_digits t of (ds, r) \<Rightarrow> if ds = [] then None else Some ((neg, ds), r))
       else Some ((False, []), s)
     | [] \<Rightarrow> Some ((False, []), []))"

text \<open>The largest finite float64 is 2^1024 - 2^971; from 2^1024 - 2^970 on a literal overflows.\<close>

definition float64_limit :: int where
  "float64_limit = 2 ^ 1024 - 2 ^ 970"

lemma float64_limit_code [code]:
  "float64_limit = 179769313486231580793728971405303415079934132710037826936173778980444968292764750946649017977587207096330286416692887910946555547851940402630657488671505820681908902000708383676273854845817711531764475730270069855571366959622842914819860834936475292719074168444365510704342711559699508093042880177904174497792"
  by (simp add: float64_limit_def)

definition float64_overflow :: "string \<Rightarrow> string \<Rightarrow> bool \<times> string \<Rightarrow> bool" where
  "float64_overflow ip fp e =
     (let m = int (dec_val 0 (ip @ fp));
          x = dec_val 0 (snd e) in
      if fst e then float64_limit * 10 ^ (x + length fp) \<le> m
      else float64_limit * 10 ^ length fp \<le> m * 10 ^ x)"

text \<open>A scanned number: its literal, whether it overflows float64, and the rest.\<close>

definition scan_num :: "string \<Rightarrow> (string \<times> bool \<times> string) option" where
  "scan_num s =
     (let t = (if s \<noteq> [] \<and> hd s = CHR ''-'' then tl s else s) in
      case scan_int t of None \<Rightarrow> None
      | Some (ip, r1) \<Rightarrow> (case scan_frac r1 of None \<Rightarrow> None
        | Some (fp, r2) \<Rightarrow> (case scan_exp r2 of None \<Rightarrow> None
          | Some (e, r3) \<Rightarrow> Some (take (length s - length r3) s, float64_overflow ip fp e, r3))))"

section \<open>Values\<close>

definition max_nesting_depth :: nat where "max_nesting_depth = 10000"

definition too_deep :: "nat \<Rightarrow> bool" where
  "too_deep d \<longleftrightarrow> max_nesting_depth \<le> d"

lemma too_deep_code [code]: "too_deep d \<longleftrightarrow> 10000 \<le> int d"
  by (auto simp: too_deep_def max_nesting_depth_def)

definition obj_of :: "(string \<times> jvalue) list \<Rightarrow> (string \<times> jvalue) list" where
  "obj_of ms = foldl (\<lambda>m (k, v). mset_at k v m) [] ms"

definition scan_lit :: "string \<Rightarrow> jvalue \<Rightarrow> string \<Rightarrow> (jvalue \<times> bool \<times> string) option" where
  "scan_lit w v s = (case strip_prefix w s of None \<Rightarrow> None | Some r \<Rightarrow> Some (v, False, r))"

text \<open>
  The parsers return the value, whether some number in it was out of range (the error
  \<^verbatim>\<open>json.Unmarshal\<close> reports after decoding), and the rest of the text. The second
  argument is the number of containers already open.
\<close>

fun pval :: "nat \<Rightarrow> nat \<Rightarrow> string \<Rightarrow> (jvalue \<times> bool \<times> string) option"
  and pelems :: "nat \<Rightarrow> nat \<Rightarrow> string \<Rightarrow> (jvalue list \<times> bool \<times> string) option"
  and pmembers :: "nat \<Rightarrow> nat \<Rightarrow> string \<Rightarrow> ((string \<times> jvalue) list \<times> bool \<times> string) option"
where
  "pval 0 d s = None"
| "pval (Suc n) d s = (case skip_ws s of [] \<Rightarrow> None
     | c # cs \<Rightarrow>
       if c = CHR 0x7B then
         (if too_deep d then None
          else case skip_ws cs of [] \<Rightarrow> None
            | c2 # r \<Rightarrow> if c2 = CHR 0x7D then Some (JObj [], False, r)
                else (case pmembers n (Suc d) (c2 # r) of None \<Rightarrow> None
                  | Some (ms, o1, r') \<Rightarrow> Some (JObj (obj_of ms), o1, r')))
       else if c = CHR ''['' then
         (if too_deep d then None
          else case skip_ws cs of [] \<Rightarrow> None
            | c2 # r \<Rightarrow> if c2 = CHR '']'' then Some (JArr [], False, r)
                else (case pelems n (Suc d) (c2 # r) of None \<Rightarrow> None
                  | Some (vs, o1, r') \<Rightarrow> Some (JArr vs, o1, r')))
       else if c = CHR 0x22 then
         (case scan_str [] cs of None \<Rightarrow> None | Some (raw, r) \<Rightarrow> Some (JStr (unquote raw), False, r))
       else if c = CHR ''t'' then scan_lit ''true'' (JBool True) (c # cs)
       else if c = CHR ''f'' then scan_lit ''false'' (JBool False) (c # cs)
       else if c = CHR ''n'' then scan_lit ''null'' JNull (c # cs)
       else (case scan_num (c # cs) of None \<Rightarrow> None | Some (lit, o1, r) \<Rightarrow> Some (JNum lit, o1, r)))"
| "pelems 0 d s = None"
| "pelems (Suc n) d s = (case pval n d s of None \<Rightarrow> None
     | Some (v, o1, r) \<Rightarrow> (case skip_ws r of [] \<Rightarrow> None
        | c # cs \<Rightarrow> if c = CHR '','' then
              (case pelems n d cs of None \<Rightarrow> None
               | Some (vs, o2, r') \<Rightarrow> Some (v # vs, o1 \<or> o2, r'))
            else if c = CHR '']'' then Some ([v], o1, cs) else None))"
| "pmembers 0 d s = None"
| "pmembers (Suc n) d s = (case skip_ws s of [] \<Rightarrow> None
     | q # qs \<Rightarrow> if q \<noteq> CHR 0x22 then None
        else (case scan_str [] qs of None \<Rightarrow> None
          | Some (raw, r1) \<Rightarrow> (case skip_ws r1 of [] \<Rightarrow> None
            | c1 # r2 \<Rightarrow> if c1 \<noteq> CHR '':'' then None
               else (case pval n d r2 of None \<Rightarrow> None
                 | Some (v, o1, r) \<Rightarrow> (case skip_ws r of [] \<Rightarrow> None
                    | c # cs \<Rightarrow> if c = CHR '','' then
                          (case pmembers n d cs of None \<Rightarrow> None
                           | Some (ms, o2, r') \<Rightarrow> Some ((unquote raw, v) # ms, o1 \<or> o2, r'))
                        else if c = CHR 0x7D then Some ([(unquote raw, v)], o1, cs) else None)))))"

definition json_parse :: "string \<Rightarrow> (jvalue \<times> bool) option" where
  "json_parse s = (case pval (Suc (2 * length s)) 0 s of None \<Rightarrow> None
     | Some (v, o1, r) \<Rightarrow> if skip_ws r = [] then Some (v, o1) else None)"

definition json_valid :: "string \<Rightarrow> bool" where
  "json_valid s \<longleftrightarrow> json_parse s \<noteq> None"

text \<open>\<^verbatim>\<open>json.Unmarshal(value, &decoded)\<close> for a generic target.\<close>

definition json_unmarshal_any :: "string \<Rightarrow> jvalue option" where
  "json_unmarshal_any s = (case json_parse s of Some (v, False) \<Rightarrow> Some v | _ \<Rightarrow> None)"


section \<open>Raw messages\<close>

text \<open>
  A \<^verbatim>\<open>json.RawMessage\<close> is a byte slice: \<open>None\<close> is the nil slice, which is encoded as
  \<^verbatim>\<open>null\<close>; an empty slice that is not nil has no encoding.
\<close>

type_synonym RawMessage = "string option"

definition raw_bytes :: "RawMessage \<Rightarrow> string" where
  "raw_bytes r = (case r of None \<Rightarrow> [] | Some b \<Rightarrow> b)"

definition raw_marshal_ok :: "RawMessage \<Rightarrow> bool" where
  "raw_marshal_ok r \<longleftrightarrow> (case r of None \<Rightarrow> True | Some b \<Rightarrow> json_valid b)"

text \<open>The same for a field tagged \<^verbatim>\<open>omitempty\<close>, which is left out when empty.\<close>

definition raw_omitempty_ok :: "RawMessage \<Rightarrow> bool" where
  "raw_omitempty_ok r \<longleftrightarrow> raw_bytes r = [] \<or> json_valid (raw_bytes r)"

definition validateJSON :: "RawMessage \<Rightarrow> go_error option" where
  "validateJSON value = chk (\<not> (raw_bytes value = [] \<or> json_valid (raw_bytes value)))
     (Errorf ''must be valid JSON'' [])"

definition cloneJSON :: "RawMessage \<Rightarrow> RawMessage" where
  "cloneJSON v = (if raw_bytes v = [] then None else Some (raw_bytes v))"

lemma raw_bytes_simps [simp]: "raw_bytes None = []" "raw_bytes (Some b) = b"
  by (simp_all add: raw_bytes_def)

lemma raw_bytes_cloneJSON [simp]: "raw_bytes (cloneJSON v) = raw_bytes v"
  by (simp add: cloneJSON_def)

lemma cloneJSON_idem [simp]: "cloneJSON (cloneJSON v) = cloneJSON v"
  by (simp add: cloneJSON_def)

lemma json_valid_nonempty: "json_valid b \<Longrightarrow> b \<noteq> []"
  by (auto simp: json_valid_def json_parse_def skip_ws_def)

section \<open>Consumption and fuel\<close>

lemma skip_ws_length: "skip_ws s = r \<Longrightarrow> length r \<le> length s"
  by (auto simp: skip_ws_def length_dropWhile_le)

lemma skip_ws_Cons_length: "skip_ws s = c # cs \<Longrightarrow> length cs < length s"
  using skip_ws_length [of s "c # cs"] by simp

lemma scan_str_length: "scan_str acc s = Some (raw, r) \<Longrightarrow> length r < length s"
proof (induction s arbitrary: acc rule: length_induct)
  case (1 s)
  then have IH: "scan_str a t = Some (raw, r) \<Longrightarrow> length t < length s \<Longrightarrow> length r < length t" for a t
    by blast
  show ?case using 1(2)
    by (cases "(acc, s)" rule: scan_str.cases) 
       (auto split: if_splits list.splits dest!: IH)
qed

lemma scan_digits_length: "scan_digits s = (ds, r) \<Longrightarrow> length r \<le> length s"
  by (auto simp: scan_digits_def length_dropWhile_le)

lemma scan_int_length: "scan_int s = Some (ip, r) \<Longrightarrow> length r < length s"
  by (auto simp: scan_int_def scan_digits_def length_dropWhile_le le_imp_less_Suc
      split: list.splits if_splits)

lemma scan_frac_length: "scan_frac s = Some (fp, r) \<Longrightarrow> length r \<le> length s"
  by (auto simp: scan_frac_def split: list.splits if_splits prod.splits dest!: scan_digits_length)

lemma scan_exp_length: "scan_exp s = Some (e, r) \<Longrightarrow> length r \<le> length s"
  by (auto simp: scan_exp_def Let_def split: list.splits if_splits prod.splits dest!: scan_digits_length)

lemma scan_num_length: "scan_num s = Some (lit, o1, r) \<Longrightarrow> length r < length s"
  by (auto simp: scan_num_def Let_def split: option.splits if_splits
      dest!: scan_int_length scan_frac_length scan_exp_length, linarith+)

lemma scan_lit_length: "scan_lit (w # ws) v s = Some (v', o1, r) \<Longrightarrow> length r < length s"
  by (auto simp: scan_lit_def strip_prefix_eq split: option.splits)

lemmas json_lengths = skip_ws_Cons_length scan_str_length scan_num_length scan_lit_length

lemma pval_length_aux:
  "(\<forall>d s v o1 r. pval n d s = Some (v, o1, r) \<longrightarrow> length r < length s) \<and>
   (\<forall>d s vs o1 r. pelems n d s = Some (vs, o1, r) \<longrightarrow> length r < length s) \<and>
   (\<forall>d s ms o1 r. pmembers n d s = Some (ms, o1, r) \<longrightarrow> length r < length s)"
proof (induction n)
  case 0
  then show ?case by simp
next
  case (Suc n)
  have V: "length r < length s" if "pval n d s = Some (v, o1, r)" for d s v o1 r
    using Suc that by blast
  have E: "length r < length s" if "pelems n d s = Some (v, o1, r)" for d s v o1 r
    using Suc that by blast
  have M: "length r < length s" if "pmembers n d s = Some (v, o1, r)" for d s v o1 r
    using Suc that by blast
  have 1: "length r < length s" if "pval (Suc n) d s = Some (v, o1, r)" for d s v o1 r
  proof (cases "skip_ws s")
    case Nil
    then show ?thesis using that by simp
  next
    case (Cons c cs)
    note L = skip_ws_Cons_length [OF Cons]
    show ?thesis
    proof (cases "skip_ws cs")
    case Nil
    then show ?thesis using that Cons L 
      by (auto split: if_splits option.splits dest!: json_lengths)
  next
    case (Cons c2 cs2)
    note L2 = skip_ws_Cons_length [OF Cons]
      show ?thesis using that Cons \<open>skip_ws s = _\<close> L L2 
      by (auto split: if_splits option.splits dest!: json_lengths E M)
    qed
  qed
  moreover have 2: "length r < length s" if "pelems (Suc n) d s = Some (v, o1, r)" for d s v o1 r
    using that
    by (auto split: if_splits option.splits list.splits dest!: skip_ws_Cons_length E V)
  moreover have 3: "length r < length s" if "pmembers (Suc n) d s = Some (v, o1, r)" for d s v o1 r
    using that
    by (auto split: if_splits option.splits list.splits dest!: skip_ws_Cons_length scan_str_length M V)
  ultimately show ?case by blast
qed

lemmas pval_lengths = conjunct1 [OF pval_length_aux, rule_format]
  conjunct1 [OF conjunct2 [OF pval_length_aux], rule_format]
  conjunct2 [OF conjunct2 [OF pval_length_aux], rule_format]

lemma pval_fuel_aux:
  "(\<forall>m d s. 2 * length s < n \<longrightarrow> 2 * length s < m \<longrightarrow> pval n d s = pval m d s) \<and>
   (\<forall>m d s. 2 * length s + 1 < n \<longrightarrow> 2 * length s + 1 < m \<longrightarrow> pelems n d s = pelems m d s) \<and>
   (\<forall>m d s. 2 * length s + 1 < n \<longrightarrow> 2 * length s + 1 < m \<longrightarrow> pmembers n d s = pmembers m d s)"
proof (induction n)
  case 0
  then show ?case by simp
next
  case (Suc n)
  have V: "pval n d s = pval m d s" if "2 * length s < n" "2 * length s < m" for d s m
    using Suc that by blast
  have E: "pelems n d s = pelems m d s" if "2 * length s + 1 < n" "2 * length s + 1 < m" for d s m
    using Suc that by blast
  have M: "pmembers n d s = pmembers m d s" if "2 * length s + 1 < n" "2 * length s + 1 < m" for d s m
    using Suc that by blast
  have 1: "pval (Suc n) d s = pval (Suc m) d s" if "2 * length s < Suc n" "2 * length s < Suc m" for d s m
  proof -
    have "pmembers n (Suc d) (c2 # r) = pmembers m (Suc d) (c2 # r) \<and>
        pelems n (Suc d) (c2 # r) = pelems m (Suc d) (c2 # r)"
      if "skip_ws s = c # cs" "skip_ws cs = c2 # r" for c cs c2 r
      using skip_ws_Cons_length [OF that(1)] skip_ws_Cons_length [OF that(2)]
        \<open>2 * length s < Suc n\<close> \<open>2 * length s < Suc m\<close>
      by (intro conjI M E) auto
    then show ?thesis
      by (auto split: list.split)
  qed
  have 2: "pelems (Suc n) d s = pelems (Suc m) d s"
    if a: "2 * length s + 1 < Suc n" "2 * length s + 1 < Suc m" for d s m
  proof -
    have "pelems n d cs = pelems m d cs" if "pval m d s = Some (v, o1, r)" "skip_ws r = c # cs" for v o1 r c cs
      using pval_lengths(1) [OF that(1)] skip_ws_Cons_length [OF that(2)] a by (intro E) auto
    moreover have "pval n d s = pval m d s"
      using a by (intro V) auto
    ultimately show ?thesis
      by (auto split: list.split option.split)
  qed
  have 3: "pmembers (Suc n) d s = pmembers (Suc m) d s"
    if a: "2 * length s + 1 < Suc n" "2 * length s + 1 < Suc m" for d s m
  proof -
    have v: "pval n d r2 = pval m d r2"
      if "skip_ws s = q # qs" "scan_str [] qs = Some (raw, r1)" "skip_ws r1 = c # r2" for q qs raw r1 c r2
      using skip_ws_Cons_length [OF that(1)] scan_str_length [OF that(2)] skip_ws_Cons_length [OF that(3)] a
      by (intro V) auto
    have m: "pmembers n d cs = pmembers m d cs"
      if "skip_ws s = q # qs" "scan_str [] qs = Some (raw, r1)" "skip_ws r1 = c # r2"
        "pval m d r2 = Some (v, o1, r)" "skip_ws r = c' # cs" for q qs raw r1 c r2 v o1 r c' cs
      using skip_ws_Cons_length [OF that(1)] scan_str_length [OF that(2)] skip_ws_Cons_length [OF that(3)]
        pval_lengths(1) [OF that(4)] skip_ws_Cons_length [OF that(5)] a by (intro M) auto
    show ?thesis
    proof (cases "skip_ws s")
      case s: (Cons q qs)
      show ?thesis
      proof (cases "scan_str [] qs")
        case k: (Some p)
        obtain raw r1 where p: "p = (raw, r1)" by (cases p)
        show ?thesis
        proof (cases "skip_ws r1")
          case c: (Cons c r2)
          note v = v [OF s k [unfolded p] c]
          show ?thesis
            using s k p c v m [OF s k [unfolded p] c] by (auto split: list.split option.split)
        qed (simp add: s k p)
      qed (simp add: s)
    qed simp
  qed
  have "pval (Suc n) d s = pval m d s" if "2 * length s < Suc n" "2 * length s < m" for m d s
    using 1 that by (cases m) blast+
  moreover have "pelems (Suc n) d s = pelems m d s"
    if "2 * length s + 1 < Suc n" "2 * length s + 1 < m" for m d s
    using 2 that by (cases m) blast+
  moreover have "pmembers (Suc n) d s = pmembers m d s"
    if "2 * length s + 1 < Suc n" "2 * length s + 1 < m" for m d s
    using 3 that by (cases m) blast+
  ultimately show ?case
    by blast
qed

text \<open>Any fuel above twice the length gives the same parse: the fuel of \<open>json_parse\<close> is enough.\<close>

lemma pval_fuel:
  "2 * length s < n \<Longrightarrow> pval n d s = pval (Suc (2 * length s)) d s"
  using conjunct1 [OF pval_fuel_aux, rule_format] by blast

end
