(* ===== verification/Metadata.thy ===== *)
theory Metadata
  imports Json "HOL-Library.Multiset"
begin

text \<open>
  \<^verbatim>\<open>internal/runtime/metadata.go\<close>: the budget of durable metadata. A metadata value is a Go
  map from namespaced keys to raw JSON texts; \<open>Metadata_Validate\<close> is its validation
  loop, in one iteration order of the map. Acceptance does not depend on the order
  (\<open>metadata_accepts_iff\<close>).
\<close>

definition MaxMetadataEntries :: nat where "MaxMetadataEntries = 32"
definition MaxMetadataBytes :: nat where "MaxMetadataBytes = 16384"
definition MaxMetadataDepth :: nat where "MaxMetadataDepth = 8"
definition maxMetadataKeyLength :: nat where "maxMetadataKeyLength = 128"
definition reservedMetadataNamespace :: string where "reservedMetadataNamespace = ''lebro''"

type_synonym Metadata = "(string, RawMessage) gomap"

definition isMetadataSegment :: "string \<Rightarrow> bool" where
  "isMetadataSegment segment = list_all (\<lambda>r.
     97 \<le> r \<and> r \<le> 122 \<or> 65 \<le> r \<and> r \<le> 90 \<or> 48 \<le> r \<and> r \<le> 57 \<or> r = 95 \<or> r = 45 \<or> r = 46)
     (runes segment)"

definition validateMetadataKey :: "string \<Rightarrow> go_error option" where
  "validateMetadataKey key = (case cut_byte (CHR ''.'') key of (namespace, name, found) \<Rightarrow>
     first_err [
       chk (\<not> found \<or> namespace = [] \<or> name = [])
         (Errorf ''lebro: metadata key %q must be namespaced like \"app.customer_id\"'' [key]),
       chk (\<not> isMetadataSegment namespace)
         (Errorf ''lebro: metadata namespace %q must contain only letters, digits, underscores, and hyphens'' [namespace]),
       chk (namespace = reservedMetadataNamespace)
         (Errorf ''lebro: metadata namespace %q is reserved'' [reservedMetadataNamespace]),
       chk (\<not> isMetadataSegment name)
         (Errorf ''lebro: metadata key suffix %q must contain only letters, digits, underscores, dots, and hyphens'' [name]),
       chk (maxMetadataKeyLength < length key)
         (Errorf ''lebro: metadata key %q exceeds %d bytes'' [key, show_nat maxMetadataKeyLength])])"

fun jsonValueDepth :: "jvalue \<Rightarrow> nat" where
  "jsonValueDepth (JArr vs) = foldl max 1 (map (\<lambda>item. jsonValueDepth item + 1) vs)"
| "jsonValueDepth (JObj ms) = foldl max 1 (map (\<lambda>(k, item). jsonValueDepth item + 1) ms)"
| "jsonValueDepth _ = 1"

definition jsonDepth :: "string \<Rightarrow> nat" where
  "jsonDepth value = (case json_unmarshal_any value of None \<Rightarrow> 1 | Some v \<Rightarrow> jsonValueDepth v)"

fun metadata_loop :: "nat \<Rightarrow> (string \<times> RawMessage) list \<Rightarrow> go_error option" where
  "metadata_loop tot [] = None"
| "metadata_loop tot ((key, value) # rest) = first_err [
     validateMetadataKey key,
     chk (raw_bytes value = []) (Errorf ''lebro: metadata key %q has an empty value'' [key]),
     chk (\<not> json_valid (raw_bytes value)) (Errorf ''lebro: metadata key %q value must be valid JSON'' [key]),
     chk (MaxMetadataDepth < jsonDepth (raw_bytes value))
       (Errorf ''lebro: metadata key %q value depth %d exceeds limit %d''
         [key, show_nat (jsonDepth (raw_bytes value)), show_nat MaxMetadataDepth]),
     chk (MaxMetadataBytes < tot + (length key + length (raw_bytes value)))
       (Errorf ''lebro: metadata exceeds %d bytes'' [show_nat MaxMetadataBytes]),
     metadata_loop (tot + (length key + length (raw_bytes value))) rest]"

definition Metadata_Validate :: "Metadata \<Rightarrow> go_error option" where
  "Metadata_Validate m =
     (if length m = 0 then None
      else if MaxMetadataEntries < length m
      then Some (Errorf ''lebro: metadata has %d entries, limit is %d''
             [show_nat (length m), show_nat MaxMetadataEntries])
      else metadata_loop 0 m)"

definition Metadata_Clone :: "Metadata \<Rightarrow> Metadata" where
  "Metadata_Clone m = map (\<lambda>(k, v). (k, cloneJSON v)) m"

section \<open>What an accepted value satisfies\<close>

definition metadata_entry_ok :: "string \<times> RawMessage \<Rightarrow> bool" where
  "metadata_entry_ok kv \<longleftrightarrow> validateMetadataKey (fst kv) = None \<and> raw_bytes (snd kv) \<noteq> []
     \<and> json_valid (raw_bytes (snd kv)) \<and> jsonDepth (raw_bytes (snd kv)) \<le> MaxMetadataDepth"

definition metadata_size :: "(string \<times> RawMessage) list \<Rightarrow> nat" where
  "metadata_size m = sum_list (map (\<lambda>(k, v). length k + length (raw_bytes v)) m)"

lemma metadata_loop_iff:
  "tot \<le> MaxMetadataBytes \<Longrightarrow> metadata_loop tot m = None \<longleftrightarrow>
     list_all metadata_entry_ok m \<and> tot + metadata_size m \<le> MaxMetadataBytes"
  by (induction tot m rule: metadata_loop.induct)
     (auto simp: metadata_entry_ok_def metadata_size_def not_less simp flip: add.assoc)

lemma metadata_accepts_iff:
  "Metadata_Validate m = None \<longleftrightarrow> length m \<le> MaxMetadataEntries
     \<and> list_all metadata_entry_ok m \<and> metadata_size m \<le> MaxMetadataBytes"
  by (auto simp: Metadata_Validate_def metadata_loop_iff not_less metadata_size_def)

lemma validateMetadataKey_iff:
  "validateMetadataKey key = None \<longleftrightarrow> (\<exists>namespace name. key = namespace @ CHR ''.'' # name
     \<and> CHR ''.'' \<notin> set namespace \<and> namespace \<noteq> [] \<and> name \<noteq> []
     \<and> isMetadataSegment namespace \<and> isMetadataSegment name
     \<and> namespace \<noteq> reservedMetadataNamespace \<and> length key \<le> maxMetadataKeyLength)"
proof
  assume ok: "validateMetadataKey key = None"
  obtain namespace name found where c: "cut_byte (CHR ''.'') key = (namespace, name, found)"
    by (cases "cut_byte (CHR ''.'') key")
  with ok have "found"
    by (auto simp: validateMetadataKey_def split: if_splits)
  with c ok cut_byte_found [of "CHR ''.''" key namespace name]
  show "\<exists>namespace name. key = namespace @ CHR ''.'' # name
     \<and> CHR ''.'' \<notin> set namespace \<and> namespace \<noteq> [] \<and> name \<noteq> []
     \<and> isMetadataSegment namespace \<and> isMetadataSegment name
     \<and> namespace \<noteq> reservedMetadataNamespace \<and> length key \<le> maxMetadataKeyLength"
    by (intro exI [of _ namespace] exI [of _ name])
       (auto simp: validateMetadataKey_def split: if_splits)
qed (auto simp: validateMetadataKey_def cut_byte_append)

section \<open>Properties\<close>



text \<open>The depth limit is not enforced on a valid JSON value that holds a number out of the
  range of a float: decoding it fails and its depth is taken to be one. The same value with another number
  is refused.\<close>

definition nested :: "nat \<Rightarrow> string \<Rightarrow> string" where
  "nested n number = replicate n (CHR ''['') @ number @ replicate n (CHR '']'')"

theorem metadata_depth_bypass:
  "Metadata_Validate [(''app.x'', Some (nested 8 ''1e400''))] = None
   \<and> Metadata_Validate [(''app.x'', Some (nested 8 ''1''))] \<noteq> None"
proof -
  have "metadata_entry_ok (''app.x'', Some (nested 8 ''1e400''))" by code_simp
  moreover have "\<not> metadata_entry_ok (''app.x'', Some (nested 8 ''1''))" by code_simp
  ultimately show ?thesis
    by (simp add: metadata_accepts_iff metadata_size_def MaxMetadataEntries_def MaxMetadataBytes_def raw_bytes_def nested_def)
qed

end
