(* ===== verification/Decimal.thy ===== *)
theory Decimal
  imports Json Complex_Main
begin

text \<open>
  The exact decimals of \<^verbatim>\<open>internal/runtime/cost.go\<close>: \<^verbatim>\<open>ParseDecimal\<close>, the canonical-form
  check and the \<^verbatim>\<open>big.Int\<close> arithmetic on them. A \<^verbatim>\<open>*big.Int\<close> is an \<^typ>\<open>int\<close>;
  the amounts themselves are never negative. \<open>dval\<close> gives a decimal text its rational value,
  against which parsing, addition and scaling are shown exact.
\<close>

type_synonym Decimal = string

section \<open>The code\<close>

text \<open>\<^verbatim>\<open>decimalPattern\<close>, with its groups: integer digits, fraction digits, exponent.\<close>

definition decimalPattern :: "string \<Rightarrow> (string \<times> string \<times> bool \<times> string) option" where
  "decimalPattern s = (case scan_int s of None \<Rightarrow> None
     | Some (ip, r1) \<Rightarrow> (case scan_frac r1 of None \<Rightarrow> None
       | Some (fp, r2) \<Rightarrow> (case scan_exp r2 of None \<Rightarrow> None
         | Some ((neg, ed), r3) \<Rightarrow> if r3 = [] then Some (ip, fp, neg, ed) else None)))"

definition zeros :: "nat \<Rightarrow> string" where
  "zeros n = replicate n (CHR ''0'')"

definition trim_left_zeros :: "string \<Rightarrow> string" where
  "trim_left_zeros = dropWhile (\<lambda>c. c = CHR ''0'')"

definition trim_right_zeros :: "string \<Rightarrow> string" where
  "trim_right_zeros s = rev (trim_left_zeros (rev s))"

definition trim_suffix_dot :: "string \<Rightarrow> string" where
  "trim_suffix_dot s = (if s \<noteq> [] \<and> last s = CHR ''.'' then butlast s else s)"

text \<open>
  The second half of \<^verbatim>\<open>ParseDecimal\<close>: digits and a (possibly negative) scale to text;
  \<open>place_point\<close> is its part for a nonzero number.
\<close>

definition place_point :: "string \<Rightarrow> nat \<Rightarrow> Decimal" where
  "place_point digits scale =
     (let digits2 = (if length digits \<le> scale
            then zeros (scale - length digits + 1) @ digits else digits);
          pt = length digits2 - scale;
          digits3 = (if 0 < scale
            then trim_suffix_dot (trim_right_zeros (take pt digits2 @ CHR ''.'' # drop pt digits2))
            else digits2);
          digits4 = trim_left_zeros digits3 in
      if digits4 = [] \<or> hd digits4 = CHR ''.'' then CHR ''0'' # digits4 else digits4)"

definition decimal_text :: "string \<Rightarrow> int \<Rightarrow> Decimal" where
  "decimal_text digits0 scale0 =
     (let digits1 = (if scale0 < 0 then digits0 @ zeros (nat (- scale0)) else digits0);
          scale = (if scale0 < 0 then 0 else nat scale0);
          digits = trim_left_zeros digits1 in
      if digits = [] then ''0'' else place_point digits scale)"

definition ParseDecimal :: "string \<Rightarrow> Decimal result" where
  "ParseDecimal value0 = (let value = trim_space value0 in
     case decimalPattern value of
       None \<Rightarrow> Inl (Errorf ''lebro: invalid decimal %q'' [value])
     | Some (ip, fp, neg, ed) \<Rightarrow>
         (let exponent = (if neg then - int (dec_val 0 ed) else int (dec_val 0 ed)) in
          if \<not> in_int64 exponent then Inl (Errorf ''lebro: invalid decimal exponent %q'' [value])
          else if exponent < -32 \<or> 32 < exponent
          then Inl (Errorf ''lebro: decimal exponent %q exceeds supported range'' [value])
          else Inr (decimal_text (ip @ fp) (int (length fp) - exponent))))"

definition Decimal_validate :: "Decimal \<Rightarrow> go_error option" where
  "Decimal_validate d = (if d = [] then None
     else chk (ParseDecimal d \<noteq> Inr d) (Errorf ''lebro: decimal %q is not canonical'' [d]))"

text \<open>
  \<^verbatim>\<open>big.Int.SetString(text, 10)\<close> leaves the value undefined on a bad text; every caller passes
  the digits of a canonical decimal. The empty text reads as 0.
\<close>

definition decimalParts :: "Decimal \<Rightarrow> int \<times> nat" where
  "decimalParts d = (case cut_byte (CHR ''.'') d of (ip, fp, found) \<Rightarrow>
     if found then (int (dec_val 0 (ip @ fp)), length fp) else (int (dec_val 0 d), 0))"

definition decimalFromParts :: "int \<Rightarrow> nat \<Rightarrow> Decimal" where
  "decimalFromParts n scale =
     (let digits = itoa n;
          digits1 = (if 0 < scale
            then let d = (if length digits \<le> scale then zeros (scale - length digits + 1) @ digits else digits);
                     pt = length d - scale in take pt d @ CHR ''.'' # drop pt d
            else digits) in
      case ParseDecimal digits1 of Inr value \<Rightarrow> value | Inl e \<Rightarrow> [])"

definition decimalMulPerMillion :: "Decimal \<Rightarrow> int \<Rightarrow> Decimal" where
  "decimalMulPerMillion rate tokens =
     (case decimalParts rate of (n, scale) \<Rightarrow> decimalFromParts (n * tokens) (scale + 6))"

definition decimalAdd :: "Decimal \<Rightarrow> Decimal \<Rightarrow> Decimal" where
  "decimalAdd a b = (case (decimalParts a, decimalParts b) of ((an, as), (bn, bs)) \<Rightarrow>
     if as < bs then decimalFromParts (an * 10 ^ (bs - as) + bn) bs
     else if bs < as then decimalFromParts (an + bn * 10 ^ (as - bs)) as
     else decimalFromParts (an + bn) as)"

section \<open>Values\<close>

definition dval :: "Decimal \<Rightarrow> rat" where
  "dval d = (case decimalParts d of (n, s) \<Rightarrow> of_int n / 10 ^ s)"

text \<open>The number a decimal literal denotes, before any rewriting.\<close>

definition literal_value :: "string \<times> string \<times> bool \<times> string \<Rightarrow> rat" where
  "literal_value l = (case l of (ip, fp, neg, ed) \<Rightarrow>
     (if neg then of_nat (dec_val 0 (ip @ fp)) / 10 ^ length fp / 10 ^ dec_val 0 ed
      else of_nat (dec_val 0 (ip @ fp)) / 10 ^ length fp * 10 ^ dec_val 0 ed))"

text \<open>The canonical text of \<open>N / 10\<^sup>s\<close>.\<close>

definition pad_digits :: "nat \<Rightarrow> nat \<Rightarrow> string" where
  "pad_digits s n = zeros (s - length (show_nat n)) @ show_nat n"

definition canon_text :: "nat \<Rightarrow> nat \<Rightarrow> string" where
  "canon_text n s = (let f = (if s = 0 then [] else trim_right_zeros (pad_digits s (n mod 10 ^ s))) in
     show_nat (n div 10 ^ s) @ (if f = [] then [] else CHR ''.'' # f))"

section \<open>Digit strings\<close>

lemma digits_zeros [simp]: "list_all is_digit (zeros n)"
  by (simp add: zeros_def list_all_iff is_digit_def)

lemma length_zeros [simp]: "length (zeros n) = n"
  by (simp add: zeros_def)

lemma digit_val_0 [simp]: "digit_val (CHR ''0'') = 0"
  by (simp add: digit_val_def)

lemma digit_val_less: "is_digit c \<Longrightarrow> digit_val c < 10"
  by (auto simp: is_digit_def digit_val_def)

lemma digit_char_val [simp]: "is_digit c \<Longrightarrow> digit_char (digit_val c) = c"
  by (simp add: is_digit_def digit_val_def digit_char_def)

lemma dec_val_snoc [simp]: "dec_val a (xs @ [x]) = dec_val a xs * 10 + digit_val x"
  by (simp add: dec_val_def)

lemma dec_val_Nil [simp]: "dec_val a [] = a"
  by (simp add: dec_val_def)

lemma dec_val_zeros [simp]: "dec_val a (zeros n) = a * 10 ^ n"
proof (induction n)
  case (Suc n)
  have "zeros (Suc n) = zeros n @ [CHR ''0'']"
    by (simp add: zeros_def replicate_append_same)
  with Suc show ?case by simp
qed (simp add: zeros_def)

lemma dec_val_less: "list_all is_digit ds \<Longrightarrow> dec_val 0 ds < 10 ^ length ds"
proof (induction ds rule: rev_induct)
  case (snoc x xs)
  then have "dec_val 0 xs + 1 \<le> 10 ^ length xs" "digit_val x < 10"
    by (auto intro: digit_val_less)
  then have "(dec_val 0 xs + 1) * 10 \<le> 10 ^ length xs * 10" "digit_val x < 10"
    by (blast intro: mult_le_mono1)+
  then show ?case by simp
qed simp

lemma dec_val_append0: "dec_val 0 (xs @ ys) = dec_val 0 xs * 10 ^ length ys + dec_val 0 ys"
  by (metis dec_val_acc dec_val_append)

lemma digits_inj:
  "list_all is_digit xs \<Longrightarrow> list_all is_digit ys \<Longrightarrow> length xs = length ys
    \<Longrightarrow> dec_val 0 xs = dec_val 0 ys \<Longrightarrow> xs = ys"
proof (induction xs arbitrary: ys rule: rev_induct)
  case (snoc x xs)
  obtain y zs where ys: "ys = zs @ [y]"
    using snoc.prems(3) by (cases ys rule: rev_cases) auto
  have eq: "dec_val 0 xs * 10 + digit_val x = dec_val 0 zs * 10 + digit_val y"
    using snoc.prems(4) ys by simp
  have d: "digit_val x < 10" "digit_val y < 10" and dig: "is_digit x" "is_digit y"
    using snoc.prems ys by (auto intro: digit_val_less)
  have "digit_val x = digit_val y" "dec_val 0 xs = dec_val 0 zs"
    using eq d by presburger+
  moreover have "xs = zs"
    using snoc.IH [of zs] snoc.prems ys calculation by simp
  ultimately show ?case
    using ys dig by (metis digit_char_val)
qed simp

lemma show_nat_0 [simp]: "show_nat 0 = ''0''"
  using digit_char_val [of "CHR ''0''"] by (simp add: show_nat.simps is_digit_def)

lemma show_nat_dec_val:
  assumes "list_all is_digit ds" "ds \<noteq> []" "hd ds \<noteq> CHR ''0'' \<or> ds = ''0''"
  shows "show_nat (dec_val 0 ds) = ds"
  using assms
proof (induction ds rule: rev_induct)
  case (snoc x xs)
  have x: "is_digit x" "digit_val x < 10"
    using snoc.prems by (auto intro: digit_val_less)
  show ?case
  proof (cases "xs = []")
    case True
    with x show ?thesis by (subst show_nat.simps) simp
  next
    case False
    with snoc.prems have h: "hd xs \<noteq> CHR ''0''" by simp
    have IH: "show_nat (dec_val 0 xs) = xs"
      using snoc.IH snoc.prems False h by simp
    have "dec_val 0 xs \<noteq> 0"
    proof
      assume "dec_val 0 xs = 0"
      then have "xs = show_nat 0" using IH by simp
      then show False using h by simp
    qed
    with x IH show ?thesis by (subst show_nat.simps) simp
  qed
qed simp


lemma length_show_nat: "m < 10 ^ s \<Longrightarrow> 0 < s \<Longrightarrow> length (show_nat m) \<le> s"
proof (induction m arbitrary: s rule: show_nat.induct)
  case (1 m)
  show ?case
  proof (cases "m < 10")
    case True
    with 1 show ?thesis by (subst show_nat.simps) simp
  next
    case False
    then obtain t where s: "s = Suc t"
      using 1 by (cases s) auto
    have "m div 10 < 10 ^ t" "0 < t"
      using 1 False s by (auto intro!: gr0I)
    with 1(1) [OF False] have "length (show_nat (m div 10)) \<le> t"
      by blast
    with False s show ?thesis by (subst show_nat.simps) simp
  qed
qed

lemma show_nat_hd_zero: "n \<noteq> 0 \<Longrightarrow> hd (show_nat n) \<noteq> CHR ''0''"
proof (induction n rule: show_nat.induct)
  case (1 n)
  show ?case
  proof (cases "n < 10")
    case True
    have "of_char (digit_char n) = 48 + n" using True by simp
    then have "digit_char n \<noteq> CHR ''0''" using 1 by (auto dest: arg_cong [of _ _ "of_char :: char \<Rightarrow> nat"])
    with True show ?thesis by (subst show_nat.simps) simp
  next
    case False
    with 1 show ?thesis by (subst show_nat.simps) auto
  qed
qed

lemma pad_digits:
  assumes "m < 10 ^ s" "0 < s"
  shows "length (pad_digits s m) = s" "list_all is_digit (pad_digits s m)" "dec_val 0 (pad_digits s m) = m"
  using length_show_nat [OF assms] show_nat_digits [of m]
  by (simp_all add: pad_digits_def dec_val_append)

lemma pad_digits_eq:
  "list_all is_digit ds \<Longrightarrow> ds \<noteq> [] \<Longrightarrow> pad_digits (length ds) (dec_val 0 ds) = ds"
  using dec_val_less [of ds] pad_digits [of "dec_val 0 ds" "length ds"] by (intro digits_inj) simp_all

lemma trim_left_zeros_split: "\<exists>k. ds = zeros k @ trim_left_zeros ds"
proof -
  have "takeWhile (\<lambda>c. c = CHR ''0'') ds = zeros (length (takeWhile (\<lambda>c. c = CHR ''0'') ds))"
    unfolding zeros_def by (induction ds) auto
  then show ?thesis
    by (metis takeWhile_dropWhile_id trim_left_zeros_def)
qed

lemma trim_left_zeros_hd: "trim_left_zeros ds \<noteq> [] \<Longrightarrow> hd (trim_left_zeros ds) \<noteq> CHR ''0''"
  unfolding trim_left_zeros_def using hd_dropWhile [of "\<lambda>c. c = CHR ''0''" ds] by blast

lemma dec_val_trim_left [simp]: "dec_val 0 (trim_left_zeros ds) = dec_val 0 ds"
proof -
  obtain k where k: "ds = zeros k @ trim_left_zeros ds" using trim_left_zeros_split by blast
  have "dec_val 0 (zeros k @ trim_left_zeros ds) = dec_val 0 (trim_left_zeros ds)"
    by (simp add: dec_val_append)
  then show ?thesis by (simp only: k [symmetric])
qed

lemma trim_left_zeros_id: "ds = [] \<or> hd ds \<noteq> CHR ''0'' \<Longrightarrow> trim_left_zeros ds = ds"
  by (cases ds) (auto simp: trim_left_zeros_def)

lemma rev_zeros [simp]: "rev (zeros n) = zeros n"
  by (simp add: zeros_def)

lemma trim_right_zeros_split: "\<exists>k. ds = trim_right_zeros ds @ zeros k"
proof -
  obtain k where "rev ds = zeros k @ trim_left_zeros (rev ds)" using trim_left_zeros_split by blast
  then have "rev (rev ds) = rev (trim_left_zeros (rev ds)) @ zeros k"
    by (metis rev_append rev_zeros)
  then have "ds = trim_right_zeros ds @ zeros k" by (simp only: trim_right_zeros_def rev_rev_ident)
  then show ?thesis by (rule exI)
qed

lemma trim_right_zeros_last: "trim_right_zeros ds \<noteq> [] \<Longrightarrow> last (trim_right_zeros ds) \<noteq> CHR ''0''"
  using trim_left_zeros_hd [of "rev ds"] by (simp add: trim_right_zeros_def last_rev)

lemma trim_right_zeros_id: "ds = [] \<or> last ds \<noteq> CHR ''0'' \<Longrightarrow> trim_right_zeros ds = ds"
  using trim_left_zeros_id [of "rev ds"] by (auto simp: trim_right_zeros_def hd_rev)

lemma trim_left_zeros_zeros [simp]: "trim_left_zeros (zeros k @ ds) = trim_left_zeros ds"
  by (induction k) (simp_all add: trim_left_zeros_def zeros_def)

lemma trim_right_zeros_zeros [simp]: "trim_right_zeros (ds @ zeros k) = trim_right_zeros ds"
  by (simp add: trim_right_zeros_def)

lemma trim_right_zeros_dot:
  "trim_right_zeros (a @ CHR ''.'' # b) = a @ CHR ''.'' # trim_right_zeros b"
proof -
  obtain k where k: "b = trim_right_zeros b @ zeros k" using trim_right_zeros_split by blast
  have "trim_right_zeros (a @ CHR ''.'' # b) = trim_right_zeros ((a @ CHR ''.'' # trim_right_zeros b) @ zeros k)"
    by (simp only: k [symmetric] append_assoc append_Cons)
  also have "\<dots> = a @ CHR ''.'' # trim_right_zeros b"
    unfolding trim_right_zeros_zeros
    by (intro trim_right_zeros_id) (use trim_right_zeros_last [of b] in auto)
  finally show ?thesis .
qed

lemma trim_suffix_dot_frac:
  "list_all is_digit f \<Longrightarrow> trim_suffix_dot (a @ CHR ''.'' # f) = a @ (if f = [] then [] else CHR ''.'' # f)"
  by (cases f rule: rev_cases) (auto simp: trim_suffix_dot_def is_digit_def butlast_append)

lemma digits_trim_right: "list_all is_digit ds \<Longrightarrow> list_all is_digit (trim_right_zeros ds)"
proof -
  assume d: "list_all is_digit ds"
  obtain k where k: "ds = trim_right_zeros ds @ zeros k" using trim_right_zeros_split by blast
  have "list_all is_digit (trim_right_zeros ds @ zeros k)" using d by (simp only: k [symmetric])
  then show ?thesis by simp
qed

lemma digits_trim_left: "list_all is_digit ds \<Longrightarrow> list_all is_digit (trim_left_zeros ds)"
proof -
  assume d: "list_all is_digit ds"
  obtain k where k: "ds = zeros k @ trim_left_zeros ds" using trim_left_zeros_split by blast
  have "list_all is_digit (zeros k @ trim_left_zeros ds)" using d by (simp only: k [symmetric])
  then show ?thesis by simp
qed

section \<open>Canonical texts\<close>

lemma canon_text_0 [simp]: "canon_text 0 s = ''0''"
proof -
  have "pad_digits s 0 = zeros s" if "0 < s"
    using that by (cases s) (simp_all add: pad_digits_def zeros_def replicate_append_same)
  moreover have "trim_right_zeros (zeros s) = []" for s
    using trim_right_zeros_zeros [of "[]" s] by (simp add: trim_right_zeros_def trim_left_zeros_def)
  ultimately show ?thesis by (simp add: canon_text_def)
qed

lemma dot_not_digit [simp]: "\<not> is_digit (CHR ''.'')"
  and zero_digit [simp]: "is_digit (CHR ''0'')"
  by (simp_all add: is_digit_def)

text \<open>A digit string cut \<open>s\<close> places from its end.\<close>

lemma digits_cut:
  assumes d: "list_all is_digit E" and l: "s \<le> length E"
  defines "A \<equiv> take (length E - s) E" and "B \<equiv> drop (length E - s) E"
  shows "dec_val 0 A = dec_val 0 E div 10 ^ s" "dec_val 0 B = dec_val 0 E mod 10 ^ s"
    "length B = s" "list_all is_digit A" "list_all is_digit B"
proof -
  show B: "length B = s" using l by (simp add: B_def)
  show A: "list_all is_digit A" "list_all is_digit B"
    using d by (auto simp: A_def B_def list_all_iff dest: in_set_takeD in_set_dropD)
  have "dec_val 0 E = dec_val 0 A * 10 ^ s + dec_val 0 B"
    using dec_val_append0 [of A B] B by (simp add: A_def B_def)
  moreover have "dec_val 0 B < 10 ^ s"
    using dec_val_less [OF A(2)] B by simp
  ultimately show "dec_val 0 A = dec_val 0 E div 10 ^ s" "dec_val 0 B = dec_val 0 E mod 10 ^ s"
    by simp_all
qed

lemma decimal_text_nonneg:
  assumes d: "list_all is_digit ds"
  shows "decimal_text ds (int s) = canon_text (dec_val 0 ds) s"
proof -
  define D where "D = trim_left_zeros ds"
  have dD: "list_all is_digit D" and vD: "dec_val 0 D = dec_val 0 ds"
    using digits_trim_left [OF d] by (simp_all add: D_def)
  show ?thesis
  proof (cases "D = []")
    case True
    then have "dec_val 0 ds = 0" using vD by simp
    then show ?thesis using True by (simp add: decimal_text_def D_def)
  next
    case False
    have hD: "hd D \<noteq> CHR ''0''" using trim_left_zeros_hd False by (simp add: D_def)
    then have sD: "show_nat (dec_val 0 ds) = D"
      using show_nat_dec_val [OF dD False] vD by simp
    have hdot: "hd D \<noteq> CHR ''.''" using dD False by (cases D) auto
    show ?thesis
    proof (cases "s = 0")
      case True
      then show ?thesis
        using False hD hdot sD
        by (simp add: decimal_text_def place_point_def canon_text_def D_def [symmetric] trim_left_zeros_id Let_def)
    next
      case s: False
      define E where "E = (if length D \<le> s then zeros (s - length D + 1) @ D else D)"
      have dE: "list_all is_digit E" and lE: "s < length E" and vE: "dec_val 0 E = dec_val 0 ds"
        using dD vD by (simp_all add: E_def dec_val_append)
      define A where "A = take (length E - s) E"
      define B where "B = drop (length E - s) E"
      note cut = digits_cut [OF dE less_imp_le [OF lE], folded A_def B_def]
      have B: "B = pad_digits s (dec_val 0 ds mod 10 ^ s)"
        using cut vE s pad_digits [of "dec_val 0 ds mod 10 ^ s" s] by (intro digits_inj) simp_all
      define f where "f = trim_right_zeros B"
      have df: "list_all is_digit f" using digits_trim_right cut(5) by (simp add: f_def)
      have t: "decimal_text ds (int s) = (let r = trim_left_zeros (A @ (if f = [] then [] else CHR ''.'' # f)) in
          if r = [] \<or> hd r = CHR ''.'' then CHR ''0'' # r else r)"
      proof -
        have "decimal_text ds (int s) = place_point D s"
          using False by (simp add: decimal_text_def D_def [symmetric])
        also have "\<dots> = (let r = trim_left_zeros (if 0 < s then trim_suffix_dot (trim_right_zeros (A @ CHR ''.'' # B)) else E)
            in if r = [] \<or> hd r = CHR ''.'' then CHR ''0'' # r else r)"
          unfolding place_point_def Let_def A_def B_def E_def by (rule refl)
        finally show ?thesis
          using s df by (simp add: trim_right_zeros_dot f_def [symmetric] trim_suffix_dot_frac)
      qed
      have c: "canon_text (dec_val 0 ds) s = show_nat (dec_val 0 A) @ (if f = [] then [] else CHR ''.'' # f)"
        using s cut(1) vE by (simp add: canon_text_def Let_def B [symmetric] f_def [symmetric])
      show ?thesis
      proof (cases "length D \<le> s")
        case True
        have "A = ''0''" using True by (simp add: A_def E_def zeros_def)
        then show ?thesis unfolding t c by (auto simp: trim_left_zeros_def)
      next
        case nl: False
        have ne: "A \<noteq> []" and h: "hd A = hd D" using nl lE by (auto simp: A_def E_def hd_take)
        have "show_nat (dec_val 0 A) = A"
          using show_nat_dec_val [OF cut(4) ne] h hD by simp
        then show ?thesis
          unfolding t c using ne h hD hdot by (simp add: trim_left_zeros_id Let_def)
      qed
    qed
  qed
qed

lemma decimal_text_neg:
  assumes "list_all is_digit ds"
  shows "decimal_text ds (- int k) = canon_text (dec_val 0 ds * 10 ^ k) 0"
proof -
  have "decimal_text ds (- int k) = decimal_text (ds @ zeros k) (int 0)"
    by (cases "k = 0") (simp_all add: decimal_text_def zeros_def)
  then show ?thesis
    using decimal_text_nonneg [of "ds @ zeros k" 0] assms by (simp add: dec_val_append)
qed

lemma canon_text_scale: "canon_text (n * 10 ^ k) (s + k) = canon_text n s"
proof (cases "s + k = 0")
  case False
  have m: "n * 10 ^ k mod 10 ^ (s + k) = (n mod 10 ^ s) * 10 ^ k"
    by (simp add: power_add mult.commute [of n] mult.commute [of "n mod _"] mod_mult_mult1 mult.commute [of "10 ^ s"])
  have d: "n * 10 ^ k div 10 ^ (s + k) = n div 10 ^ s"
    by (simp add: power_add)
  have "trim_right_zeros (pad_digits (s + k) ((n mod 10 ^ s) * 10 ^ k))
      = (if s = 0 then [] else trim_right_zeros (pad_digits s (n mod 10 ^ s)))"
  proof (cases "s = 0")
    case True
    then show ?thesis
      using False canon_text_0 [of k] by (simp add: canon_text_def Let_def split: if_splits)
  next
    case s: False
    have lt: "n mod 10 ^ s < 10 ^ s" by simp
    note p = pad_digits [OF lt] s
    have lt2: "(n mod 10 ^ s) * 10 ^ k < 10 ^ (s + k)" by (simp add: power_add)
    have "pad_digits (s + k) ((n mod 10 ^ s) * 10 ^ k) = pad_digits s (n mod 10 ^ s) @ zeros k"
      using p pad_digits [OF lt2] False by (intro digits_inj) (simp_all add: dec_val_append)
    then show ?thesis using s by simp
  qed
  then show ?thesis
    using False by (cases "s = 0") (simp_all add: canon_text_def m d Let_def)
qed simp

lemma canon_text_eqI:
  assumes "n * 10 ^ t = m * 10 ^ s"
  shows "canon_text n s = canon_text m t"
  using canon_text_scale [of n t s] canon_text_scale [of m s t] assms by (simp add: add.commute)


section \<open>Parsing is exact and canonical\<close>

lemma scan_digits_append:
  "list_all is_digit a \<Longrightarrow> r = [] \<or> \<not> is_digit (hd r) \<Longrightarrow> scan_digits (a @ r) = (a, r)"
  unfolding scan_digits_def
  by (cases r) (auto simp: takeWhile_append dropWhile_append list_all_iff takeWhile_eq_all_conv)

definition int_digits :: "string \<Rightarrow> bool" where
  "int_digits a \<longleftrightarrow> a \<noteq> [] \<and> list_all is_digit a \<and> (hd a \<noteq> CHR ''0'' \<or> a = ''0'')"

lemma int_digits_show_nat [simp]: "int_digits (show_nat n)"
  using show_nat_digits [of n] show_nat_hd_zero [of n] by (cases "n = 0") (auto simp: int_digits_def is_digit_def)

lemma scan_int_append:
  "int_digits a \<Longrightarrow> r = [] \<or> \<not> is_digit (hd r) \<Longrightarrow> scan_int (a @ r) = Some (a, r)"
  using scan_digits_append [of a r]
  by (cases a) (auto simp: scan_int_def int_digits_def)

lemma decimalPattern_text:
  assumes "int_digits a" "list_all is_digit f"
  shows "decimalPattern (a @ (if f = [] then [] else CHR ''.'' # f)) = Some (a, f, False, [])"
proof (cases "f = []")
  case True
  with scan_int_append [OF assms(1), of "[]"] show ?thesis
    by (simp add: decimalPattern_def scan_frac_def scan_exp_def)
next
  case False
  with scan_int_append [OF assms(1), of "CHR ''.'' # f"] scan_digits_append [OF assms(2), of "[]"] show ?thesis
    by (simp add: decimalPattern_def scan_frac_def scan_exp_def)
qed

lemma scan_digits_digits: "scan_digits s = (ds, r) \<Longrightarrow> list_all is_digit ds"
  by (auto simp: scan_digits_def list_all_iff dest: set_takeWhileD)

lemma scan_int_digits: "scan_int s = Some (ip, r) \<Longrightarrow> list_all is_digit ip"
  by (auto simp: scan_int_def split: list.splits if_splits dest: scan_digits_digits)

lemma scan_frac_digits: "scan_frac s = Some (fp, r) \<Longrightarrow> list_all is_digit fp"
  by (auto simp: scan_frac_def split: list.splits if_splits prod.splits dest: scan_digits_digits)

lemma decimalPattern_digits:
  "decimalPattern s = Some (ip, fp, neg, ed) \<Longrightarrow> list_all is_digit (ip @ fp)"
  using scan_int_digits scan_frac_digits by (fastforce simp: decimalPattern_def split: option.splits if_splits)

lemma match_first_digit:
  "is_digit c \<Longrightarrow> list_all (\<lambda>p. p \<noteq> [] \<and> \<not> is_digit (hd p)) ps \<Longrightarrow> match_first ps (c # cs) = None"
proof -
  assume c: "is_digit c" and ps: "list_all (\<lambda>p. p \<noteq> [] \<and> \<not> is_digit (hd p)) ps"
  have "strip_prefix p (c # cs) = None" if "p \<in> set ps" for p
    using c ps that by (cases p) (auto simp: list_all_iff)
  then have "List.extract (\<lambda>p. strip_prefix p (c # cs) \<noteq> None) ps = None"
    by (auto simp: extract_None_iff)
  then show ?thesis by (simp add: match_first_def)
qed

lemma space_seqs_digit:
  "list_all (\<lambda>p. p \<noteq> [] \<and> \<not> is_digit (hd p)) space_seqs"
  "list_all (\<lambda>p. p \<noteq> [] \<and> \<not> is_digit (hd p)) (map rev space_seqs)"
  by code_simp+

lemma trim_space_digits:
  assumes "s \<noteq> []" "is_digit (hd s)" "is_digit (last s)"
  shows "trim_space s = s"
proof -
  have 1: "trim_left_with space_seqs s = s"
    using assms match_first_digit [OF _ space_seqs_digit(1)]
    by (cases s) (auto simp: trim_left_with.simps)
  have 2: "trim_left_with (map rev space_seqs) (rev s) = rev s"
    using assms match_first_digit [OF _ space_seqs_digit(2)]
    by (cases s rule: rev_cases) (auto simp: trim_left_with.simps)
  show ?thesis by (simp add: trim_space_def 1 2)
qed

lemma trim_space_text:
  assumes "int_digits a" "list_all is_digit f"
  shows "trim_space (a @ (if f = [] then [] else CHR ''.'' # f)) = a @ (if f = [] then [] else CHR ''.'' # f)"
  using assms by (intro trim_space_digits) (auto simp: int_digits_def list_all_iff hd_append)

lemma ParseDecimal_text:
  assumes "int_digits a" "list_all is_digit f"
  shows "ParseDecimal (a @ (if f = [] then [] else CHR ''.'' # f))
    = Inr (canon_text (dec_val 0 (a @ f)) (length f))"
  using assms decimal_text_nonneg [of "a @ f" "length f"]
  by (simp add: ParseDecimal_def trim_space_text decimalPattern_text int_digits_def in_int64_def max_int64_def min_int64_def)

lemma canon_text_form:
  obtains f where "canon_text n s = show_nat (n div 10 ^ s) @ (if f = [] then [] else CHR ''.'' # f)"
    "list_all is_digit f" "canon_text (dec_val 0 (show_nat (n div 10 ^ s) @ f)) (length f) = canon_text n s"
    "(dec_val 0 (show_nat (n div 10 ^ s) @ f)) * 10 ^ s = n * 10 ^ length f"
proof (cases "s = 0")
  case True
  with that [of "[]"] show ?thesis by (simp add: canon_text_def)
next
  case False
  have lt: "n mod 10 ^ s < 10 ^ s" by simp
  define B where "B = pad_digits s (n mod 10 ^ s)"
  note p = pad_digits [OF lt, folded B_def] False
  define f where "f = trim_right_zeros B"
  obtain k where k: "B = f @ zeros k" using trim_right_zeros_split f_def by blast
  have s: "s = length f + k" using p(1) False k by simp
  have "dec_val 0 f * 10 ^ k = n mod 10 ^ s"
    using p(3) False unfolding k by (simp add: dec_val_append)
  moreover define q where "q = n div 10 ^ s"
  ultimately have nq: "n = (q * 10 ^ length f + dec_val 0 f) * 10 ^ k"
    using div_mult_mod_eq [of n "10 ^ s"] by (simp add: s power_add algebra_simps)
  have "n * 10 ^ length f = (q * 10 ^ length f + dec_val 0 f) * 10 ^ s"
    by (subst nq) (simp add: s power_add)
  then have n: "n * 10 ^ length f = dec_val 0 (show_nat (n div 10 ^ s) @ f) * 10 ^ s"
    by (simp add: dec_val_append0 q_def)
  show ?thesis
  proof (rule that [of f])
    show "canon_text n s = show_nat (n div 10 ^ s) @ (if f = [] then [] else CHR ''.'' # f)"
      using False by (simp add: canon_text_def Let_def f_def B_def)
    show "list_all is_digit f"
      using digits_trim_right p False f_def by simp
    show "canon_text (dec_val 0 (show_nat (n div 10 ^ s) @ f)) (length f) = canon_text n s"
      by (rule canon_text_eqI) (rule n [symmetric])
    show "(dec_val 0 (show_nat (n div 10 ^ s) @ f)) * 10 ^ s = n * 10 ^ length f"
      by (rule n [symmetric])
  qed
qed

lemma ParseDecimal_canon [simp]: "ParseDecimal (canon_text n s) = Inr (canon_text n s)"
proof (rule canon_text_form [of n s])
  fix f
  assume f: "canon_text n s = show_nat (n div 10 ^ s) @ (if f = [] then [] else CHR ''.'' # f)"
    "list_all is_digit f" "canon_text (dec_val 0 (show_nat (n div 10 ^ s) @ f)) (length f) = canon_text n s"
  then show ?thesis
    using ParseDecimal_text [OF int_digits_show_nat f(2), of "n div 10 ^ s"] by simp
qed

lemma cut_byte_none: "d \<notin> set s \<Longrightarrow> cut_byte d s = (s, [], False)"
  by (induction s) auto

lemma decimalParts_text:
  assumes "list_all is_digit a" "list_all is_digit f"
  shows "decimalParts (a @ (if f = [] then [] else CHR ''.'' # f)) = (int (dec_val 0 (a @ f)), length f)"
proof -
  have "CHR ''.'' \<notin> set a" using assms(1) by (auto simp: list_all_iff)
  then show ?thesis by (simp add: decimalParts_def cut_byte_append cut_byte_none)
qed

lemma dval_canon [simp]: "dval (canon_text n s) = of_nat n / 10 ^ s"
proof (rule canon_text_form [of n s])
  fix f
  let ?N = "dec_val 0 (show_nat (n div 10 ^ s) @ f)"
  assume f: "canon_text n s = show_nat (n div 10 ^ s) @ (if f = [] then [] else CHR ''.'' # f)"
    "list_all is_digit f" and e: "?N * 10 ^ s = n * 10 ^ length f"
  have "(of_nat ?N :: rat) * 10 ^ s = of_nat n * 10 ^ length f"
    using arg_cong [OF e, of "of_nat :: nat \<Rightarrow> rat"] by simp
  moreover have "dval (canon_text n s) = of_nat ?N / 10 ^ length f"
    unfolding f(1) dval_def decimalParts_text [OF show_nat_digits f(2)] by simp
  ultimately show ?thesis
    by (simp add: frac_eq_eq)
qed

lemma canon_text_inj: "dval (canon_text n s) = dval (canon_text m t) \<Longrightarrow> canon_text n s = canon_text m t"
proof (rule canon_text_eqI)
  assume "dval (canon_text n s) = dval (canon_text m t)"
  then have "of_nat (n * 10 ^ t) = (of_nat (m * 10 ^ s) :: rat)"
    by (simp add: frac_eq_eq)
  then show "n * 10 ^ t = m * 10 ^ s"
    by (simp only: of_nat_eq_iff)
qed

lemma ParseDecimal_cases:
  assumes "ParseDecimal v = Inr d"
  obtains l n s where "decimalPattern (trim_space v) = Some l" "d = canon_text n s"
    "literal_value l = of_nat n / 10 ^ s"
proof -
  from assms obtain ip fp neg ed where l: "decimalPattern (trim_space v) = Some (ip, fp, neg, ed)"
    by (auto simp: ParseDecimal_def Let_def split: option.splits)
  define e where "e = (if neg then - int (dec_val 0 ed) else int (dec_val 0 ed))"
  have d: "d = decimal_text (ip @ fp) (int (length fp) - e)"
    using assms l by (auto simp: ParseDecimal_def Let_def e_def split: if_splits)
  note digits = decimalPattern_digits [OF l]
  define N where "N = dec_val 0 (ip @ fp)"
  show ?thesis
  proof (cases "e \<le> int (length fp)")
    case True
    define s where "s = nat (int (length fp) - e)"
    have "d = canon_text N s"
      using decimal_text_nonneg [OF digits, of s] True d by (simp add: s_def N_def)
    moreover have "literal_value (ip, fp, neg, ed) = of_nat N / 10 ^ s"
    proof (cases neg)
      case True
      then have "s = length fp + dec_val 0 ed" by (simp add: s_def e_def nat_add_distrib)
      with True show ?thesis by (simp add: literal_value_def N_def power_add)
    next
      case neg: False
      with True have "length fp = s + dec_val 0 ed" by (simp add: s_def e_def nat_diff_distrib)
      with neg show ?thesis by (simp add: literal_value_def N_def power_add)
    qed
    ultimately show ?thesis using that l by blast
  next
    case False
    define k where "k = nat (e - int (length fp))"
    have neg: "\<not> neg" using False by (auto simp: e_def)
    have "d = canon_text (N * 10 ^ k) 0"
      using decimal_text_neg [OF digits, of k] False d by (simp add: k_def N_def)
    moreover have "dec_val 0 ed = length fp + k"
      using False neg by (simp add: k_def e_def nat_diff_distrib)
    then have "literal_value (ip, fp, neg, ed) = of_nat (N * 10 ^ k) / 10 ^ 0"
      using neg by (simp add: literal_value_def N_def power_add)
    ultimately show ?thesis using that l by blast
  qed
qed

lemma decimalFromParts_eq:
  assumes "0 \<le> n"
  shows "decimalFromParts n s = canon_text (nat n) s"
proof -
  define D where "D = (if length (show_nat (nat n)) \<le> s
      then zeros (s - length (show_nat (nat n)) + 1) @ show_nat (nat n) else show_nat (nat n))"
  have dD: "list_all is_digit D" and vD: "dec_val 0 D = nat n" and lD: "s < length D"
    using show_nat_digits [of "nat n"] by (simp_all add: D_def dec_val_append)
  define A where "A = take (length D - s) D"
  define B where "B = drop (length D - s) D"
  note cut = digits_cut [OF dD less_imp_le [OF lD], folded A_def B_def]
  have A: "int_digits A"
  proof (cases "length (show_nat (nat n)) \<le> s")
    case True
    then show ?thesis by (simp add: A_def D_def zeros_def int_digits_def)
  next
    case False
    then have "hd A = hd (show_nat (nat n))" "A \<noteq> []" using lD by (auto simp: A_def D_def hd_take)
    moreover have "nat n = 0 \<Longrightarrow> A = ''0''" using lD False by (simp add: A_def D_def)
    ultimately show ?thesis
      using cut(4) show_nat_hd_zero [of "nat n"] by (cases "nat n = 0") (simp_all add: int_digits_def)
  qed
  have AB: "A @ B = D" by (simp add: A_def B_def)
  have "decimalFromParts n s = (case ParseDecimal (A @ (if B = [] then [] else CHR ''.'' # B)) of Inr v \<Rightarrow> v | Inl e \<Rightarrow> [])"
  proof (cases "s = 0")
    case True
    then show ?thesis using assms by (simp add: decimalFromParts_def itoa_def A_def B_def D_def)
  next
    case False
    then have "B \<noteq> []" using cut(3) by auto
    then show ?thesis
      using False assms unfolding decimalFromParts_def itoa_def Let_def A_def B_def D_def by simp
  qed
  then show ?thesis
    using ParseDecimal_text [OF A cut(5)] AB cut(3) vD by simp
qed

section \<open>The contract\<close>

definition canonical :: "Decimal \<Rightarrow> bool" where
  "canonical d \<longleftrightarrow> ParseDecimal d = Inr d"

lemma canonical_canon [simp]: "canonical (canon_text n s)"
  by (simp add: canonical_def)

lemma decimalParts_nonneg: "decimalParts d = (n, s) \<Longrightarrow> 0 \<le> n"
  by (auto simp: decimalParts_def split: prod.splits if_splits)

lemma dval_nonneg [simp]: "0 \<le> dval d"
  by (auto simp: dval_def split: prod.splits dest: decimalParts_nonneg)

lemma decimalAdd_exact: "dval (decimalAdd a b) = dval a + dval b"
  and decimalAdd_canonical: "canonical (decimalAdd a b)"
proof -
  obtain an as where a: "decimalParts a = (an, as)" by (cases "decimalParts a")
  obtain bn bs where b: "decimalParts b = (bn, bs)" by (cases "decimalParts b")
  note nn = decimalParts_nonneg [OF a] decimalParts_nonneg [OF b]
  show "dval (decimalAdd a b) = dval a + dval b"
    using nn by (auto simp: decimalAdd_def a b decimalFromParts_eq dval_def [of a] dval_def [of b]
        add_frac_eq power_add [symmetric] divide_simps algebra_simps simp flip: power_add)
  show "canonical (decimalAdd a b)"
    using nn by (simp add: decimalAdd_def a b decimalFromParts_eq)
qed

lemma decimalMulPerMillion_exact:
  "0 \<le> tokens \<Longrightarrow> dval (decimalMulPerMillion rate tokens) = dval rate * of_int tokens / 10 ^ 6"
  and decimalMulPerMillion_canonical: "0 \<le> tokens \<Longrightarrow> canonical (decimalMulPerMillion rate tokens)"
  using decimalParts_nonneg [of rate]
  by (auto simp: decimalMulPerMillion_def decimalFromParts_eq dval_def [of rate] power_add split: prod.splits)


text \<open>C9 ParseDecimal_exact: an accepted text is rewritten to a decimal of exactly the number the
  literal denotes, with no rounding, and the result is a fixed point of the parser, so a stored
  amount always passes the canonical-form check.\<close>

theorem ParseDecimal_exact:
  assumes "ParseDecimal v = Inr d"
  shows "(\<exists>l. decimalPattern (trim_space v) = Some l \<and> dval d = literal_value l) \<and> Decimal_validate d = None"
  using assms by (rule ParseDecimal_cases) (auto simp: Decimal_validate_def)

theorem ParseDecimal_exact_witness:
  "ParseDecimal ''12.50e1'' = Inr ''125''
   \<and> (\<exists>l. decimalPattern (trim_space ''12.50e1'') = Some l \<and> dval ''125'' = literal_value l)
   \<and> Decimal_validate ''125'' = None"
proof -
  have "ParseDecimal ''12.50e1'' = Inr ''125''" by code_simp
  with ParseDecimal_exact [OF this] show ?thesis by blast
qed

text \<open>Canonical decimals are unique representations. Two accepted texts of the
  same value yield the same string, so equality of stored amounts is equality of numbers.\<close>

theorem ParseDecimal_unique:
  assumes "ParseDecimal v = Inr d" "ParseDecimal w = Inr e" "dval d = dval e"
  shows "d = e"
  using assms by (metis ParseDecimal_cases canon_text_inj)

theorem ParseDecimal_unique_witness:
  "ParseDecimal ''0.50'' = Inr ''0.5'' \<and> ParseDecimal '' 5e-1'' = Inr ''0.5'' \<and> ''0.5'' = (''0.5'' :: string)"
proof -
  have 1: "ParseDecimal ''0.50'' = Inr ''0.5''" by code_simp
  have 2: "ParseDecimal '' 5e-1'' = Inr ''0.5''" by code_simp
  show ?thesis using 1 2 ParseDecimal_unique [OF 1 2] by blast
qed

text \<open>C10 decimal_arithmetic_exact: addition of canonical amounts and pricing of a token count per million are
  exact, and their results are canonical again.\<close>

theorem decimal_arithmetic_exact:
  assumes "ParseDecimal a = Inr a" "ParseDecimal b = Inr b" "0 \<le> tokens"
  shows "dval (decimalAdd a b) = dval a + dval b
    \<and> ParseDecimal (decimalAdd a b) = Inr (decimalAdd a b)
    \<and> dval (decimalMulPerMillion a tokens) = dval a * of_int tokens / 10 ^ 6
    \<and> ParseDecimal (decimalMulPerMillion a tokens) = Inr (decimalMulPerMillion a tokens)"
  using decimalAdd_exact decimalAdd_canonical decimalMulPerMillion_exact [OF assms(3)]
    decimalMulPerMillion_canonical [OF assms(3)] by (simp_all add: canonical_def)

theorem decimal_arithmetic_exact_witness:
  "dval (decimalAdd ''0.1'' ''2'') = dval ''0.1'' + dval ''2''
   \<and> ParseDecimal (decimalMulPerMillion ''0.1'' 1500) = Inr (decimalMulPerMillion ''0.1'' 1500)"
proof -
  have 1: "ParseDecimal ''0.1'' = Inr ''0.1''" by code_simp
  have 2: "ParseDecimal ''2'' = Inr ''2''" by code_simp
  show ?thesis using decimal_arithmetic_exact [OF 1 2, of 1500] by simp
qed

end
