(* ===== verification/Records.thy ===== *)
theory Records
  imports Metadata Decimal
begin

text \<open>
  The durable records of \<^verbatim>\<open>internal/runtime/storage.go\<close>, \<^verbatim>\<open>schedule.go\<close>, \<^verbatim>\<open>types.go\<close>,
  \<^verbatim>\<open>model.go\<close> and the accounting types of \<^verbatim>\<open>cost.go\<close>, one Isabelle record per Go struct, with
  the validators of \<^verbatim>\<open>observability.go\<close>, \<^verbatim>\<open>types.go\<close> and \<^verbatim>\<open>cost.go\<close>, the deep copies and the
  serializability checks of \<^verbatim>\<open>memory_storage.go\<close>. Every struct field is kept; a field \<^verbatim>\<open>F\<close> of
  a struct is named by a prefix of its struct and \<^verbatim>\<open>F\<close>.

  A \<^verbatim>\<open>time.Time\<close> is its instant in nanoseconds from the Unix epoch (UTC), an \<^typ>\<open>int\<close>;
  a pointer to a time is an option. The private encodings of tool calls and content parts, which the
  package builds only through validating constructors, are the lists they encode.
\<close>

section \<open>Time\<close>

type_synonym Time = int

definition zero_time :: Time where "zero_time = -62135596800000000000"

definition IsZero :: "Time \<Rightarrow> bool" where "IsZero t \<longleftrightarrow> t = zero_time"

text \<open>\<^verbatim>\<open>time.Time.MarshalJSON\<close> refuses years outside 0 to 9999.\<close>

definition time_marshal_ok :: "Time \<Rightarrow> bool" where
  "time_marshal_ok t \<longleftrightarrow> -62167219200000000000 \<le> t \<and> t < 253402300800000000000"

section \<open>Messages\<close>

record ModelToolCall =
  tc_ID :: string
  tc_ToolID :: string
  tc_Arguments :: RawMessage

definition ModelToolCall_Validate :: "ModelToolCall \<Rightarrow> go_error option" where
  "ModelToolCall_Validate c = first_err [
     chk (tc_ID c = []) (Errorf ''tool call requires an ID'' []),
     chk (tc_ToolID c = []) (Errorf ''tool call requires a tool ID'' []),
     chk (raw_bytes (tc_Arguments c) = [] \<or> \<not> json_valid (raw_bytes (tc_Arguments c)))
       (Errorf ''tool call arguments must be valid JSON'' [])]"

record MessageContentPart =
  cp_Type :: string
  cp_Text :: string
  cp_MimeType :: string
  cp_Filename :: string
  cp_Data :: string

record ModelReasoning =
  re_Text :: string
  re_Details :: string

definition ModelReasoning_IsZero :: "ModelReasoning \<Rightarrow> bool" where
  "ModelReasoning_IsZero r \<longleftrightarrow> re_Text r = [] \<and> re_Details r = []"

definition ModelReasoning_Validate :: "ModelReasoning \<Rightarrow> go_error option" where
  "ModelReasoning_Validate r = chk (re_Details r \<noteq> [] \<and> \<not> json_valid (re_Details r))
     (Errorf ''lebro: model reasoning details must be valid JSON'' [])"

record Message =
  m_Role :: string
  m_Content :: string
  m_ContentParts :: "MessageContentPart list"
  m_Name :: string
  m_ToolCallID :: string
  m_ToolCalls :: "ModelToolCall list"
  m_StructuredOutput :: string
  m_Reasoning :: ModelReasoning

definition RoleSystem :: string where "RoleSystem = ''system''"
definition RoleUser :: string where "RoleUser = ''user''"
definition RoleAssistant :: string where "RoleAssistant = ''assistant''"
definition RoleTool :: string where "RoleTool = ''tool''"

definition ErrMessageStructuredOutputInvalidJSON :: go_error where
  "ErrMessageStructuredOutputInvalidJSON =
     Errorf ''lebro: message structured output must be valid JSON'' []"

definition Message_Validate :: "Message \<Rightarrow> go_error option" where
  "Message_Validate m = first_err [
     chk (m_Role m \<notin> set [RoleSystem, RoleUser, RoleAssistant, RoleTool])
       (Errorf ''lebro: invalid message role %q'' [m_Role m]),
     chk (m_Role m = RoleTool \<and> m_ToolCallID m = [])
       (Errorf ''lebro: tool messages require a tool call ID'' []),
     chk (m_Role m \<noteq> RoleTool \<and> m_ToolCallID m \<noteq> [])
       (Errorf ''lebro: only tool messages can contain a tool call ID'' []),
     chk (m_ToolCalls m \<noteq> [] \<and> m_Role m \<noteq> RoleAssistant)
       (Errorf ''lebro: only assistant messages can contain tool calls'' []),
     (if m_StructuredOutput m \<noteq> [] then first_err [
        chk (m_Role m \<noteq> RoleAssistant)
          (Errorf ''lebro: only assistant messages can contain structured output'' []),
        chk (\<not> json_valid (m_StructuredOutput m)) ErrMessageStructuredOutputInvalidJSON]
      else None),
     (if \<not> ModelReasoning_IsZero (m_Reasoning m) then first_err [
        chk (m_Role m \<noteq> RoleAssistant)
          (Errorf ''lebro: only assistant messages can contain reasoning'' []),
        ModelReasoning_Validate (m_Reasoning m)]
      else None),
     (if m_ContentParts m \<noteq> [] then first_err [
        chk (m_Content m \<noteq> [])
          (Errorf ''lebro: message cannot contain both content and content parts'' []),
        chk (m_Role m \<noteq> RoleUser)
          (Errorf ''lebro: only user messages can contain content parts'' [])]
      else None)]"

section \<open>Usage and accounting\<close>

record ModelUsage =
  us_InputTokens :: int
  us_OutputTokens :: int
  us_ReasoningTokens :: int
  us_TotalTokens :: int
  us_CacheReadTokens :: int
  us_CacheWriteTokens :: int
  us_CacheWrite1hTokens :: int

definition zero_usage :: ModelUsage where
  "zero_usage = \<lparr>us_InputTokens = 0, us_OutputTokens = 0, us_ReasoningTokens = 0, us_TotalTokens = 0,
     us_CacheReadTokens = 0, us_CacheWriteTokens = 0, us_CacheWrite1hTokens = 0\<rparr>"

definition validateUsage :: "ModelUsage \<Rightarrow> go_error option" where
  "validateUsage u = chk (us_InputTokens u < 0 \<or> us_OutputTokens u < 0 \<or> us_ReasoningTokens u < 0
      \<or> us_TotalTokens u < 0 \<or> us_CacheReadTokens u < 0 \<or> us_CacheWriteTokens u < 0
      \<or> us_CacheWrite1hTokens u < 0) (Errorf ''token counts must not be negative'' [])"

definition CostUnavailable :: string where "CostUnavailable = ''unavailable''"
definition CostProviderReported :: string where "CostProviderReported = ''provider_reported''"
definition CostDeveloperSupplied :: string where "CostDeveloperSupplied = ''developer_supplied''"
definition CostEstimated :: string where "CostEstimated = ''estimated''"

record CostComponent =
  cc_Kind :: string
  cc_Modality :: string
  cc_Amount :: Decimal

record ModelCost =
  mc_Currency :: string
  mc_Amount :: Decimal
  mc_Source :: string
  mc_Domain :: string
  mc_Components :: "CostComponent list"
  mc_Provenance :: string
  mc_CatalogVersion :: string
  mc_EffectiveAt :: Time
  mc_UnavailableReason :: string

definition cost_components_err :: "CostComponent list \<Rightarrow> go_error option" where
  "cost_components_err cs = first_err (map (\<lambda>c. first_err [
     chk (cc_Kind c = [] \<or> cc_Amount c = []) (Errorf ''lebro: cost component requires kind and amount'' []),
     Decimal_validate (cc_Amount c)]) cs)"

definition ModelCost_Validate :: "ModelCost \<Rightarrow> go_error option" where
  "ModelCost_Validate c = first_err [
     (if mc_Source c = CostUnavailable then first_err [
        chk (mc_Amount c \<noteq> [] \<or> mc_Currency c \<noteq> [] \<or> mc_Components c \<noteq> [])
          (Errorf ''lebro: unavailable cost must not contain an amount'' []),
        chk (mc_UnavailableReason c = []) (Errorf ''lebro: unavailable cost requires a reason'' [])]
      else if mc_Source c \<in> set [CostProviderReported, CostDeveloperSupplied, CostEstimated] then first_err [
        chk (mc_Amount c = [] \<or> trim_space (mc_Currency c) = [])
          (Errorf ''lebro: available cost requires currency and amount'' []),
        Decimal_validate (mc_Amount c),
        chk (mc_UnavailableReason c \<noteq> [])
          (Errorf ''lebro: available cost must not have an unavailable reason'' [])]
      else Some (Errorf ''lebro: invalid cost source %q'' [mc_Source c])),
     cost_components_err (mc_Components c)]"

record ModelAccounting =
  ac_ProviderRequestID :: string
  ac_ServiceTier :: string
  ac_Region :: string
  ac_Costs :: "ModelCost list"

definition ModelAccounting_Validate :: "ModelAccounting \<Rightarrow> go_error option" where
  "ModelAccounting_Validate a = first_err [
     first_err (map ModelCost_Validate (ac_Costs a)),
     chk (1 < length (filter (\<lambda>cost. mc_Source cost = CostProviderReported) (ac_Costs a)))
       (Errorf ''lebro: accounting contains multiple provider-reported totals'' [])]"

definition HasProviderReportedCost :: "ModelAccounting \<Rightarrow> bool" where
  "HasProviderReportedCost a = list_ex (\<lambda>cost. mc_Source cost = CostProviderReported) (ac_Costs a)"

definition HasAvailableCost :: "ModelAccounting \<Rightarrow> bool" where
  "HasAvailableCost a = list_ex (\<lambda>cost. mc_Source cost \<noteq> CostUnavailable) (ac_Costs a)"

definition Accounting_Domain :: "ModelAccounting \<Rightarrow> string" where
  "Accounting_Domain a = (case filter (\<lambda>cost. mc_Domain cost \<noteq> []) (ac_Costs a) of
     [] \<Rightarrow> [] | cost # _ \<Rightarrow> mc_Domain cost)"


section \<open>Storage records\<close>

record RuntimeScope =
  sc_Namespace :: string
  sc_OwnerID :: string

record PageRequest =
  pr_Cursor :: string
  pr_Limit :: int

record 'a Page =
  pg_Records :: "'a list"
  pg_NextCursor :: string

record ThreadRecord =
  th_ID :: string
  th_Namespace :: string
  th_OwnerID :: string
  th_Metadata :: RawMessage
  th_CreatedAt :: Time
  th_UpdatedAt :: Time

record MessageRecord =
  mr_ID :: string
  mr_ThreadID :: string
  mr_Message :: Message
  mr_Metadata :: RawMessage
  mr_Annotations :: Metadata
  mr_CreatedAt :: Time

record WorkflowFailureData =
  wf_Kind :: string
  wf_Step :: int
  wf_StepID :: string
  wf_Message :: string

record FanOutBranchResult =
  fb_Name :: string
  fb_Status :: string
  fb_Output :: RawMessage
  fb_Failure :: "WorkflowFailureData option"

record FanOutJoinResult =
  fj_StepID :: string
  fj_Status :: string
  fj_Branches :: "FanOutBranchResult list"

record WorkflowRunRecord =
  wr_ID :: string
  wr_WorkflowID :: string
  wr_ThreadID :: string
  wr_Namespace :: string
  wr_OwnerID :: string
  wr_Status :: string
  wr_Input :: RawMessage
  wr_Output :: RawMessage
  wr_StepOutputs :: "RawMessage list"
  wr_CurrentStep :: int
  wr_CurrentStepID :: string
  wr_Path :: "string list"
  wr_Failure :: "WorkflowFailureData option"
  wr_FanOut :: "FanOutJoinResult list"
  wr_WorkflowVersion :: string
  wr_Metadata :: RawMessage
  wr_StartedAt :: Time
  wr_FinishedAt :: "Time option"
  wr_UpdatedAt :: Time

record WorkflowSnapshotRecord =
  sn_ID :: string
  sn_RunID :: string
  sn_Sequence :: int
  sn_SchemaVersion :: int
  sn_State :: RawMessage
  sn_CreatedAt :: Time

record WorkflowRunFilter =
  rf_WorkflowID :: string
  rf_Status :: string
  rf_Namespace :: string
  rf_OwnerID :: string

record ScheduleRecord =
  sd_ID :: string
  sd_WorkflowID :: string
  sd_Namespace :: string
  sd_OwnerID :: string
  sd_Spec :: string
  sd_Paused :: bool
  sd_Concurrency :: string
  sd_Input :: RawMessage
  sd_Metadata :: RawMessage
  sd_NextFireAt :: "Time option"
  sd_LastFireAt :: "Time option"
  sd_WakeRunID :: string
  sd_WakeToken :: string
  sd_CreatedAt :: Time
  sd_UpdatedAt :: Time

record ScheduleExecutionRecord =
  se_ID :: string
  se_ScheduleID :: string
  se_RunID :: string
  se_Namespace :: string
  se_OwnerID :: string
  se_Status :: string
  se_ScheduledFor :: Time
  se_StartedAt :: Time
  se_FinishedAt :: "Time option"
  se_Error :: string

record ScheduleFilter =
  sf_WorkflowID :: string
  sf_DueBy :: "Time option"
  sf_Namespace :: string
  sf_OwnerID :: string

record WorkingMemoryFact =
  wm_ID :: string
  wm_Namespace :: string
  wm_OwnerID :: string
  wm_Key :: string
  wm_Value :: RawMessage
  wm_Version :: int
  wm_CreatedAt :: Time
  wm_UpdatedAt :: Time

section \<open>Observability records\<close>

record PluginAttribution =
  pa_ID :: string
  pa_Version :: string
  pa_Action :: string
  pa_Outcome :: string

record ModelAttemptRecord =
  at_ID :: string
  at_RunID :: string
  at_ThreadID :: string
  at_Namespace :: string
  at_OwnerID :: string
  at_ExecutionID :: string
  at_StepID :: string
  at_Step :: int
  at_Index :: int
  at_Provider :: string
  at_Model :: string
  at_RoutedModel :: string
  at_Status :: string
  at_FinishReason :: string
  at_Usage :: ModelUsage
  at_StartedAt :: Time
  at_FinishedAt :: Time
  at_ProducedMessageIDs :: "string list"
  at_ErrorKind :: string
  at_ErrorMessage :: string
  at_ProviderRequestID :: string
  at_CostMicros :: int
  at_Currency :: string
  at_Accounting :: ModelAccounting
  at_Metadata :: Metadata

record ToolExecutionRecord =
  te_ID :: string
  te_RunID :: string
  te_ThreadID :: string
  te_Namespace :: string
  te_OwnerID :: string
  te_ExecutionID :: string
  te_StepID :: string
  te_Step :: int
  te_ToolCallID :: string
  te_ToolID :: string
  te_State :: string
  te_StartedAt :: Time
  te_FinishedAt :: Time
  te_ErrorKind :: string
  te_ErrorMessage :: string
  te_Metadata :: Metadata

record RunEventRecord =
  ev_ID :: string
  ev_RunID :: string
  ev_ThreadID :: string
  ev_Namespace :: string
  ev_OwnerID :: string
  ev_ExecutionID :: string
  ev_Sequence :: int
  ev_Type :: string
  ev_Timestamp :: Time
  ev_StepID :: string
  ev_Step :: int
  ev_ParentRunID :: string
  ev_ParentStepID :: string
  ev_Branch :: string
  ev_ToolCallID :: string
  ev_ToolID :: string
  ev_Provider :: string
  ev_ProviderModel :: string
  ev_AttemptStatus :: string
  ev_ProcessorPhase :: string
  ev_ProcessorAction :: string
  ev_Status :: string
  ev_FinishReason :: string
  ev_Usage :: ModelUsage
  ev_Accounting :: ModelAccounting
  ev_DurationNanos :: int
  ev_ErrorKind :: string
  ev_ErrorMessage :: string
  ev_Payload :: RawMessage
  ev_Plugin :: "PluginAttribution option"
  ev_Metadata :: Metadata

record RunEventFilter =
  ef_RunID :: string
  ef_ThreadID :: string
  ef_Namespace :: string
  ef_OwnerID :: string
  ef_ExecutionID :: string
  ef_Type :: string
  ef_From :: Time
  ef_To :: Time
  ef_Provider :: string
  ef_ToolID :: string

record ModelAttemptFilter =
  af_RunID :: string
  af_ThreadID :: string
  af_Namespace :: string
  af_OwnerID :: string
  af_ExecutionID :: string
  af_Provider :: string
  af_Model :: string
  af_Status :: string
  af_From :: Time
  af_To :: Time
  af_CostSource :: string

record ToolExecutionFilter =
  tf_RunID :: string
  tf_ThreadID :: string
  tf_Namespace :: string
  tf_OwnerID :: string
  tf_ExecutionID :: string
  tf_ToolID :: string
  tf_State :: string


section \<open>Validation of observability records\<close>

definition validFinishReason :: "string \<Rightarrow> bool" where
  "validFinishReason reason \<longleftrightarrow> reason \<in> set
     [''stop'', ''length'', ''tool_calls'', ''content_filter'', ''cancelled'', ''unspecified'']"

definition validateFinishReasonValue :: "string \<Rightarrow> go_error option" where
  "validateFinishReasonValue reason = (if reason = [] then None
     else chk (\<not> validFinishReason reason) (Errorf ''invalid finish reason %q'' [reason]))"

definition validateObservabilityIdentity :: "string \<Rightarrow> string \<Rightarrow> string \<Rightarrow> go_error option" where
  "validateObservabilityIdentity rec ident runID = first_err [
     chk (ident = []) (Errorf ''lebro: %s ID is required'' [rec]),
     chk (runID = []) (Errorf ''lebro: %s run ID is required'' [rec])]"

definition ModelAttemptStatuses :: "string list" where
  "ModelAttemptStatuses = [''success'', ''fallback'', ''failed'', ''cancelled'']"

definition validateModelAttemptRecord :: "ModelAttemptRecord \<Rightarrow> go_error option" where
  "validateModelAttemptRecord v = first_err [
     validateObservabilityIdentity ''model attempt'' (at_ID v) (at_RunID v),
     chk (at_Index v \<le> 0) (Errorf ''lebro: model attempt %q index must be positive'' [at_ID v]),
     chk (at_Status v \<notin> set ModelAttemptStatuses)
       (Errorf ''lebro: model attempt %q has invalid status %q'' [at_ID v, at_Status v]),
     chk (IsZero (at_StartedAt v) \<or> IsZero (at_FinishedAt v))
       (Errorf ''lebro: model attempt timestamps are required'' []),
     chk (at_FinishedAt v < at_StartedAt v)
       (Errorf ''lebro: model attempt %q finishes before it starts'' [at_ID v]),
     wrap_err ''lebro: model attempt %q usage: %w'' [at_ID v] (validateUsage (at_Usage v)),
     wrap_err ''lebro: model attempt %q accounting: %w'' [at_ID v] (ModelAccounting_Validate (at_Accounting v)),
     wrap_err ''lebro: model attempt %q: %w'' [at_ID v] (validateFinishReasonValue (at_FinishReason v)),
     first_err (map (\<lambda>(i, messageID). chk (messageID = [])
       (Errorf ''lebro: model attempt %q produced message ID %d is empty'' [at_ID v, show_nat i]))
       (List.enumerate 0 (at_ProducedMessageIDs v))),
     Metadata_Validate (at_Metadata v)]"

definition ToolExecutionStates :: "string list" where
  "ToolExecutionStates = [''succeeded'', ''invalid_input'', ''invalid_output'', ''handler_error'',
     ''panicked'', ''cancelled'', ''not_found'', ''unauthorized'']"

definition validateToolExecutionRecord :: "ToolExecutionRecord \<Rightarrow> go_error option" where
  "validateToolExecutionRecord v = first_err [
     validateObservabilityIdentity ''tool execution'' (te_ID v) (te_RunID v),
     chk (te_ToolCallID v = []) (Errorf ''lebro: tool execution %q requires a tool call ID'' [te_ID v]),
     chk (te_ToolID v = []) (Errorf ''lebro: tool execution %q requires a tool ID'' [te_ID v]),
     chk (te_State v \<notin> set ToolExecutionStates)
       (Errorf ''lebro: tool execution %q has invalid state %q'' [te_ID v, te_State v]),
     chk (IsZero (te_StartedAt v)) (Errorf ''lebro: tool execution start timestamp is required'' []),
     chk (\<not> IsZero (te_FinishedAt v) \<and> te_FinishedAt v < te_StartedAt v)
       (Errorf ''lebro: tool execution %q finishes before it starts'' [te_ID v]),
     Metadata_Validate (te_Metadata v)]"

definition validateRunEventRecord :: "RunEventRecord \<Rightarrow> go_error option" where
  "validateRunEventRecord v = first_err [
     validateObservabilityIdentity ''run event'' (ev_ID v) (ev_RunID v),
     chk (ev_Sequence v \<le> 0) (Errorf ''lebro: run event %q sequence must be positive'' [ev_ID v]),
     chk (ev_Type v = []) (Errorf ''lebro: run event %q type is required'' [ev_ID v]),
     chk (IsZero (ev_Timestamp v)) (Errorf ''lebro: run event timestamp is required'' []),
     chk (case ev_Plugin v of None \<Rightarrow> False | Some p \<Rightarrow> pa_ID p = [])
       (Errorf ''lebro: run event %q plugin attribution requires an ID'' [ev_ID v]),
     wrap_err ''lebro: run event %q payload: %w'' [ev_ID v] (validateJSON (ev_Payload v)),
     wrap_err ''lebro: run event %q usage: %w'' [ev_ID v] (validateUsage (ev_Usage v)),
     wrap_err ''lebro: run event %q accounting: %w'' [ev_ID v] (ModelAccounting_Validate (ev_Accounting v)),
     Metadata_Validate (ev_Metadata v)]"

definition withinEventRange :: "Time \<Rightarrow> Time \<Rightarrow> Time \<Rightarrow> bool" where
  "withinEventRange ts from_t to_t \<longleftrightarrow>
     \<not> (\<not> IsZero from_t \<and> ts < from_t) \<and> \<not> (\<not> IsZero to_t \<and> \<not> ts < to_t)"

section \<open>Serializability\<close>

text \<open>
  \<^verbatim>\<open>validateRecord\<close> fails exactly when \<^verbatim>\<open>json.Marshal\<close> does: on a raw message that is not JSON
  or on a time outside the encodable years. The encoder's own error is opaque.
\<close>

definition validateRecord :: "bool \<Rightarrow> go_error option" where
  "validateRecord marshals = chk (\<not> marshals)
     (Wrapf ''must be JSON serializable: %w'' [] (Errorf ''json: error calling MarshalJSON'' []))"

definition time_ptr_ok :: "Time option \<Rightarrow> bool" where
  "time_ptr_ok t \<longleftrightarrow> (case t of None \<Rightarrow> True | Some u \<Rightarrow> time_marshal_ok u)"

definition thread_marshals :: "ThreadRecord \<Rightarrow> bool" where
  "thread_marshals v \<longleftrightarrow> raw_omitempty_ok (th_Metadata v)
     \<and> time_marshal_ok (th_CreatedAt v) \<and> time_marshal_ok (th_UpdatedAt v)"

definition message_marshals :: "MessageRecord \<Rightarrow> bool" where
  "message_marshals v \<longleftrightarrow>
     (m_StructuredOutput (mr_Message v) = [] \<or> json_valid (m_StructuredOutput (mr_Message v)))
     \<and> raw_omitempty_ok (mr_Metadata v) \<and> list_all (\<lambda>(k, r). raw_marshal_ok r) (mr_Annotations v)
     \<and> time_marshal_ok (mr_CreatedAt v)"

definition failure_marshals :: "WorkflowFailureData \<Rightarrow> bool" where
  "failure_marshals v \<longleftrightarrow> True"

definition run_marshals :: "WorkflowRunRecord \<Rightarrow> bool" where
  "run_marshals v \<longleftrightarrow> raw_omitempty_ok (wr_Input v) \<and> raw_omitempty_ok (wr_Output v)
     \<and> list_all raw_marshal_ok (wr_StepOutputs v)
     \<and> list_all (\<lambda>j. list_all (\<lambda>b. raw_omitempty_ok (fb_Output b)) (fj_Branches j)) (wr_FanOut v)
     \<and> raw_omitempty_ok (wr_Metadata v) \<and> time_marshal_ok (wr_StartedAt v)
     \<and> time_ptr_ok (wr_FinishedAt v) \<and> time_marshal_ok (wr_UpdatedAt v)"

definition snapshot_marshals :: "WorkflowSnapshotRecord \<Rightarrow> bool" where
  "snapshot_marshals v \<longleftrightarrow> raw_marshal_ok (sn_State v) \<and> time_marshal_ok (sn_CreatedAt v)"

definition schedule_marshals :: "ScheduleRecord \<Rightarrow> bool" where
  "schedule_marshals v \<longleftrightarrow> raw_omitempty_ok (sd_Input v) \<and> raw_omitempty_ok (sd_Metadata v)
     \<and> time_ptr_ok (sd_NextFireAt v) \<and> time_ptr_ok (sd_LastFireAt v)
     \<and> time_marshal_ok (sd_CreatedAt v) \<and> time_marshal_ok (sd_UpdatedAt v)"

definition execution_marshals :: "ScheduleExecutionRecord \<Rightarrow> bool" where
  "execution_marshals v \<longleftrightarrow> time_marshal_ok (se_ScheduledFor v) \<and> time_marshal_ok (se_StartedAt v)
     \<and> time_ptr_ok (se_FinishedAt v)"

section \<open>Deep copies\<close>

text \<open>
  The copies keep every value and only turn an empty raw message into nil; slices and pointers are
  values here, so copying them is the identity.
\<close>

definition cloneThreadRecord :: "ThreadRecord \<Rightarrow> ThreadRecord" where
  "cloneThreadRecord v = v\<lparr>th_Metadata := cloneJSON (th_Metadata v)\<rparr>"

definition cloneMessageRecord :: "MessageRecord \<Rightarrow> MessageRecord" where
  "cloneMessageRecord v = v\<lparr>mr_Metadata := cloneJSON (mr_Metadata v),
     mr_Annotations := Metadata_Clone (mr_Annotations v)\<rparr>"

definition cloneFanOut :: "FanOutJoinResult \<Rightarrow> FanOutJoinResult" where
  "cloneFanOut r = r\<lparr>fj_Branches := map (\<lambda>b. b\<lparr>fb_Output := cloneJSON (fb_Output b)\<rparr>) (fj_Branches r)\<rparr>"

definition cloneWorkflowRunRecord :: "WorkflowRunRecord \<Rightarrow> WorkflowRunRecord" where
  "cloneWorkflowRunRecord v = v\<lparr>wr_Input := cloneJSON (wr_Input v), wr_Output := cloneJSON (wr_Output v),
     wr_Metadata := cloneJSON (wr_Metadata v), wr_StepOutputs := map cloneJSON (wr_StepOutputs v),
     wr_FanOut := map cloneFanOut (wr_FanOut v)\<rparr>"

definition cloneWorkflowSnapshotRecord :: "WorkflowSnapshotRecord \<Rightarrow> WorkflowSnapshotRecord" where
  "cloneWorkflowSnapshotRecord v = v\<lparr>sn_State := cloneJSON (sn_State v)\<rparr>"

definition cloneScheduleRecord :: "ScheduleRecord \<Rightarrow> ScheduleRecord" where
  "cloneScheduleRecord v = v\<lparr>sd_Input := cloneJSON (sd_Input v), sd_Metadata := cloneJSON (sd_Metadata v)\<rparr>"

definition cloneScheduleExecutionRecord :: "ScheduleExecutionRecord \<Rightarrow> ScheduleExecutionRecord" where
  "cloneScheduleExecutionRecord v = v"

definition cloneWorkingMemoryFact :: "WorkingMemoryFact \<Rightarrow> WorkingMemoryFact" where
  "cloneWorkingMemoryFact v = v\<lparr>wm_Value := cloneJSON (wm_Value v)\<rparr>"

definition Accounting_Clone :: "ModelAccounting \<Rightarrow> ModelAccounting" where
  "Accounting_Clone a = a"

definition cloneRunEventRecord :: "RunEventRecord \<Rightarrow> RunEventRecord" where
  "cloneRunEventRecord v = v\<lparr>ev_Payload := cloneJSON (ev_Payload v), ev_Metadata := Metadata_Clone (ev_Metadata v),
     ev_Accounting := Accounting_Clone (ev_Accounting v)\<rparr>"

definition cloneModelAttemptRecord :: "ModelAttemptRecord \<Rightarrow> ModelAttemptRecord" where
  "cloneModelAttemptRecord v = v\<lparr>at_Metadata := Metadata_Clone (at_Metadata v),
     at_Accounting := Accounting_Clone (at_Accounting v)\<rparr>"

definition cloneToolExecutionRecord :: "ToolExecutionRecord \<Rightarrow> ToolExecutionRecord" where
  "cloneToolExecutionRecord v = v\<lparr>te_Metadata := Metadata_Clone (te_Metadata v)\<rparr>"

named_theorems clone_simps \<open>what the deep copies keep\<close>

lemma clone_thread [clone_simps, simp]:
  "th_ID (cloneThreadRecord v) = th_ID v" "th_Namespace (cloneThreadRecord v) = th_Namespace v"
  "th_OwnerID (cloneThreadRecord v) = th_OwnerID v" "th_CreatedAt (cloneThreadRecord v) = th_CreatedAt v"
  "cloneThreadRecord (cloneThreadRecord v) = cloneThreadRecord v"
  by (simp_all add: cloneThreadRecord_def)

lemma clone_metadata_idem [simp]: "Metadata_Clone (Metadata_Clone m) = Metadata_Clone m"
  by (simp add: Metadata_Clone_def case_prod_unfold)

lemma clone_message [clone_simps, simp]:
  "mr_ID (cloneMessageRecord v) = mr_ID v" "mr_ThreadID (cloneMessageRecord v) = mr_ThreadID v"
  "mr_Message (cloneMessageRecord v) = mr_Message v" "mr_CreatedAt (cloneMessageRecord v) = mr_CreatedAt v"
  "cloneMessageRecord (cloneMessageRecord v) = cloneMessageRecord v"
  by (simp_all add: cloneMessageRecord_def)

lemma clone_run [clone_simps, simp]:
  "wr_ID (cloneWorkflowRunRecord v) = wr_ID v" "wr_Namespace (cloneWorkflowRunRecord v) = wr_Namespace v"
  "wr_OwnerID (cloneWorkflowRunRecord v) = wr_OwnerID v" "wr_StartedAt (cloneWorkflowRunRecord v) = wr_StartedAt v"
  "wr_WorkflowID (cloneWorkflowRunRecord v) = wr_WorkflowID v" "wr_Status (cloneWorkflowRunRecord v) = wr_Status v"
  "cloneWorkflowRunRecord (cloneWorkflowRunRecord v) = cloneWorkflowRunRecord v"
  by (simp_all add: cloneWorkflowRunRecord_def cloneFanOut_def)

lemma clone_snapshot [clone_simps, simp]:
  "sn_ID (cloneWorkflowSnapshotRecord v) = sn_ID v" "sn_RunID (cloneWorkflowSnapshotRecord v) = sn_RunID v"
  "sn_Sequence (cloneWorkflowSnapshotRecord v) = sn_Sequence v"
  "cloneWorkflowSnapshotRecord (cloneWorkflowSnapshotRecord v) = cloneWorkflowSnapshotRecord v"
  by (simp_all add: cloneWorkflowSnapshotRecord_def)

lemma clone_schedule [clone_simps, simp]:
  "sd_ID (cloneScheduleRecord v) = sd_ID v" "sd_Namespace (cloneScheduleRecord v) = sd_Namespace v"
  "sd_OwnerID (cloneScheduleRecord v) = sd_OwnerID v" "sd_CreatedAt (cloneScheduleRecord v) = sd_CreatedAt v"
  "sd_WorkflowID (cloneScheduleRecord v) = sd_WorkflowID v" "sd_Paused (cloneScheduleRecord v) = sd_Paused v"
  "sd_NextFireAt (cloneScheduleRecord v) = sd_NextFireAt v" "sd_LastFireAt (cloneScheduleRecord v) = sd_LastFireAt v"
  "cloneScheduleRecord (cloneScheduleRecord v) = cloneScheduleRecord v"
  by (simp_all add: cloneScheduleRecord_def)

lemma clone_execution [clone_simps, simp]: "cloneScheduleExecutionRecord v = v"
  by (simp add: cloneScheduleExecutionRecord_def)

lemma clone_fact [clone_simps, simp]:
  "wm_ID (cloneWorkingMemoryFact v) = wm_ID v" "wm_Namespace (cloneWorkingMemoryFact v) = wm_Namespace v"
  "wm_OwnerID (cloneWorkingMemoryFact v) = wm_OwnerID v" "wm_Key (cloneWorkingMemoryFact v) = wm_Key v"
  "wm_Version (cloneWorkingMemoryFact v) = wm_Version v" "wm_CreatedAt (cloneWorkingMemoryFact v) = wm_CreatedAt v"
  "cloneWorkingMemoryFact (cloneWorkingMemoryFact v) = cloneWorkingMemoryFact v"
  by (simp_all add: cloneWorkingMemoryFact_def)

end
