(* ===== verification/Authz.thy ===== *)
theory Authz
  imports Records
begin

text \<open>
  \<^verbatim>\<open>internal/runtime/authz.go\<close>: callers, policies and the one authorization hook, and the parts
  of a \<^verbatim>\<open>context.Context\<close> the runtime reads: its error, the caller identity and the verified
  persistence scope. A policy is application code, so it is a parameter: a function, or \<open>None\<close>
  for the nil policy.
\<close>

record Identity =
  idn_Subject :: string
  idn_Tenant :: string
  idn_Capabilities :: "string list"
  idn_Attributes :: "(string, string) gomap"

record Decision =
  dc_Allowed :: bool
  dc_Reason :: string

record Context =
  cx_Err :: "go_error option"
  cx_Identity :: "Identity option"
  cx_Scope :: "RuntimeScope option"

definition background :: Context where
  "background = \<lparr>cx_Err = None, cx_Identity = None, cx_Scope = None\<rparr>"

definition WithRuntimeScope :: "Context \<Rightarrow> RuntimeScope \<Rightarrow> Context" where
  "WithRuntimeScope ctx scope = ctx\<lparr>cx_Scope := Some scope\<rparr>"

definition RuntimeScopeFromContext :: "Context \<Rightarrow> RuntimeScope option" where
  "RuntimeScopeFromContext ctx = cx_Scope ctx"

definition WithIdentity :: "Context \<Rightarrow> Identity \<Rightarrow> Context" where
  "WithIdentity ctx identity = ctx\<lparr>cx_Identity := Some identity\<rparr>"

definition IdentityFromContext :: "Context \<Rightarrow> Identity option" where
  "IdentityFromContext ctx = cx_Identity ctx"

definition zero_identity :: Identity where
  "zero_identity = \<lparr>idn_Subject = [], idn_Tenant = [], idn_Capabilities = [], idn_Attributes = []\<rparr>"

definition HasCapability :: "Identity \<Rightarrow> string \<Rightarrow> bool" where
  "HasCapability i capability = list_ex (\<lambda>held. held = capability) (idn_Capabilities i)"

definition Allow :: Decision where "Allow = \<lparr>dc_Allowed = True, dc_Reason = []\<rparr>"

definition Deny :: "string \<Rightarrow> Decision" where
  "Deny reason = \<lparr>dc_Allowed = False, dc_Reason = reason\<rparr>"

type_synonym Policy = "(Context \<Rightarrow> Identity \<Rightarrow> string \<Rightarrow> Resource \<Rightarrow> Decision) option"

definition AllowAllPolicy :: Policy where
  "AllowAllPolicy = Some (\<lambda>_ _ _ _. Allow)"

definition ActionStorageRead :: string where "ActionStorageRead = ''storage.read''"
definition ActionStorageWrite :: string where "ActionStorageWrite = ''storage.write''"
definition ResourceKindThread :: string where "ResourceKindThread = ''thread''"
definition ResourceKindMessage :: string where "ResourceKindMessage = ''message''"
definition ResourceKindWorkflowRun :: string where "ResourceKindWorkflowRun = ''workflow_run''"
definition ResourceKindWorkflowSnapshot :: string where "ResourceKindWorkflowSnapshot = ''workflow_snapshot''"
definition ResourceKindSchedule :: string where "ResourceKindSchedule = ''schedule''"
definition ResourceKindWorkingMemory :: string where "ResourceKindWorkingMemory = ''working_memory''"

definition resource :: "string \<Rightarrow> string \<Rightarrow> string \<Rightarrow> string \<Rightarrow> Resource" where
  "resource kind ident tenant owner =
     \<lparr>rs_Kind = kind, rs_ID = ident, rs_Tenant = tenant, rs_OwnerID = owner, rs_Attributes = []\<rparr>"

definition caller :: "Context \<Rightarrow> Identity" where
  "caller ctx = (case IdentityFromContext ctx of None \<Rightarrow> zero_identity | Some i \<Rightarrow> i)"

definition authorize :: "Context \<Rightarrow> Policy \<Rightarrow> string \<Rightarrow> Resource \<Rightarrow> go_error option" where
  "authorize ctx policy action res = (case policy of None \<Rightarrow> None
     | Some decide \<Rightarrow> let identity = caller ctx; decision = decide ctx identity action res in
         if dc_Allowed decision then None
         else Some (PolicyDenial (idn_Subject identity) (idn_Tenant identity) action res (dc_Reason decision)))"

lemma authorize_denial:
  "authorize ctx policy action res = Some e \<Longrightarrow> errors_Is e ErrPolicyDenied"
  by (auto simp: authorize_def Let_def split: option.splits if_splits)

lemma authorize_nil [simp]: "authorize ctx None action res = None"
  by (simp add: authorize_def)

lemma authorize_all [simp]: "authorize ctx AllowAllPolicy action res = None"
  by (simp add: authorize_def AllowAllPolicy_def Allow_def)

end
