(* ===== verification/Pagination.thy ===== *)
theory Pagination
  imports Records
begin

text \<open>
  Cursor pagination: \<^verbatim>\<open>paginate\<close> of \<^verbatim>\<open>memory_storage.go\<close>, which every list operation of the
  store ends in, and the loop its clients run (\<^verbatim>\<open>Scheduler.loadDue\<close>, \<^verbatim>\<open>AggregateModelCosts\<close>,
  \<^verbatim>\<open>listThreadMessages\<close>): fetch a page, keep its records, follow \<^verbatim>\<open>NextCursor\<close> until it is
  empty. The locale \<open>cursor_source\<close> is the contract between them; its client lemma says the loop ends
  and returns exactly the listed records, in order and once each.
\<close>

section \<open>paginate\<close>

definition page_start :: "string \<Rightarrow> int result" where
  "page_start cursor = (if cursor = [] then Inr 0
     else case atoi cursor of None \<Rightarrow> Inl ErrInvalidPage
       | Some start \<Rightarrow> if start < 0 then Inl ErrInvalidPage else Inr start)"

definition page_limit :: "int \<Rightarrow> int" where
  "page_limit limit = (if limit = 0 then 100 else limit)"

definition paginate :: "'a list \<Rightarrow> PageRequest \<Rightarrow> ('a \<Rightarrow> 'a) \<Rightarrow> 'a Page result" where
  "paginate records request cloneRecord = (case page_start (pr_Cursor request) of Inl e \<Rightarrow> Inl e
     | Inr start \<Rightarrow> let limit = page_limit (pr_Limit request); len = int (length records) in
         if limit < 0 then Inl ErrInvalidPage
         else if len \<le> start then Inr \<lparr>pg_Records = [], pg_NextCursor = []\<rparr>
         else let stop = (if limit < len - start then start + limit else len) in
           Inr \<lparr>pg_Records = map cloneRecord (drop (nat start) (take (nat stop) records)),
                pg_NextCursor = (if stop < len then itoa stop else [])\<rparr>)"

section \<open>The client loop\<close>

partial_function (option) collect_pages ::
  "(PageRequest \<Rightarrow> 'a Page result) \<Rightarrow> int \<Rightarrow> string \<Rightarrow> 'a list \<Rightarrow> 'a list result option" where
  "collect_pages fetch limit cursor acc =
     (case fetch \<lparr>pr_Cursor = cursor, pr_Limit = limit\<rparr> of Inl e \<Rightarrow> Some (Inl e)
      | Inr page \<Rightarrow> if pg_NextCursor page = [] then Some (Inr (acc @ pg_Records page))
          else collect_pages fetch limit (pg_NextCursor page) (acc @ pg_Records page))"

locale cursor_source =
  fixes fetch :: "PageRequest \<Rightarrow> 'a Page result"
    and content :: "'a list"
    and pos :: "string \<Rightarrow> nat option"
  assumes pos_start: "pos [] = Some 0"
    and fetch_page: "int (length content) \<le> max_int64 \<Longrightarrow> 0 \<le> limit \<Longrightarrow> pos c = Some k \<Longrightarrow>
      \<exists>m next. fetch \<lparr>pr_Cursor = c, pr_Limit = limit\<rparr> =
          Inr \<lparr>pg_Records = take m (drop k content), pg_NextCursor = next\<rparr>
        \<and> (next = [] \<longrightarrow> length content \<le> k + m)
        \<and> (next \<noteq> [] \<longrightarrow> 0 < m \<and> k + m < length content \<and> pos next = Some (k + m))"
begin

lemma collect_from:
  assumes "int (length content) \<le> max_int64" "0 \<le> limit" "pos c = Some k"
  shows "collect_pages fetch limit c acc = Some (Inr (acc @ drop k content))"
  using assms(3)
proof (induction "length content - k" arbitrary: c k acc rule: less_induct)
  case less
  from fetch_page [OF assms(1,2) less.prems] obtain m nxt where
    f: "fetch \<lparr>pr_Cursor = c, pr_Limit = limit\<rparr> =
          Inr \<lparr>pg_Records = take m (drop k content), pg_NextCursor = nxt\<rparr>"
    and last: "nxt = [] \<Longrightarrow> length content \<le> k + m"
    and more: "nxt \<noteq> [] \<Longrightarrow> 0 < m \<and> k + m < length content \<and> pos nxt = Some (k + m)"
    by blast
  show ?case
  proof (cases "nxt = []")
    case True
    then show ?thesis
      using last by (subst collect_pages.simps) (simp add: f)
  next
    case False
    have "drop k content = take m (drop k content) @ drop (k + m) content"
      by (metis append_take_drop_id drop_drop add.commute)
    moreover have "length content - (k + m) < length content - k"
      using more [OF False] by linarith
    ultimately show ?thesis
      using False more [OF False] less.hyps [of "k + m" nxt "acc @ take m (drop k content)"]
      by (subst collect_pages.simps) (simp add: f)
  qed
qed

lemma collect_all:
  "int (length content) \<le> max_int64 \<Longrightarrow> 0 \<le> limit
     \<Longrightarrow> collect_pages fetch limit [] [] = Some (Inr content)"
  using collect_from [OF _ _ pos_start] by simp

end

section \<open>paginate provides the contract\<close>

definition cursor_pos :: "string \<Rightarrow> nat option" where
  "cursor_pos c = (case page_start c of Inl e \<Rightarrow> None | Inr k \<Rightarrow> Some (nat k))"

lemma page_start_itoa: "0 \<le> k \<Longrightarrow> in_int64 k \<Longrightarrow> page_start (itoa k) = Inr k"
  by (simp add: page_start_def atoi_itoa)

lemma page_start_nonneg: "page_start c = Inr k \<Longrightarrow> 0 \<le> k"
  by (auto simp: page_start_def split: if_splits option.splits)

lemma paginate_in_range:
  assumes "page_start c = Inr (int k)" "0 \<le> limit" "k < length xs"
  shows "paginate xs \<lparr>pr_Cursor = c, pr_Limit = limit\<rparr> cl =
    (let m = min (nat (page_limit limit)) (length xs - k) in
     Inr \<lparr>pg_Records = take m (drop k (map cl xs)),
          pg_NextCursor = (if k + m < length xs then itoa (int (k + m)) else [])\<rparr>)"
proof (cases "page_limit limit < int (length xs) - int k")
  case True
  moreover have "0 \<le> page_limit limit" using assms(2) by (simp add: page_limit_def)
  ultimately show ?thesis
    using assms by (simp add: paginate_def Let_def take_map drop_map drop_take nat_add_distrib)
next
  case False
  moreover have "0 \<le> page_limit limit" using assms(2) by (simp add: page_limit_def)
  ultimately show ?thesis
    using assms by (simp add: paginate_def Let_def take_map drop_map drop_take min_absorb2 nat_le_iff)
qed

interpretation paged: cursor_source "\<lambda>req. paginate xs req cl" "map cl xs" cursor_pos
  for xs :: "'a list" and cl :: "'a \<Rightarrow> 'a"
proof
  show "cursor_pos [] = Some 0" by (simp add: cursor_pos_def page_start_def)
next
  fix limit :: int and c k
  assume len: "int (length (map cl xs)) \<le> max_int64" and l: "0 \<le> limit" and p: "cursor_pos c = Some k"
  then have st: "page_start c = Inr (int k)"
    by (auto simp: cursor_pos_def page_start_nonneg split: sum.splits)
  show "\<exists>m next. paginate xs \<lparr>pr_Cursor = c, pr_Limit = limit\<rparr> cl =
          Inr \<lparr>pg_Records = take m (drop k (map cl xs)), pg_NextCursor = next\<rparr>
        \<and> (next = [] \<longrightarrow> length (map cl xs) \<le> k + m)
        \<and> (next \<noteq> [] \<longrightarrow> 0 < m \<and> k + m < length (map cl xs) \<and> cursor_pos next = Some (k + m))"
  proof (cases "k < length xs")
    case True
    define m where "m = min (nat (page_limit limit)) (length xs - k)"
    have m: "0 < m" using True l by (simp add: m_def page_limit_def)
    have "in_int64 (int (k + m))" if "k + m < length xs"
      using that len by (simp add: in_int64_def min_int64_def)
    with m True show ?thesis
      by (intro exI [of _ m] exI [of _ "if k + m < length xs then itoa (int (k + m)) else []"])
         (auto simp: paginate_in_range [OF st l True] m_def [symmetric] Let_def cursor_pos_def page_start_itoa)
  next
    case False
    with l st show ?thesis
      by (intro exI [of _ 0] exI [of _ "[]"]) (simp add: paginate_def page_limit_def Let_def)
  qed
qed


text \<open>C11 pagination_complete: following \<^verbatim>\<open>NextCursor\<close> from the first page, with any accepted limit, ends and
  yields every listed record exactly once and in order.\<close>

theorem pagination_complete:
  assumes "int (length xs) \<le> max_int64" "0 \<le> limit"
  shows "collect_pages (\<lambda>req. paginate xs req cloneRecord) limit [] [] = Some (Inr (map cloneRecord xs))"
  using assms by (intro paged.collect_all) simp_all

theorem pagination_complete_witness:
  "collect_pages (\<lambda>req. paginate [10, 20, 30, 40, 50 :: int] req (\<lambda>v. v)) 2 [] []
     = Some (Inr [10, 20, 30, 40, 50])"
  using pagination_complete [of "[10, 20, 30, 40, 50 :: int]" 2 "\<lambda>v. v"] by (simp add: max_int64_def)


end
