(* ===== verification/Store_State.thy ===== *)
theory Store_State
  imports Authz Pagination
begin

text \<open>
  The state of the in-memory store (\<^verbatim>\<open>memoryState\<close> in \<^verbatim>\<open>memory_storage.go\<close>): fifteen Go maps.
  A set of IDs (\<^verbatim>\<open>map[string]struct{}\<close>) is the list of its elements. Every operation of the store
  returns the new state and the error, because a few of them touch the maps before they fail.
  The well-formedness invariant is stated per group of maps, so that each component keeps its own part.
\<close>

record memoryState =
  threads :: "(string, ThreadRecord) gomap"
  messages :: "(string, MessageRecord list) gomap"
  runs :: "(string, WorkflowRunRecord) gomap"
  snapshots :: "(string, WorkflowSnapshotRecord list) gomap"
  snapshotIDs :: "(string, string list) gomap"
  schedules :: "(string, ScheduleRecord) gomap"
  executions :: "(string, ScheduleExecutionRecord list) gomap"
  executionIDs :: "(string, string list) gomap"
  workingMemory :: "(string, WorkingMemoryFact) gomap"
  events :: "(string, RunEventRecord list) gomap"
  eventIDs :: "(string, string list) gomap"
  attempts :: "(string, ModelAttemptRecord list) gomap"
  attemptIDs :: "(string, string list) gomap"
  toolExecs :: "(string, ToolExecutionRecord list) gomap"
  toolExecIDs :: "(string, string list) gomap"

type_synonym outcome = "memoryState \<times> go_error option"

definition newMemoryState :: memoryState where
  "newMemoryState = \<lparr>threads = [], messages = [], runs = [], snapshots = [], snapshotIDs = [],
     schedules = [], executions = [], executionIDs = [], workingMemory = [], events = [], eventIDs = [],
     attempts = [], attemptIDs = [], toolExecs = [], toolExecIDs = []\<rparr>"

definition map_values :: "('v \<Rightarrow> 'v) \<Rightarrow> ('k, 'v) gomap \<Rightarrow> ('k, 'v) gomap" where
  "map_values f m = map (\<lambda>(k, v). (k, f v)) m"

definition cloneMemoryState :: "memoryState \<Rightarrow> memoryState" where
  "cloneMemoryState s = \<lparr>
     threads = map_values cloneThreadRecord (threads s),
     messages = map_values (map cloneMessageRecord) (messages s),
     runs = map_values cloneWorkflowRunRecord (runs s),
     snapshots = map_values (map cloneWorkflowSnapshotRecord) (snapshots s),
     snapshotIDs = snapshotIDs s,
     schedules = map_values cloneScheduleRecord (schedules s),
     executions = map_values (map cloneScheduleExecutionRecord) (executions s),
     executionIDs = executionIDs s,
     workingMemory = map_values cloneWorkingMemoryFact (workingMemory s),
     events = map_values (map cloneRunEventRecord) (events s),
     eventIDs = eventIDs s,
     attempts = map_values (map cloneModelAttemptRecord) (attempts s),
     attemptIDs = attemptIDs s,
     toolExecs = map_values (map cloneToolExecutionRecord) (toolExecs s),
     toolExecIDs = toolExecIDs s\<rparr>"

text \<open>An update applied when the checks pass; the state is untouched when one fails.\<close>

definition commit_if :: "go_error option \<Rightarrow> memoryState \<Rightarrow> memoryState \<Rightarrow> outcome" where
  "commit_if c s s' = (case c of None \<Rightarrow> (s', None) | Some e \<Rightarrow> (s, Some e))"

lemma commit_if_eq [simp]:
  "commit_if None s s' = (s', None)" "commit_if (Some e) s s' = (s, Some e)"
  "snd (commit_if c s s') = c" "(fst (commit_if c s s') = s') = (c = None \<or> s = s')"
  "fst (commit_if c s s') = (if c = None then s' else s)"
  by (auto simp: commit_if_def split: option.splits)

lemma commit_if_same [simp]: "commit_if c s s = (s, c)"
  by (cases c) simp_all

lemma commit_if_None: "commit_if c s s' = (t, None) \<longleftrightarrow> c = None \<and> t = s'"
  by (auto simp: commit_if_def split: option.splits)

section \<open>Binary search\<close>

text \<open>\<^verbatim>\<open>sort.Search\<close>: the loop of the standard library.\<close>

function search_loop :: "(nat \<Rightarrow> bool) \<Rightarrow> nat \<Rightarrow> nat \<Rightarrow> nat" where
  "search_loop f i j = (if i < j then
      (let h = (i + j) div 2 in if \<not> f h then search_loop f (h + 1) j else search_loop f i h)
    else i)"
  by pat_completeness auto
termination
  by (relation "measure (\<lambda>(f, i, j). j - i)") auto

declare search_loop.simps [simp del]

definition sort_Search :: "nat \<Rightarrow> (nat \<Rightarrow> bool) \<Rightarrow> nat" where
  "sort_Search n f = search_loop f 0 n"

lemma search_loop_least:
  fixes f :: "nat \<Rightarrow> bool"
  assumes mono: "\<And>a b. a \<le> b \<Longrightarrow> b < n \<Longrightarrow> f a \<Longrightarrow> f b"
  shows "i \<le> j \<Longrightarrow> j \<le> n \<Longrightarrow> (\<forall>k < i. \<not> f k) \<Longrightarrow> (j < n \<longrightarrow> f j) \<Longrightarrow>
    search_loop f i j \<le> n \<and> (\<forall>k < search_loop f i j. \<not> f k) \<and> (search_loop f i j < n \<longrightarrow> f (search_loop f i j))"
proof (induction "j - i" arbitrary: i j rule: less_induct)
  case less
  show ?case
  proof (cases "i < j")
    case True
    define h where "h = (i + j) div 2"
    have h: "i \<le> h" "h < j" "h < n" using True less.prems by (simp_all add: h_def)
    have lo: "\<forall>k < h + 1. \<not> f k" if "\<not> f h"
      using that mono [of _ h] h by (auto simp: less_Suc_eq_le)
    show ?thesis
    proof (cases "f h")
      case True
      with less.hyps [of h i] h less.prems \<open>i < j\<close> show ?thesis
        by (subst (1 2 3 4) search_loop.simps) (simp add: Let_def h_def [symmetric])
    next
      case False
      with less.hyps [of j "h + 1"] h less.prems \<open>i < j\<close> lo show ?thesis
        by (subst (1 2 3 4) search_loop.simps) (simp add: Let_def h_def [symmetric])
    qed
  next
    case False
    with less.prems show ?thesis by (subst (1 2 3 4) search_loop.simps) auto
  qed
qed

lemma sort_Search_sorted:
  fixes q :: "'a \<Rightarrow> int" and v :: int
  assumes "sorted_wrt (<) (map q xs)"
  defines "r \<equiv> sort_Search (length xs) (\<lambda>i. v \<le> q (xs ! i))"
  shows "r \<le> length xs" "x \<in> set (take r xs) \<Longrightarrow> q x < v" "x \<in> set (drop r xs) \<Longrightarrow> v \<le> q x"
proof -
  have mono: "\<And>a b. a \<le> b \<Longrightarrow> b < length xs \<Longrightarrow> v \<le> q (xs ! a) \<Longrightarrow> v \<le> q (xs ! b)"
    using assms(1) by (force simp: sorted_wrt_iff_nth_less le_less)
  have r: "r \<le> length xs" "\<forall>k < r. \<not> v \<le> q (xs ! k)" "r < length xs \<longrightarrow> v \<le> q (xs ! r)"
    using search_loop_least [of "length xs" "\<lambda>i. v \<le> q (xs ! i)" 0 "length xs"] mono by (auto simp: r_def sort_Search_def)
  show "r \<le> length xs" by (rule r(1))
  show "q x < v" if "x \<in> set (take r xs)"
    using that r by (auto simp: in_set_conv_nth not_le)
  show "v \<le> q x" if "x \<in> set (drop r xs)"
  proof -
    from that obtain k where k: "r + k < length xs" "x = xs ! (r + k)"
      using r(1) by (auto simp: in_set_conv_nth less_diff_conv add.commute)
    then show ?thesis using mono [of r "r + k"] r by auto
  qed
qed

section \<open>The invariant\<close>

text \<open>Threads are stored under their IDs; messages belong to existing threads and have unique IDs.\<close>

definition transcript_ok :: "(string, ThreadRecord) gomap \<Rightarrow> (string, MessageRecord list) gomap \<Rightarrow> bool" where
  "transcript_ok ts ms \<longleftrightarrow> gm_ok ts \<and> gm_ok ms
     \<and> (\<forall>t v. mget ts t = Some v \<longrightarrow> th_ID v = t \<and> t \<noteq> [])
     \<and> (\<forall>t. mslice ms t \<noteq> [] \<longrightarrow> mget ts t \<noteq> None)
     \<and> (\<forall>t. distinct (map mr_ID (mslice ms t)))
     \<and> (\<forall>t. \<forall>m \<in> set (mslice ms t). mr_ThreadID m = t \<and> mr_ID m \<noteq> [] \<and> Message_Validate (mr_Message m) = None)"

lemma transcript_okI:
  assumes "gm_ok ts" "gm_ok ms" "\<And>t v. mget ts t = Some v \<Longrightarrow> th_ID v = t \<and> t \<noteq> []"
    "\<And>t. mslice ms t \<noteq> [] \<Longrightarrow> mget ts t \<noteq> None" "\<And>t. distinct (map mr_ID (mslice ms t))"
    "\<And>t m. m \<in> set (mslice ms t) \<Longrightarrow>
       mr_ThreadID m = t \<and> mr_ID m \<noteq> [] \<and> Message_Validate (mr_Message m) = None"
  shows "transcript_ok ts ms"
  unfolding transcript_ok_def by (intro conjI allI impI ballI) (simp_all add: assms)

lemma transcript_okD:
  assumes "transcript_ok ts ms"
  shows "gm_ok ts" "gm_ok ms" "mget ts t = Some v \<Longrightarrow> th_ID v = t \<and> t \<noteq> []"
    "mslice ms t \<noteq> [] \<Longrightarrow> mget ts t \<noteq> None" "distinct (map mr_ID (mslice ms t))"
    "m \<in> set (mslice ms t) \<Longrightarrow>
       mr_ThreadID m = t \<and> mr_ID m \<noteq> [] \<and> Message_Validate (mr_Message m) = None"
  using assms by (simp_all add: transcript_ok_def)

text \<open>Snapshots belong to existing runs, are strictly ordered by sequence, and their ID index is exact.\<close>

definition workflow_ok :: "(string, WorkflowRunRecord) gomap \<Rightarrow> (string, WorkflowSnapshotRecord list) gomap
    \<Rightarrow> (string, string list) gomap \<Rightarrow> bool" where
  "workflow_ok rs sns ids \<longleftrightarrow> gm_ok rs \<and> gm_ok sns \<and> gm_ok ids
     \<and> (\<forall>r v. mget rs r = Some v \<longrightarrow> wr_ID v = r \<and> r \<noteq> [])
     \<and> (\<forall>r. mslice sns r \<noteq> [] \<longrightarrow> mget rs r \<noteq> None)
     \<and> (\<forall>r. sorted_wrt (<) (map sn_Sequence (mslice sns r)))
     \<and> (\<forall>r. distinct (map sn_ID (mslice sns r)))
     \<and> (\<forall>r. set (mslice ids r) = sn_ID ` set (mslice sns r))
     \<and> (\<forall>r. \<forall>v \<in> set (mslice sns r). sn_RunID v = r)"

lemma workflow_okI:
  assumes "gm_ok rs" "gm_ok sns" "gm_ok ids" "\<And>r v. mget rs r = Some v \<Longrightarrow> wr_ID v = r \<and> r \<noteq> []"
    "\<And>r. mslice sns r \<noteq> [] \<Longrightarrow> mget rs r \<noteq> None"
    "\<And>r. sorted_wrt (<) (map sn_Sequence (mslice sns r))" "\<And>r. distinct (map sn_ID (mslice sns r))"
    "\<And>r. set (mslice ids r) = sn_ID ` set (mslice sns r)"
    "\<And>r v. v \<in> set (mslice sns r) \<Longrightarrow> sn_RunID v = r"
  shows "workflow_ok rs sns ids"
  unfolding workflow_ok_def by (intro conjI allI impI ballI) (simp_all add: assms)

lemma workflow_okD:
  assumes "workflow_ok rs sns ids"
  shows "gm_ok rs" "gm_ok sns" "gm_ok ids" "mget rs r = Some v \<Longrightarrow> wr_ID v = r \<and> r \<noteq> []"
    "mslice sns r \<noteq> [] \<Longrightarrow> mget rs r \<noteq> None"
    "sorted_wrt (<) (map sn_Sequence (mslice sns r))" "distinct (map sn_ID (mslice sns r))"
    "set (mslice ids r) = sn_ID ` set (mslice sns r)"
    "w \<in> set (mslice sns r) \<Longrightarrow> sn_RunID w = r"
  using assms by (simp_all add: workflow_ok_def)

text \<open>Executions belong to existing schedules, with unique IDs and an exact ID index.\<close>

definition schedule_ok :: "(string, ScheduleRecord) gomap \<Rightarrow> (string, ScheduleExecutionRecord list) gomap
    \<Rightarrow> (string, string list) gomap \<Rightarrow> bool" where
  "schedule_ok sds exs ids \<longleftrightarrow> gm_ok sds \<and> gm_ok exs \<and> gm_ok ids
     \<and> (\<forall>k v. mget sds k = Some v \<longrightarrow> sd_ID v = k \<and> k \<noteq> [])
     \<and> (\<forall>k. mslice exs k \<noteq> [] \<longrightarrow> mget sds k \<noteq> None)
     \<and> (\<forall>k. distinct (map se_ID (mslice exs k)))
     \<and> (\<forall>k. set (mslice ids k) = se_ID ` set (mslice exs k))
     \<and> (\<forall>k. \<forall>v \<in> set (mslice exs k). se_ScheduleID v = k)"

lemma schedule_okI:
  assumes "gm_ok sds" "gm_ok exs" "gm_ok ids" "\<And>k v. mget sds k = Some v \<Longrightarrow> sd_ID v = k \<and> k \<noteq> []"
    "\<And>k. mslice exs k \<noteq> [] \<Longrightarrow> mget sds k \<noteq> None" "\<And>k. distinct (map se_ID (mslice exs k))"
    "\<And>k. set (mslice ids k) = se_ID ` set (mslice exs k)"
    "\<And>k v. v \<in> set (mslice exs k) \<Longrightarrow> se_ScheduleID v = k"
  shows "schedule_ok sds exs ids"
  unfolding schedule_ok_def by (intro conjI allI impI ballI) (simp_all add: assms)

lemma schedule_okD:
  assumes "schedule_ok sds exs ids"
  shows "gm_ok sds" "gm_ok exs" "gm_ok ids" "mget sds k = Some v \<Longrightarrow> sd_ID v = k \<and> k \<noteq> []"
    "mslice exs k \<noteq> [] \<Longrightarrow> mget sds k \<noteq> None" "distinct (map se_ID (mslice exs k))"
    "set (mslice ids k) = se_ID ` set (mslice exs k)"
    "w \<in> set (mslice exs k) \<Longrightarrow> se_ScheduleID w = k"
  using assms by (simp_all add: schedule_ok_def)

text \<open>A log of records grouped by run, with unique IDs per run and an exact ID index.\<close>

definition log_ok :: "('r \<Rightarrow> string) \<Rightarrow> ('r \<Rightarrow> string) \<Rightarrow> (string, 'r list) gomap
    \<Rightarrow> (string, string list) gomap \<Rightarrow> bool" where
  "log_ok run_of id_of items ids \<longleftrightarrow> gm_ok items \<and> gm_ok ids
     \<and> (\<forall>r. mget ids r = None \<longrightarrow> mslice items r = [])
     \<and> (\<forall>r. distinct (map id_of (mslice items r)))
     \<and> (\<forall>r. set (mslice ids r) = id_of ` set (mslice items r))
     \<and> (\<forall>r. \<forall>v \<in> set (mslice items r). run_of v = r)"

lemma log_okI:
  assumes "gm_ok items" "gm_ok ids" "\<And>r. mget ids r = None \<Longrightarrow> mslice items r = []"
    "\<And>r. distinct (map id_of (mslice items r))" "\<And>r. set (mslice ids r) = id_of ` set (mslice items r)"
    "\<And>r v. v \<in> set (mslice items r) \<Longrightarrow> run_of v = r"
  shows "log_ok run_of id_of items ids"
  unfolding log_ok_def by (intro conjI allI impI ballI) (simp_all add: assms)

lemma log_okD:
  assumes "log_ok run_of id_of items ids"
  shows "gm_ok items" "gm_ok ids" "mget ids r = None \<Longrightarrow> mslice items r = []"
    "distinct (map id_of (mslice items r))" "set (mslice ids r) = id_of ` set (mslice items r)"
    "v \<in> set (mslice items r) \<Longrightarrow> run_of v = r"
  using assms by (simp_all add: log_ok_def)

definition workingMemoryMapKey :: "string \<Rightarrow> string \<Rightarrow> string \<Rightarrow> string" where
  "workingMemoryMapKey namespace owner key = namespace @ [CHR 0x00] @ owner @ [CHR 0x00] @ key"

definition facts_ok :: "(string, WorkingMemoryFact) gomap \<Rightarrow> bool" where
  "facts_ok wm \<longleftrightarrow> gm_ok wm
     \<and> (\<forall>k v. mget wm k = Some v \<longrightarrow> k = workingMemoryMapKey (wm_Namespace v) (wm_OwnerID v) (wm_Key v)
          \<and> wm_Namespace v \<noteq> [] \<and> wm_OwnerID v \<noteq> [] \<and> wm_Key v \<noteq> [] \<and> wm_ID v \<noteq> [])"

definition store_ok :: "memoryState \<Rightarrow> bool" where
  "store_ok s \<longleftrightarrow> transcript_ok (threads s) (messages s)
     \<and> workflow_ok (runs s) (snapshots s) (snapshotIDs s)
     \<and> schedule_ok (schedules s) (executions s) (executionIDs s)
     \<and> facts_ok (workingMemory s)
     \<and> log_ok ev_RunID ev_ID (events s) (eventIDs s)
     \<and> log_ok at_RunID at_ID (attempts s) (attemptIDs s)
     \<and> log_ok te_RunID te_ID (toolExecs s) (toolExecIDs s)"

lemma store_ok_new: "store_ok newMemoryState"
  by (simp add: store_ok_def newMemoryState_def transcript_ok_def workflow_ok_def schedule_ok_def
      facts_ok_def log_ok_def)

section \<open>Copying the state\<close>

lemma mget_map_values [gomap_simps, simp]: "mget (map_values f m) k = map_option f (mget m k)"
  by (induction m) (auto simp: map_values_def mget_def)

lemma mslice_map_values [gomap_simps, simp]: "mslice (map_values (map f) m) k = map f (mslice m k)"
  by (simp add: mslice_def split: option.split)

lemma gm_ok_map_values [simp]: "gm_ok (map_values f m) = gm_ok m"
  by (simp add: gm_ok_def map_values_def case_prod_unfold comp_def)

lemma clone_log_ids [clone_simps, simp]:
  "ev_ID (cloneRunEventRecord e) = ev_ID e" "ev_RunID (cloneRunEventRecord e) = ev_RunID e"
  "at_ID (cloneModelAttemptRecord a) = at_ID a" "at_RunID (cloneModelAttemptRecord a) = at_RunID a"
  "te_ID (cloneToolExecutionRecord t) = te_ID t" "te_RunID (cloneToolExecutionRecord t) = te_RunID t"
  by (simp_all add: cloneRunEventRecord_def cloneModelAttemptRecord_def cloneToolExecutionRecord_def)

lemma log_ok_clone:
  assumes "log_ok run_of id_of items ids" "\<And>v. run_of (f v) = run_of v" "\<And>v. id_of (f v) = id_of v"
  shows "log_ok run_of id_of (map_values (map f) items) ids"
  using assms by (auto simp: log_ok_def comp_def image_image)

lemma store_ok_clone: "store_ok s \<Longrightarrow> store_ok (cloneMemoryState s)"
  unfolding store_ok_def cloneMemoryState_def
  by (auto simp: transcript_ok_def workflow_ok_def schedule_ok_def facts_ok_def comp_def image_image
      intro!: log_ok_clone)

end
