(* ===== verification/Store_Logs.thy ===== *)
theory Store_Logs
  imports Store_State "HOL-Library.Sublist"
begin

text \<open>
  The observability logs of the in-memory store: run events, model attempts and tool executions
  (\<^verbatim>\<open>appendRunEvents\<close> to \<^verbatim>\<open>listToolExecutions\<close> in \<^verbatim>\<open>memory_storage.go\<close>). The three append
  operations run the same loop on different record types; \<open>log_step\<close> is that loop's body and the locale
  \<open>keyed_log\<close> states what a log promises its clients, proved once and interpreted for each of the three.
\<close>

section \<open>The append loop\<close>

definition log_step :: "('r \<Rightarrow> string) \<Rightarrow> ('r \<Rightarrow> string) \<Rightarrow> ('r \<Rightarrow> 'r)
    \<Rightarrow> (string, 'r list) gomap \<times> (string, string list) gomap \<Rightarrow> 'r
    \<Rightarrow> (string, 'r list) gomap \<times> (string, string list) gomap" where
  "log_step run_of id_of copy st v =
     (let (items, ids) = (if mget (snd st) (run_of v) = None
            then (mset_at (run_of v) [] (fst st), mset_at (run_of v) [] (snd st)) else st) in
      if id_of v \<in> set (mslice ids (run_of v)) then (items, ids)
      else (mset_at (run_of v) (mslice items (run_of v) @ [copy v]) items,
            mset_at (run_of v) (id_of v # mslice ids (run_of v)) ids))"

definition log_append :: "('r \<Rightarrow> string) \<Rightarrow> ('r \<Rightarrow> string) \<Rightarrow> ('r \<Rightarrow> 'r)
    \<Rightarrow> (string, 'r list) gomap \<times> (string, string list) gomap \<Rightarrow> 'r list
    \<Rightarrow> (string, 'r list) gomap \<times> (string, string list) gomap" where
  "log_append run_of id_of copy = foldl (log_step run_of id_of copy)"

definition appendRunEvents :: "Context \<Rightarrow> memoryState \<Rightarrow> RunEventRecord list \<Rightarrow> outcome" where
  "appendRunEvents ctx s vs = commit_if (first_err [cx_Err ctx, first_err (map validateRunEventRecord vs)]) s
     (case log_append ev_RunID ev_ID cloneRunEventRecord (events s, eventIDs s) vs of
        (items, ids) \<Rightarrow> s\<lparr>events := items, eventIDs := ids\<rparr>)"

definition saveModelAttempts :: "Context \<Rightarrow> memoryState \<Rightarrow> ModelAttemptRecord list \<Rightarrow> outcome" where
  "saveModelAttempts ctx s vs = commit_if (first_err [cx_Err ctx, first_err (map validateModelAttemptRecord vs)]) s
     (case log_append at_RunID at_ID cloneModelAttemptRecord (attempts s, attemptIDs s) vs of
        (items, ids) \<Rightarrow> s\<lparr>attempts := items, attemptIDs := ids\<rparr>)"

definition saveToolExecutions :: "Context \<Rightarrow> memoryState \<Rightarrow> ToolExecutionRecord list \<Rightarrow> outcome" where
  "saveToolExecutions ctx s vs = commit_if (first_err [cx_Err ctx, first_err (map validateToolExecutionRecord vs)]) s
     (case log_append te_RunID te_ID cloneToolExecutionRecord (toolExecs s, toolExecIDs s) vs of
        (items, ids) \<Rightarrow> s\<lparr>toolExecs := items, toolExecIDs := ids\<rparr>)"

section \<open>Listing\<close>

definition orderedRunIDs :: "(string, 'v list) gomap \<Rightarrow> string list" where
  "orderedRunIDs byRun = sort (mkeys byRun)"

definition runEventMatchesFilter :: "RunEventFilter \<Rightarrow> RunEventRecord \<Rightarrow> bool" where
  "runEventMatchesFilter flt e \<longleftrightarrow>
     \<not> (ef_ThreadID flt \<noteq> [] \<and> ev_ThreadID e \<noteq> ef_ThreadID flt)
     \<and> \<not> (ef_Namespace flt \<noteq> [] \<and> ev_Namespace e \<noteq> ef_Namespace flt)
     \<and> \<not> (ef_OwnerID flt \<noteq> [] \<and> ev_OwnerID e \<noteq> ef_OwnerID flt)
     \<and> \<not> (ef_ExecutionID flt \<noteq> [] \<and> ev_ExecutionID e \<noteq> ef_ExecutionID flt)
     \<and> \<not> (ef_Type flt \<noteq> [] \<and> ev_Type e \<noteq> ef_Type flt)
     \<and> \<not> (ef_Provider flt \<noteq> [] \<and> ev_Provider e \<noteq> ef_Provider flt)
     \<and> \<not> (ef_ToolID flt \<noteq> [] \<and> ev_ToolID e \<noteq> ef_ToolID flt)
     \<and> withinEventRange (ev_Timestamp e) (ef_From flt) (ef_To flt)"

definition event_sort_key :: "RunEventRecord \<Rightarrow> int \<times> string \<times> string" where
  "event_sort_key e = (ev_Sequence e, ev_ExecutionID e, ev_ID e)"

definition matchedRunEvents :: "memoryState \<Rightarrow> RunEventFilter \<Rightarrow> RunEventRecord list" where
  "matchedRunEvents s flt = concat (map (\<lambda>runID.
     if ef_RunID flt \<noteq> [] \<and> runID \<noteq> ef_RunID flt then []
     else sort_key event_sort_key (map cloneRunEventRecord
            (filter (runEventMatchesFilter flt) (mslice (events s) runID)))) (orderedRunIDs (events s)))"

definition listRunEvents :: "Context \<Rightarrow> memoryState \<Rightarrow> RunEventFilter \<Rightarrow> PageRequest \<Rightarrow> RunEventRecord Page result" where
  "listRunEvents ctx s flt p = (case cx_Err ctx of Some e \<Rightarrow> Inl e
     | None \<Rightarrow> paginate (matchedRunEvents s flt) p (\<lambda>v. v))"

definition validCostSource :: "string \<Rightarrow> bool" where
  "validCostSource source \<longleftrightarrow> source \<in> set [[], CostUnavailable, CostProviderReported, CostDeveloperSupplied, CostEstimated]"

definition attemptMatchesFilter :: "ModelAttemptFilter \<Rightarrow> ModelAttemptRecord \<Rightarrow> bool" where
  "attemptMatchesFilter flt a \<longleftrightarrow>
     \<not> (af_ThreadID flt \<noteq> [] \<and> at_ThreadID a \<noteq> af_ThreadID flt)
     \<and> \<not> (af_Namespace flt \<noteq> [] \<and> at_Namespace a \<noteq> af_Namespace flt)
     \<and> \<not> (af_OwnerID flt \<noteq> [] \<and> at_OwnerID a \<noteq> af_OwnerID flt)
     \<and> \<not> (af_ExecutionID flt \<noteq> [] \<and> at_ExecutionID a \<noteq> af_ExecutionID flt)
     \<and> \<not> (af_Provider flt \<noteq> [] \<and> at_Provider a \<noteq> af_Provider flt)
     \<and> \<not> (af_Model flt \<noteq> [] \<and> at_Model a \<noteq> af_Model flt)
     \<and> \<not> (af_Status flt \<noteq> [] \<and> at_Status a \<noteq> af_Status flt)
     \<and> \<not> (\<not> IsZero (af_From flt) \<and> at_StartedAt a < af_From flt)
     \<and> \<not> (\<not> IsZero (af_To flt) \<and> \<not> at_StartedAt a < af_To flt)
     \<and> \<not> (af_CostSource flt \<noteq> [] \<and>
          \<not> list_ex (\<lambda>cost. mc_Source cost = af_CostSource flt) (ac_Costs (at_Accounting a)))"

definition matchedAttempts :: "memoryState \<Rightarrow> ModelAttemptFilter \<Rightarrow> ModelAttemptRecord list" where
  "matchedAttempts s flt = concat (map (\<lambda>runID.
     if af_RunID flt \<noteq> [] \<and> runID \<noteq> af_RunID flt then []
     else map cloneModelAttemptRecord (filter (attemptMatchesFilter flt) (mslice (attempts s) runID)))
     (orderedRunIDs (attempts s)))"

definition listModelAttempts :: "Context \<Rightarrow> memoryState \<Rightarrow> ModelAttemptFilter \<Rightarrow> PageRequest \<Rightarrow> ModelAttemptRecord Page result" where
  "listModelAttempts ctx s flt p = (if \<not> validCostSource (af_CostSource flt)
     then Inl (Errorf ''lebro: invalid model attempt cost source %q'' [af_CostSource flt])
     else case cx_Err ctx of Some e \<Rightarrow> Inl e
       | None \<Rightarrow> paginate (matchedAttempts s flt) p (\<lambda>v. v))"

definition toolExecMatchesFilter :: "ToolExecutionFilter \<Rightarrow> ToolExecutionRecord \<Rightarrow> bool" where
  "toolExecMatchesFilter flt t \<longleftrightarrow>
     \<not> (tf_ThreadID flt \<noteq> [] \<and> te_ThreadID t \<noteq> tf_ThreadID flt)
     \<and> \<not> (tf_Namespace flt \<noteq> [] \<and> te_Namespace t \<noteq> tf_Namespace flt)
     \<and> \<not> (tf_OwnerID flt \<noteq> [] \<and> te_OwnerID t \<noteq> tf_OwnerID flt)
     \<and> \<not> (tf_ExecutionID flt \<noteq> [] \<and> te_ExecutionID t \<noteq> tf_ExecutionID flt)
     \<and> \<not> (tf_ToolID flt \<noteq> [] \<and> te_ToolID t \<noteq> tf_ToolID flt)
     \<and> \<not> (tf_State flt \<noteq> [] \<and> te_State t \<noteq> tf_State flt)"

definition matchedToolExecs :: "memoryState \<Rightarrow> ToolExecutionFilter \<Rightarrow> ToolExecutionRecord list" where
  "matchedToolExecs s flt = concat (map (\<lambda>runID.
     if tf_RunID flt \<noteq> [] \<and> runID \<noteq> tf_RunID flt then []
     else map cloneToolExecutionRecord (filter (toolExecMatchesFilter flt) (mslice (toolExecs s) runID)))
     (orderedRunIDs (toolExecs s)))"

definition listToolExecutions :: "Context \<Rightarrow> memoryState \<Rightarrow> ToolExecutionFilter \<Rightarrow> PageRequest \<Rightarrow> ToolExecutionRecord Page result" where
  "listToolExecutions ctx s flt p = (case cx_Err ctx of Some e \<Rightarrow> Inl e
     | None \<Rightarrow> paginate (matchedToolExecs s flt) p (\<lambda>v. v))"

section \<open>What a log promises\<close>

text \<open>An append only extends a run's records, with copies of what it was given.\<close>

definition log_extends :: "('r \<Rightarrow> string) \<Rightarrow> ('r \<Rightarrow> 'r) \<Rightarrow> (string, 'r list) gomap \<Rightarrow> 'r list
    \<Rightarrow> (string, 'r list) gomap \<Rightarrow> bool" where
  "log_extends run_of copy items vs items' \<longleftrightarrow> (\<forall>r. \<exists>new. mslice items' r = mslice items r @ map copy new
     \<and> set new \<subseteq> {v \<in> set vs. run_of v = r})"

locale keyed_log =
  fixes run_of :: "'r \<Rightarrow> string" and id_of :: "'r \<Rightarrow> string" and copy :: "'r \<Rightarrow> 'r"
  assumes copy_run: "run_of (copy v) = run_of v" and copy_id: "id_of (copy v) = id_of v"
begin

lemma step_ok:
  assumes ok: "log_ok run_of id_of items ids" and st: "log_step run_of id_of copy (items, ids) v = (items', ids')"
  shows "log_ok run_of id_of items' ids'"
proof -
  define i0 where "i0 = (if mget ids (run_of v) = None then mset_at (run_of v) [] ids else ids)"
  define t0 where "t0 = (if mget ids (run_of v) = None then mset_at (run_of v) [] items else items)"
  have ok0: "log_ok run_of id_of t0 i0"
  proof (cases "mget ids (run_of v) = None")
    case True
    show ?thesis
    proof (rule log_okI)
      show "set (mslice i0 r) = id_of ` set (mslice t0 r)" for r
        using True log_okD(5) [OF ok] by (simp add: i0_def t0_def)
      show "run_of w = r" if "w \<in> set (mslice t0 r)" for r w
        using that True log_okD(6) [OF ok] by (auto simp: t0_def split: if_splits)
      show "mslice t0 r = []" if "mget i0 r = None" for r
        using that True log_okD(3) [OF ok, of r] by (auto simp: t0_def i0_def split: if_splits)
    qed (use True log_okD [OF ok] in \<open>auto simp: i0_def t0_def\<close>)
  next
    case False
    then show ?thesis unfolding i0_def t0_def using ok by (simp only: if_False)
  qed
  have eq: "log_step run_of id_of copy (items, ids) v = (if id_of v \<in> set (mslice i0 (run_of v)) then (t0, i0)
      else (mset_at (run_of v) (mslice t0 (run_of v) @ [copy v]) t0,
            mset_at (run_of v) (id_of v # mslice i0 (run_of v)) i0))"
    by (cases "mget ids (run_of v)") (simp_all add: log_step_def i0_def t0_def)
  show ?thesis
  proof (cases "id_of v \<in> set (mslice i0 (run_of v))")
    case True
    then show ?thesis using st ok0 unfolding eq by simp
  next
    case False
    then have e: "items' = mset_at (run_of v) (mslice t0 (run_of v) @ [copy v]) t0"
      "ids' = mset_at (run_of v) (id_of v # mslice i0 (run_of v)) i0"
      using st unfolding eq by simp_all
    have "id_of v \<notin> id_of ` set (mslice t0 (run_of v))"
      using False log_okD(5) [OF ok0] by simp
    then show ?thesis
      unfolding e using log_okD [OF ok0] by (intro log_okI) (auto simp: copy_run copy_id split: if_splits)
  qed
qed

lemma append_ok: "log_ok run_of id_of items ids \<Longrightarrow> log_append run_of id_of copy (items, ids) vs = (items', ids')
   \<Longrightarrow> log_ok run_of id_of items' ids'"
proof (induction vs arbitrary: items ids)
  case (Cons v vs)
  obtain i1 d1 where st: "log_step run_of id_of copy (items, ids) v = (i1, d1)" by (cases "log_step run_of id_of copy (items, ids) v")
  from step_ok [OF Cons.prems(1) st] Cons.IH Cons.prems(2) st show ?case
    by (simp add: log_append_def)
qed (simp add: log_append_def)

text \<open>Known pairs: what the index has.\<close>

lemma step_known:
  "log_step run_of id_of copy st v = st' \<Longrightarrow>
     set (mslice (snd st') r) = set (mslice (snd st) r) \<union> (if r = run_of v then {id_of v} else {})"
  by (cases st) (auto simp: log_step_def Let_def mslice_def split: if_splits option.splits)

lemma step_id:
  "id_of v \<in> set (mslice (snd st) (run_of v)) \<Longrightarrow> log_step run_of id_of copy st v = st"
  by (cases st) (auto simp: log_step_def Let_def mslice_def split: option.splits)

lemma append_known:
  "set (mslice (snd (log_append run_of id_of copy st vs)) r)
     = set (mslice (snd st) r) \<union> id_of ` {v \<in> set vs. run_of v = r}"
proof (induction vs arbitrary: st)
  case (Cons v vs)
  show ?case
    using Cons [of "log_step run_of id_of copy st v"] step_known [of st v, OF refl]
    by (auto simp: log_append_def)
qed (simp add: log_append_def)

lemma append_noop:
  "\<forall>v \<in> set vs. id_of v \<in> set (mslice (snd st) (run_of v)) \<Longrightarrow> log_append run_of id_of copy st vs = st"
  by (induction vs) (auto simp: log_append_def step_id)

lemma append_idem:
  "log_append run_of id_of copy (log_append run_of id_of copy st vs) vs = log_append run_of id_of copy st vs"
  by (rule append_noop) (auto simp: append_known)

lemma step_extends:
  assumes "log_ok run_of id_of items ids"
  shows "log_extends run_of copy items [v] (fst (log_step run_of id_of copy (items, ids) v))"
  unfolding log_extends_def
proof
  fix r
  have "mget ids (run_of v) = None \<Longrightarrow> mslice items (run_of v) = []"
    using log_okD(3) [OF assms] .
  then show "\<exists>new. mslice (fst (log_step run_of id_of copy (items, ids) v)) r = mslice items r @ map copy new
     \<and> set new \<subseteq> {w \<in> set [v]. run_of w = r}"
    by (cases "r = run_of v \<and> id_of v \<notin> set (mslice ids (run_of v))")
       (auto simp: log_step_def Let_def mslice_def [of ids] split: option.splits intro: exI [of _ "[v]"] exI [of _ "[]"])
qed

lemma append_extends:
  "log_ok run_of id_of items ids \<Longrightarrow> log_extends run_of copy items vs (fst (log_append run_of id_of copy (items, ids) vs))"
proof (induction vs arbitrary: items ids)
  case (Cons v vs)
  obtain i1 d1 where st: "log_step run_of id_of copy (items, ids) v = (i1, d1)"
    by (cases "log_step run_of id_of copy (items, ids) v")
  have 1: "log_extends run_of copy items [v] i1" using step_extends [OF Cons.prems, of v] st by simp
  have 2: "log_extends run_of copy i1 vs (fst (log_append run_of id_of copy (i1, d1) vs))"
    using Cons.IH [OF step_ok [OF Cons.prems st]] .
  have "log_extends run_of copy items (v # vs) (fst (log_append run_of id_of copy (i1, d1) vs))"
    unfolding log_extends_def
  proof
    fix r
    from 1 obtain n1 where "mslice i1 r = mslice items r @ map copy n1" "set n1 \<subseteq> {w \<in> set [v]. run_of w = r}"
      unfolding log_extends_def by blast
    moreover from 2 obtain n2 where "mslice (fst (log_append run_of id_of copy (i1, d1) vs)) r = mslice i1 r @ map copy n2"
      "set n2 \<subseteq> {w \<in> set vs. run_of w = r}"
      unfolding log_extends_def by blast
    ultimately show "\<exists>new. mslice (fst (log_append run_of id_of copy (i1, d1) vs)) r = mslice items r @ map copy new
       \<and> set new \<subseteq> {w \<in> set (v # vs). run_of w = r}"
      by (intro exI [of _ "n1 @ n2"]) auto
  qed
  then show ?case using st by (simp add: log_append_def)
qed (simp add: log_append_def log_extends_def)

end

interpretation event_log: keyed_log ev_RunID ev_ID cloneRunEventRecord
  by unfold_locales simp_all

interpretation attempt_log: keyed_log at_RunID at_ID cloneModelAttemptRecord
  by unfold_locales simp_all

interpretation tool_log: keyed_log te_RunID te_ID cloneToolExecutionRecord
  by unfold_locales simp_all

section \<open>Invariant\<close>

lemma appendRunEvents_ok: "store_ok s \<Longrightarrow> store_ok (fst (appendRunEvents ctx s vs))"
  using event_log.append_ok [of "events s" "eventIDs s" vs]
  by (auto simp: appendRunEvents_def store_ok_def split: prod.splits)

lemma saveModelAttempts_ok: "store_ok s \<Longrightarrow> store_ok (fst (saveModelAttempts ctx s vs))"
  using attempt_log.append_ok [of "attempts s" "attemptIDs s" vs]
  by (auto simp: saveModelAttempts_def store_ok_def split: prod.splits)

lemma saveToolExecutions_ok: "store_ok s \<Longrightarrow> store_ok (fst (saveToolExecutions ctx s vs))"
  using tool_log.append_ok [of "toolExecs s" "toolExecIDs s" vs]
  by (auto simp: saveToolExecutions_def store_ok_def split: prod.splits)

lemmas log_ops_ok = appendRunEvents_ok saveModelAttempts_ok saveToolExecutions_ok


section \<open>Ordered listings\<close>

lemma orderedRunIDs_sorted: "gm_ok m \<Longrightarrow> sorted_wrt (<) (orderedRunIDs m)"
  by (simp add: orderedRunIDs_def strict_sorted_iff distinct_mkeys)

lemma set_orderedRunIDs [simp]: "set (orderedRunIDs m) = set (mkeys m)"
  by (simp add: orderedRunIDs_def)

lemma mkeys_mslice: "mslice m k \<noteq> [] \<Longrightarrow> k \<in> set (mkeys m)"
  by (auto simp: mkeys_mget mslice_def split: option.splits)

lemma clone_event_match [simp]:
  "event_sort_key (cloneRunEventRecord e) = event_sort_key e"
  by (simp add: event_sort_key_def cloneRunEventRecord_def)

lemma matchedRunEvents_sorted:
  assumes ok: "log_ok ev_RunID ev_ID (events s) (eventIDs s)"
  shows "sorted_wrt (\<lambda>a b. (ev_RunID a, event_sort_key a) < (ev_RunID b, event_sort_key b)) (matchedRunEvents s flt)"
proof -
  define f where "f = (\<lambda>runID. if ef_RunID flt \<noteq> [] \<and> runID \<noteq> ef_RunID flt then []
     else sort_key event_sort_key (map cloneRunEventRecord
            (filter (runEventMatchesFilter flt) (mslice (events s) runID))))"
  have run: "e \<in> set (f r) \<Longrightarrow> ev_RunID e = r" for e r
    using log_okD(6) [OF ok, of _ r] by (auto simp: f_def split: if_splits)
  have one: "sorted_wrt (\<lambda>a b. (ev_RunID a, event_sort_key a) < (ev_RunID b, event_sort_key b)) (f r)" for r
  proof (cases "ef_RunID flt \<noteq> [] \<and> r \<noteq> ef_RunID flt")
    case False
    define xs where "xs = map cloneRunEventRecord (filter (runEventMatchesFilter flt) (mslice (events s) r))"
    have "distinct (map ev_ID (filter (runEventMatchesFilter flt) (mslice (events s) r)))"
      using log_okD(4) [OF ok, of r] by (rule distinct_map_filter)
    then have "distinct (map ev_ID xs)" by (simp add: comp_def xs_def)
    then have "distinct xs" "inj_on event_sort_key (set xs)"
      by (auto simp: distinct_map event_sort_key_def inj_on_def)
    then have "sorted_wrt (\<lambda>a b. event_sort_key a < event_sort_key b) (f r)"
      unfolding f_def if_not_P [OF False] xs_def [symmetric] by (rule sorted_key_strict)
    then show ?thesis
      by (rule sorted_wrt_mono_rel [rotated]) (simp add: run [of _ r])
  qed (simp add: f_def)
  have "sorted_wrt (\<lambda>a b. (ev_RunID a, event_sort_key a) < (ev_RunID b, event_sort_key b)) (concat (map f (orderedRunIDs (events s))))"
    using one run by (intro sorted_wrt_concat_map orderedRunIDs_sorted log_okD(1) [OF ok]) auto
  then show ?thesis by (simp add: matchedRunEvents_def f_def)
qed

lemma matchedRunEvents_set:
  "set (matchedRunEvents s flt) = cloneRunEventRecord `
     {e. \<exists>r. e \<in> set (mslice (events s) r) \<and> (ef_RunID flt = [] \<or> r = ef_RunID flt) \<and> runEventMatchesFilter flt e}"
proof -
  have "r \<in> set (mkeys (events s))" if "e \<in> set (mslice (events s) r)" for e r
    using that by (intro mkeys_mslice) auto
  then show ?thesis
    by (fastforce simp: matchedRunEvents_def)
qed


lemma appendRunEvents_cases:
  obtains (failed) e where "appendRunEvents ctx s vs = (s, Some e)" "first_err [cx_Err ctx, first_err (map validateRunEventRecord vs)] = Some e"
  | (stored) items ids where "log_append ev_RunID ev_ID cloneRunEventRecord (events s, eventIDs s) vs = (items, ids)"
      "appendRunEvents ctx s vs = (s\<lparr>events := items, eventIDs := ids\<rparr>, None)"
      "first_err [cx_Err ctx, first_err (map validateRunEventRecord vs)] = None"
proof -
  obtain items ids where l: "log_append ev_RunID ev_ID cloneRunEventRecord (events s, eventIDs s) vs = (items, ids)"
    by (meson surj_pair)
  show thesis
  proof (cases "first_err [cx_Err ctx, first_err (map validateRunEventRecord vs)]")
    case None
    show thesis by (rule stored [OF l _ None]) (unfold appendRunEvents_def l None, simp)
  next
    case (Some e)
    show thesis by (rule failed [OF _ Some]) (unfold appendRunEvents_def Some, simp)
  qed
qed

lemma saveModelAttempts_cases:
  obtains (failed) e where "saveModelAttempts ctx s vs = (s, Some e)" "first_err [cx_Err ctx, first_err (map validateModelAttemptRecord vs)] = Some e"
  | (stored) items ids where "log_append at_RunID at_ID cloneModelAttemptRecord (attempts s, attemptIDs s) vs = (items, ids)"
      "saveModelAttempts ctx s vs = (s\<lparr>attempts := items, attemptIDs := ids\<rparr>, None)"
      "first_err [cx_Err ctx, first_err (map validateModelAttemptRecord vs)] = None"
proof -
  obtain items ids where l: "log_append at_RunID at_ID cloneModelAttemptRecord (attempts s, attemptIDs s) vs = (items, ids)"
    by (meson surj_pair)
  show thesis
  proof (cases "first_err [cx_Err ctx, first_err (map validateModelAttemptRecord vs)]")
    case None
    show thesis by (rule stored [OF l _ None]) (unfold saveModelAttempts_def l None, simp)
  next
    case (Some e)
    show thesis by (rule failed [OF _ Some]) (unfold saveModelAttempts_def Some, simp)
  qed
qed

lemma saveToolExecutions_cases:
  obtains (failed) e where "saveToolExecutions ctx s vs = (s, Some e)" "first_err [cx_Err ctx, first_err (map validateToolExecutionRecord vs)] = Some e"
  | (stored) items ids where "log_append te_RunID te_ID cloneToolExecutionRecord (toolExecs s, toolExecIDs s) vs = (items, ids)"
      "saveToolExecutions ctx s vs = (s\<lparr>toolExecs := items, toolExecIDs := ids\<rparr>, None)"
      "first_err [cx_Err ctx, first_err (map validateToolExecutionRecord vs)] = None"
proof -
  obtain items ids where l: "log_append te_RunID te_ID cloneToolExecutionRecord (toolExecs s, toolExecIDs s) vs = (items, ids)"
    by (meson surj_pair)
  show thesis
  proof (cases "first_err [cx_Err ctx, first_err (map validateToolExecutionRecord vs)]")
    case None
    show thesis by (rule stored [OF l _ None]) (unfold saveToolExecutions_def l None, simp)
  next
    case (Some e)
    show thesis by (rule failed [OF _ Some]) (unfold saveToolExecutions_def Some, simp)
  qed
qed

definition sample_event :: "string \<Rightarrow> int \<Rightarrow> RunEventRecord" where
  "sample_event ident seq = \<lparr>ev_ID = ident, ev_RunID = ''r1'', ev_ThreadID = [], ev_Namespace = ''acme'', ev_OwnerID = [],
     ev_ExecutionID = [], ev_Sequence = seq, ev_Type = ''step'', ev_Timestamp = 5, ev_StepID = [], ev_Step = 0,
     ev_ParentRunID = [], ev_ParentStepID = [], ev_Branch = [], ev_ToolCallID = [], ev_ToolID = [], ev_Provider = [],
     ev_ProviderModel = [], ev_AttemptStatus = [], ev_ProcessorPhase = [], ev_ProcessorAction = [], ev_Status = [],
     ev_FinishReason = [], ev_Usage = zero_usage,
     ev_Accounting = \<lparr>ac_ProviderRequestID = [], ac_ServiceTier = [], ac_Region = [], ac_Costs = []\<rparr>,
     ev_DurationNanos = 0, ev_ErrorKind = [], ev_ErrorMessage = [], ev_Payload = None, ev_Plugin = None, ev_Metadata = []\<rparr>"

definition sample_events :: memoryState where
  "sample_events = fst (appendRunEvents background newMemoryState [sample_event ''b'' 2, sample_event ''a'' 1])"

lemma sample_events_ok: "store_ok sample_events"
  by (simp add: sample_events_def appendRunEvents_ok store_ok_new)

text \<open>C24 log_appends_idempotent: writing the same batch of run events, model attempts or tool executions a second
  time changes nothing and fails no run.\<close>

theorem log_appends_idempotent:
  "appendRunEvents ctx (fst (appendRunEvents ctx s es)) es = appendRunEvents ctx s es
   \<and> saveModelAttempts ctx (fst (saveModelAttempts ctx s as)) as = saveModelAttempts ctx s as
   \<and> saveToolExecutions ctx (fst (saveToolExecutions ctx s ts)) ts = saveToolExecutions ctx s ts"
proof (intro conjI)
  show "appendRunEvents ctx (fst (appendRunEvents ctx s es)) es = appendRunEvents ctx s es"
    by (cases rule: appendRunEvents_cases [where ctx = ctx and s = s and vs = es])
       (use event_log.append_idem [of "(events s, eventIDs s)" es] in \<open>simp_all add: appendRunEvents_def [of _ "s\<lparr>events := _, eventIDs := _\<rparr>"]\<close>)
  show "saveModelAttempts ctx (fst (saveModelAttempts ctx s as)) as = saveModelAttempts ctx s as"
    by (cases rule: saveModelAttempts_cases [where ctx = ctx and s = s and vs = as])
       (use attempt_log.append_idem [of "(attempts s, attemptIDs s)" as] in \<open>simp_all add: saveModelAttempts_def [of _ "s\<lparr>attempts := _, attemptIDs := _\<rparr>"]\<close>)
  show "saveToolExecutions ctx (fst (saveToolExecutions ctx s ts)) ts = saveToolExecutions ctx s ts"
    by (cases rule: saveToolExecutions_cases [where ctx = ctx and s = s and vs = ts])
       (use tool_log.append_idem [of "(toolExecs s, toolExecIDs s)" ts] in \<open>simp_all add: saveToolExecutions_def [of _ "s\<lparr>toolExecs := _, toolExecIDs := _\<rparr>"]\<close>)
qed

text \<open>C25 run_events_append_only: appending run events keeps every stored event in place, adds only copies of the
  given ones at the end of their runs, and afterwards every given (run, ID) pair is stored; a rejected
  batch changes nothing.\<close>

theorem run_events_append_only:
  assumes "store_ok s"
  shows "case appendRunEvents ctx s vs of
     (s', Some e) \<Rightarrow> s' = s
   | (s', None) \<Rightarrow> s' = s\<lparr>events := events s', eventIDs := eventIDs s'\<rparr>
       \<and> log_extends ev_RunID cloneRunEventRecord (events s) vs (events s')
       \<and> list_all (\<lambda>v. ev_ID v \<in> ev_ID ` set (mslice (events s') (ev_RunID v))) vs"
proof (cases rule: appendRunEvents_cases [where ctx = ctx and s = s and vs = vs])
  case (stored items ids)
  have ok: "log_ok ev_RunID ev_ID (events s) (eventIDs s)" using assms by (simp add: store_ok_def)
  have ok': "log_ok ev_RunID ev_ID items ids" using event_log.append_ok [OF ok stored(1)] .
  have "log_extends ev_RunID cloneRunEventRecord (events s) vs items"
    using event_log.append_extends [OF ok, of vs] stored(1) by simp
  moreover have "ev_ID v \<in> ev_ID ` set (mslice items (ev_RunID v))" if "v \<in> set vs" for v
    using event_log.append_known [of "(events s, eventIDs s)" vs "ev_RunID v"] that log_okD(5) [OF ok', of "ev_RunID v"] stored(1)
    by auto
  ultimately show ?thesis
    using stored(2) by (simp add: list_all_iff)
qed simp

theorem run_events_append_only_witness:
  "snd (appendRunEvents background sample_events [sample_event ''c'' 3, sample_event ''a'' 9]) = None
   \<and> (case appendRunEvents background sample_events [sample_event ''c'' 3, sample_event ''a'' 9] of
       (s', Some e) \<Rightarrow> False
     | (s', None) \<Rightarrow> log_extends ev_RunID cloneRunEventRecord (events sample_events)
         [sample_event ''c'' 3, sample_event ''a'' 9] (events s'))"
proof -
  have "snd (appendRunEvents background sample_events [sample_event ''c'' 3, sample_event ''a'' 9]) = None" by code_simp
  with run_events_append_only [OF sample_events_ok, where ctx = background and vs = "[sample_event ''c'' 3, sample_event ''a'' 9]"]
  show ?thesis by (auto split: prod.splits option.splits)
qed



end
