(* ===== verification/Calendar.thy ===== *)
theory Calendar
  imports Records
begin

text \<open>
  The proleptic Gregorian calendar in UTC, as much of \<^verbatim>\<open>time.Time\<close> as the schedules use. An instant is
  its number of nanoseconds since the Unix epoch; a day is counted from 1 January of year 1. The year of a
  day is found through 400, 100, 4 and 1 year cycles, as the standard library does it.
\<close>

definition minute_ns :: int where "minute_ns = 60000000000"
definition hour_ns :: int where "hour_ns = 3600000000000"
definition day_ns :: int where "day_ns = 86400000000000"

text \<open>The day of the Unix epoch.\<close>

definition epoch_day :: int where "epoch_day = 719162"

definition is_leap :: "int \<Rightarrow> bool" where
  "is_leap y \<longleftrightarrow> y mod 4 = 0 \<and> (y mod 100 \<noteq> 0 \<or> y mod 400 = 0)"

definition days_before_year :: "int \<Rightarrow> int" where
  "days_before_year y = 365 * (y - 1) + (y - 1) div 4 - (y - 1) div 100 + (y - 1) div 400"

definition days_before_month :: "bool \<Rightarrow> int \<Rightarrow> int" where
  "days_before_month leap m =
     (if m \<le> 1 then 0 else if m = 2 then 31
      else (if m = 3 then 59 else if m = 4 then 90 else if m = 5 then 120 else if m = 6 then 151
            else if m = 7 then 181 else if m = 8 then 212 else if m = 9 then 243 else if m = 10 then 273
            else if m = 11 then 304 else 334) + (if leap then 1 else 0))"

text \<open>\<^verbatim>\<open>time.Date\<close> normalizes a month outside 1 to 12 into the years, and any day.\<close>

definition days_of_date :: "int \<Rightarrow> int \<Rightarrow> int \<Rightarrow> int" where
  "days_of_date y m d = (let y' = y + (m - 1) div 12; m' = (m - 1) mod 12 + 1 in
     days_before_year y' + days_before_month (is_leap y') m' + (d - 1))"

definition year_parts :: "int \<Rightarrow> int \<times> int" where
  "year_parts n = (let a = n div 146097; r = n mod 146097;
       b = min 3 (r div 36524); r = r - 36524 * b;
       c = r div 1461; r = r mod 1461;
       d = min 3 (r div 365) in
     (400 * a + 100 * b + 4 * c + d + 1, r - 365 * d))"

definition month_of_yday :: "bool \<Rightarrow> int \<Rightarrow> int" where
  "month_of_yday leap r = (let l = (if leap then 1 else 0) in
     if r < 31 then 1 else if r < 59 + l then 2 else if r < 90 + l then 3 else if r < 120 + l then 4
     else if r < 151 + l then 5 else if r < 181 + l then 6 else if r < 212 + l then 7 else if r < 243 + l then 8
     else if r < 273 + l then 9 else if r < 304 + l then 10 else if r < 334 + l then 11 else 12)"

definition date_of_day :: "int \<Rightarrow> int \<times> int \<times> int" where
  "date_of_day n = (case year_parts n of (y, r) \<Rightarrow>
     let m = month_of_yday (is_leap y) r in (y, m, r - days_before_month (is_leap y) m + 1))"

definition year_length :: "int \<Rightarrow> int" where
  "year_length y = (if is_leap y then 366 else 365)"

definition month_length :: "int \<Rightarrow> int \<Rightarrow> int" where
  "month_length y m = (if m = 2 then (if is_leap y then 29 else 28) else if m \<in> {4, 6, 9, 11} then 30 else 31)"

section \<open>Years\<close>

lemma days_before_year_parts:
  assumes "0 \<le> b" "b \<le> 3" "0 \<le> c" "c \<le> 24" "0 \<le> d" "d \<le> 3"
  shows "days_before_year (400 * a + 100 * b + 4 * c + d + 1) = 146097 * a + 36524 * b + 1461 * c + 365 * d"
proof -
  let ?y = "400 * a + 100 * b + 4 * c + d"
  have "?y div 4 = 100 * a + 25 * b + c" "?y div 100 = 4 * a + b" "?y div 400 = a"
    using assms int_div_pos_eq [of ?y 4 "100 * a + 25 * b + c" d] int_div_pos_eq [of ?y 100 "4 * a + b" "4 * c + d"]
      int_div_pos_eq [of ?y 400 a "100 * b + 4 * c + d"] by simp_all
  then show ?thesis by (simp add: days_before_year_def)
qed

lemma is_leap_parts:
  assumes "0 \<le> b" "b \<le> 3" "0 \<le> c" "c \<le> 24" "0 \<le> d" "d \<le> 3"
  shows "is_leap (400 * a + 100 * b + 4 * c + d + 1) \<longleftrightarrow> d = 3 \<and> (c = 24 \<longrightarrow> b = 3)"
proof -
  define y where "y = 400 * a + 100 * b + 4 * c + d + 1"
  have "is_leap y \<longleftrightarrow> d = 3 \<and> (c = 24 \<longrightarrow> b = 3)"
  proof (cases "d = 3")
    case False
    then have "y mod 4 = d + 1"
      using assms by (intro int_mod_pos_eq [of y 4 "100 * a + 25 * b + c"]) (auto simp: y_def)
    with assms False show ?thesis by (simp add: is_leap_def)
  next
    case d: True
    have four: "y mod 4 = 0"
      using d by (intro int_mod_pos_eq [of y 4 "100 * a + 25 * b + c + 1"]) (auto simp: y_def)
    show ?thesis
    proof (cases "c = 24")
      case False
      then have "y mod 100 = 4 * (c + 1)"
        using assms d by (intro int_mod_pos_eq [of y 100 "4 * a + b"]) (auto simp: y_def)
      with assms False d four show ?thesis by (simp add: is_leap_def)
    next
      case True
      have hundred: "y mod 100 = 0"
        using d True by (intro int_mod_pos_eq [of y 100 "4 * a + b + 1"]) (auto simp: y_def)
      have "y mod 400 = (if b = 3 then 0 else 100 * (b + 1))"
        using assms d True int_mod_pos_eq [of y 400 "a + 1" 0] int_mod_pos_eq [of y 400 a "100 * (b + 1)"] by (auto simp: y_def)
      with assms True d four hundred show ?thesis by (simp add: is_leap_def)
    qed
  qed
  then show ?thesis by (simp only: y_def)
qed

lemma year_parts_cycles:
  obtains a b c d r where "year_parts n = (400 * a + 100 * b + 4 * c + d + 1, r)"
    "n = 146097 * a + 36524 * b + 1461 * c + 365 * d + r"
    "0 \<le> b" "b \<le> 3" "0 \<le> c" "c \<le> 24" "0 \<le> d" "d \<le> 3" "0 \<le> r" "r \<le> 365" "r = 365 \<longrightarrow> d = 3 \<and> (c = 24 \<longrightarrow> b = 3)"
proof -
  define a where "a = n div 146097"
  define r1 where "r1 = n mod 146097"
  define b where "b = min 3 (r1 div 36524)"
  define r2 where "r2 = r1 - 36524 * b"
  define c where "c = r2 div 1461"
  define r3 where "r3 = r2 mod 1461"
  define d where "d = min 3 (r3 div 365)"
  have n: "n = 146097 * a + r1" "0 \<le> r1" "r1 < 146097" by (simp_all add: a_def r1_def)
  have b: "0 \<le> b" "b \<le> 3" "0 \<le> r2" "r2 \<le> 36524" "r2 = 36524 \<longrightarrow> b = 3"
    using n unfolding b_def r2_def min_def by (auto split: if_splits)
  have c: "r2 = 1461 * c + r3" "0 \<le> r3" "r3 < 1461" by (simp_all add: c_def r3_def)
  have d: "0 \<le> d" "d \<le> 3" "0 \<le> r3 - 365 * d" "r3 - 365 * d \<le> 365" "r3 - 365 * d = 365 \<longrightarrow> d = 3 \<and> r3 = 1460"
    using c unfolding d_def min_def by (auto split: if_splits)
  have "year_parts n = (400 * a + 100 * b + 4 * c + d + 1, r3 - 365 * d)"
    unfolding year_parts_def Let_def d_def r3_def c_def r2_def b_def r1_def a_def by (rule refl)
  moreover have "0 \<le> c" "c \<le> 24" using b c by linarith+
  moreover have "r3 - 365 * d = 365 \<longrightarrow> d = 3 \<and> (c = 24 \<longrightarrow> b = 3)" using b c d by auto
  moreover have "n = 146097 * a + 36524 * b + 1461 * c + 365 * d + (r3 - 365 * d)" using n c by (simp add: r2_def)
  ultimately show thesis using b d by (intro that [of a b c d "r3 - 365 * d"]) simp_all
qed

lemma year_parts_ok:
  assumes "year_parts n = (y, r)"
  shows "n = days_before_year y + r" "0 \<le> r" "r < year_length y"
proof -
  obtain a b c d r' where p: "year_parts n = (400 * a + 100 * b + 4 * c + d + 1, r')"
    "n = 146097 * a + 36524 * b + 1461 * c + 365 * d + r'"
    "0 \<le> b" "b \<le> 3" "0 \<le> c" "c \<le> 24" "0 \<le> d" "d \<le> 3" "0 \<le> r'" "r' \<le> 365" "r' = 365 \<longrightarrow> d = 3 \<and> (c = 24 \<longrightarrow> b = 3)"
    by (rule year_parts_cycles)
  with assms have y: "y = 400 * a + 100 * b + 4 * c + d + 1" "r = r'" by simp_all
  show "n = days_before_year y + r" using p(2) days_before_year_parts [OF p(3-8)] by (simp add: y)
  show "0 \<le> r" using p(9) by (simp add: y)
  show "r < year_length y" using p(10,11) is_leap_parts [OF p(3-8), of a] by (auto simp: y year_length_def)
qed

lemma div_pred:
  fixes y k :: int
  assumes "1 < k"
  shows "y div k = (y - 1) div k + (if y mod k = 0 then 1 else 0)"
proof -
  define z where "z = y - 1"
  have y: "y = z + 1" by (simp add: z_def)
  show ?thesis
  proof (cases "z mod k + 1 = k")
    case True
    then have "y = k * (z div k + 1) + 0"
      using mult_div_mod_eq [of k z] y unfolding distrib_left mult_1_right add_0_right by linarith
    then show ?thesis
      using assms int_div_pos_eq [of y k "z div k + 1" 0] int_mod_pos_eq [of y k "z div k + 1" 0] by (simp add: z_def)
  next
    case False
    have "z mod k < k" "0 \<le> z mod k" using assms by simp_all
    with False have r: "0 \<le> z mod k + 1" "z mod k + 1 < k" "0 < z mod k + 1" by simp_all
    have "y = k * (z div k) + (z mod k + 1)" using mult_div_mod_eq [of k z] y by linarith
    then show ?thesis
      using r int_div_pos_eq [of y k "z div k" "z mod k + 1"] int_mod_pos_eq [of y k "z div k" "z mod k + 1"] by (simp add: z_def)
  qed
qed

lemma days_before_next_year: "days_before_year (y + 1) = days_before_year y + year_length y"
proof -
  have years: "365 * y + a4 - a100 + a400 = 365 * (y - 1) + b4 - b100 + b400 + (if p \<and> (\<not> q \<or> r) then 366 else 365)"
    if "a4 = b4 + (if p then 1 else 0)" "a100 = b100 + (if q then 1 else 0)" "a400 = b400 + (if r then 1 else 0)"
      "r \<Longrightarrow> q" "q \<Longrightarrow> p" for a4 a100 a400 b4 b100 b400 :: int and p q r
    using that by (cases p; cases q; cases r) simp_all
  have "y mod 400 = 0 \<Longrightarrow> y mod 100 = 0" "y mod 100 = 0 \<Longrightarrow> y mod 4 = 0"
    using dvd_trans [of 100 400 y] dvd_trans [of 4 100 y] by (simp_all add: mod_eq_0_iff_dvd)
  then show ?thesis
    unfolding days_before_year_def year_length_def is_leap_def add_diff_cancel_right'
    by (intro years div_pred) simp_all
qed

lemma year_length_pos: "365 \<le> year_length y" "year_length y \<le> 366"
  by (simp_all add: year_length_def)

lemma days_before_year_mono: "y < y' \<Longrightarrow> days_before_year y + year_length y \<le> days_before_year y'"
proof (induction "nat (y' - y)" arbitrary: y')
  case (Suc k)
  show ?case
  proof (cases "y' - 1 = y")
    case True
    then show ?thesis using days_before_next_year [of y] by (simp add: algebra_simps)
  next
    case False
    then have "days_before_year y + year_length y \<le> days_before_year (y' - 1)" using Suc by auto
    then show ?thesis using days_before_next_year [of "y' - 1"] year_length_pos(1) [of "y' - 1"] by simp
  qed
qed simp

lemma year_parts_unique:
  assumes "0 \<le> r" "r < year_length y"
  shows "year_parts (days_before_year y + r) = (y, r)"
proof -
  obtain y' r' where p: "year_parts (days_before_year y + r) = (y', r')" by fastforce
  note ok = year_parts_ok [OF p]
  have "y' = y"
    using days_before_year_mono [of y y'] days_before_year_mono [of y' y] ok assms by linarith
  then show ?thesis using p ok(1) by simp
qed

section \<open>Months\<close>

lemma months_12: "1 \<le> m \<Longrightarrow> m \<le> 12 \<Longrightarrow> m \<in> {1, 2, 3, 4, 5, 6, 7, 8, 9, 10, 11, 12 :: int}"
  by simp presburger

lemma month_length_pos: "28 \<le> month_length y m"
  by (simp add: month_length_def)

lemma month_of_yday_ok:
  assumes "0 \<le> r" "r < year_length y"
  shows "1 \<le> month_of_yday (is_leap y) r" "month_of_yday (is_leap y) r \<le> 12"
    "days_before_month (is_leap y) (month_of_yday (is_leap y) r) \<le> r"
    "r < days_before_month (is_leap y) (month_of_yday (is_leap y) r) + month_length y (month_of_yday (is_leap y) r)"
  using assms by (cases "is_leap y"; simp add: month_of_yday_def days_before_month_def month_length_def year_length_def Let_def)+

lemma month_of_yday_unique:
  assumes "1 \<le> m" "m \<le> 12" "days_before_month (is_leap y) m \<le> r" "r < days_before_month (is_leap y) m + month_length y m"
  shows "month_of_yday (is_leap y) r = m" "0 \<le> r" "r < year_length y"
  using months_12 [OF assms(1,2)] assms(3,4)
  by (auto simp: month_of_yday_def days_before_month_def month_length_def year_length_def Let_def split: if_splits)

lemma days_before_next_month:
  "1 \<le> m \<Longrightarrow> m \<le> 11 \<Longrightarrow> days_before_month (is_leap y) (m + 1) = days_before_month (is_leap y) m + month_length y m"
  using months_12 [of m] by (auto simp: days_before_month_def month_length_def)

section \<open>Dates\<close>

lemma days_of_date_in_year:
  "1 \<le> m \<Longrightarrow> m \<le> 12 \<Longrightarrow> days_of_date y m d = days_before_year y + days_before_month (is_leap y) m + (d - 1)"
  by (simp add: days_of_date_def)

lemma days_of_date_day: "days_of_date y m d = days_of_date y m 1 + (d - 1)"
  by (simp add: days_of_date_def Let_def)

lemma days_of_next_month:
  assumes "1 \<le> m" "m \<le> 12"
  shows "days_of_date y (m + 1) 1 = days_of_date y m 1 + month_length y m"
proof (cases "m = 12")
  case True
  have "days_of_date y 13 1 = days_before_year (y + 1)" by (simp add: days_of_date_def days_before_month_def)
  with True show ?thesis
    by (simp add: days_before_next_year days_of_date_in_year year_length_def month_length_def days_before_month_def)
next
  case False
  with assms show ?thesis by (simp add: days_of_date_in_year days_before_next_month)
qed

lemma date_of_day_ok:
  assumes "date_of_day n = (y, m, d)"
  shows "days_of_date y m d = n" "1 \<le> m" "m \<le> 12" "1 \<le> d" "d \<le> month_length y m"
proof -
  obtain r where p: "year_parts n = (y, r)" and m: "m = month_of_yday (is_leap y) r"
    and d: "d = r - days_before_month (is_leap y) m + 1"
    using assms by (auto simp: date_of_day_def Let_def split: prod.splits)
  note r = year_parts_ok [OF p]
  note mo = month_of_yday_ok [OF r(2,3)]
  show "1 \<le> m" "m \<le> 12" "1 \<le> d" "d \<le> month_length y m" using mo by (simp_all add: m d)
  then show "days_of_date y m d = n" using r(1) by (simp add: days_of_date_in_year d)
qed

lemma date_of_day_unique:
  assumes "1 \<le> m" "m \<le> 12" "1 \<le> d" "d \<le> month_length y m"
  shows "date_of_day (days_of_date y m d) = (y, m, d)"
proof -
  let ?r = "days_before_month (is_leap y) m + (d - 1)"
  have "month_of_yday (is_leap y) ?r = m" "0 \<le> ?r" "?r < year_length y"
    using month_of_yday_unique [OF assms(1,2), of y ?r] assms(3,4) by simp_all
  then show ?thesis
    using year_parts_unique [of ?r y] by (simp add: date_of_day_def days_of_date_in_year assms Let_def add.assoc)
qed

section \<open>Instants\<close>

definition day_of :: "Time \<Rightarrow> int" where
  "day_of t = t div day_ns + epoch_day"

definition Year :: "Time \<Rightarrow> int" where "Year t = fst (date_of_day (day_of t))"
definition Month :: "Time \<Rightarrow> int" where "Month t = fst (snd (date_of_day (day_of t)))"
definition Day :: "Time \<Rightarrow> int" where "Day t = snd (snd (date_of_day (day_of t)))"
definition Weekday :: "Time \<Rightarrow> int" where "Weekday t = (day_of t + 1) mod 7"
definition Hour :: "Time \<Rightarrow> int" where "Hour t = t mod day_ns div hour_ns"
definition Minute :: "Time \<Rightarrow> int" where "Minute t = t mod hour_ns div minute_ns"

definition go_Date :: "int \<Rightarrow> int \<Rightarrow> int \<Rightarrow> Time" where
  "go_Date y m d = (days_of_date y m d - epoch_day) * day_ns"

definition truncate_to :: "int \<Rightarrow> Time \<Rightarrow> Time" where
  "truncate_to d t = t - t mod d"

lemma date_parts: "date_of_day (day_of t) = (Year t, Month t, Day t)"
  by (simp add: Year_def Month_def Day_def)

lemmas date_parts_ok = date_of_day_ok [OF date_parts]

lemma truncate_bounds: "0 < d \<Longrightarrow> truncate_to d t \<le> t" "0 < d \<Longrightarrow> t < truncate_to d t + d"
  using pos_mod_bound [of d t] pos_mod_sign [of d t] by (simp_all add: truncate_to_def)

lemma truncate_dvd: "d dvd truncate_to d t"
  by (simp add: truncate_to_def)

lemma go_Date_day: "go_Date (Year t) (Month t) (Day t) = truncate_to day_ns t"
  by (simp add: go_Date_def date_parts_ok(1) day_of_def truncate_to_def minus_mod_eq_div_mult)

lemma go_Date_next_day: "go_Date (Year t) (Month t) (Day t + 1) = truncate_to day_ns t + day_ns"
proof -
  have "days_of_date y m (d + 1) = days_of_date y m d + 1" for y m d
    using days_of_date_day [of y m d] days_of_date_day [of y m "d + 1"] by simp
  then have "go_Date y m (d + 1) = go_Date y m d + day_ns" for y m d
    by (simp only: go_Date_def) (simp add: left_diff_distrib distrib_right)
  then show ?thesis by (simp only: go_Date_day)
qed

lemma same_day:
  "truncate_to day_ns t \<le> t' \<Longrightarrow> t' < truncate_to day_ns t + day_ns \<Longrightarrow>
   day_of t' = day_of t"
proof -
  assume "truncate_to day_ns t \<le> t'" "t' < truncate_to day_ns t + day_ns"
  moreover have "truncate_to day_ns t = t div day_ns * day_ns" by (simp add: truncate_to_def minus_mod_eq_div_mult)
  ultimately have "t' div day_ns = t div day_ns"
    using int_div_pos_eq [of t' day_ns "t div day_ns" "t' - t div day_ns * day_ns"] by (simp add: algebra_simps)
  then show ?thesis by (simp add: day_of_def)
qed

lemma next_month_after: "t < go_Date (Year t) (Month t + 1) 1"
proof -
  have "days_of_date (Year t) (Month t) (Day t) < days_of_date (Year t) (Month t + 1) 1"
    using days_of_next_month [OF date_parts_ok(2,3), of "Year t" t] date_parts_ok(5) [of t] days_of_date_day [of "Year t" "Month t" "Day t"]
    by linarith
  then have "(days_of_date (Year t) (Month t) (Day t) + 1 - epoch_day) * day_ns \<le> go_Date (Year t) (Month t + 1) 1"
    unfolding go_Date_def by (intro mult_right_mono) (simp_all add: day_ns_def)
  moreover have "(days_of_date (Year t) (Month t) (Day t) + 1 - epoch_day) * day_ns = truncate_to day_ns t + day_ns"
    using go_Date_day [of t] by (simp add: go_Date_def algebra_simps)
  ultimately show ?thesis using truncate_bounds(2) [of day_ns t] by (simp add: day_ns_def)
qed

lemma same_month:
  assumes "t \<le> t'" "t' < go_Date (Year t) (Month t + 1) 1"
  shows "Month t' = Month t"
proof -
  have lo: "days_of_date (Year t) (Month t) 1 \<le> day_of t'"
  proof -
    have "day_of t \<le> day_of t'" using assms(1) by (simp add: day_of_def zdiv_mono1 day_ns_def)
    then show ?thesis
      using date_parts_ok(1,4) [of t] days_of_date_day [of "Year t" "Month t" "Day t"] by linarith
  qed
  have hi: "day_of t' < days_of_date (Year t) (Month t) 1 + month_length (Year t) (Month t)"
  proof -
    have "t' div day_ns < days_of_date (Year t) (Month t + 1) 1 - epoch_day"
      using assms(2) by (simp add: go_Date_def day_ns_def div_less_iff_less_mult)
    then show ?thesis using days_of_next_month [OF date_parts_ok(2,3), of "Year t" t] by (simp add: day_of_def)
  qed
  define d where "d = day_of t' - days_of_date (Year t) (Month t) 1 + 1"
  have "day_of t' = days_of_date (Year t) (Month t) d" using days_of_date_day [of "Year t" "Month t" d] by (simp add: d_def)
  then show ?thesis
    using date_of_day_unique [OF date_parts_ok(2,3), of d "Year t" t] lo hi by (simp add: d_def Month_def)
qed

end
