(* ===== verification/Cost.thy ===== *)
theory Cost
  imports Store_Logs Decimal Calendar Utf8
begin

text \<open>
  The rest of \<^verbatim>\<open>internal/runtime/cost.go\<close>: the bundled price catalog, the resolver that estimates the cost
  of a model attempt from it, and the aggregation of the costs of a repository. Decimals are in
  \<^verbatim>\<open>Decimal\<close>, the records and their validators in \<^verbatim>\<open>Records\<close>.

  \<^verbatim>\<open>strings.ToLower\<close> and \<^verbatim>\<open>strings.ToUpper\<close> are given on ASCII; the mapping of any other rune by the Unicode
  tables is a parameter, and no property depends on it.
\<close>

section \<open>Names\<close>

definition map_runes :: "(nat \<Rightarrow> nat) \<Rightarrow> string \<Rightarrow> string" where
  "map_runes f s = string_of_runes (map f (runes s))"

definition ToLower :: "(nat \<Rightarrow> nat) \<Rightarrow> string \<Rightarrow> string" where
  "ToLower lower = map_runes (\<lambda>r. if r < 128 then (if 65 \<le> r \<and> r \<le> 90 then r + 32 else r) else lower r)"

definition ToUpper :: "(nat \<Rightarrow> nat) \<Rightarrow> string \<Rightarrow> string" where
  "ToUpper upper = map_runes (\<lambda>r. if r < 128 then (if 97 \<le> r \<and> r \<le> 122 then r - 32 else r) else upper r)"

text \<open>The text after the last slash.\<close>

definition after_slash :: "string \<Rightarrow> string" where
  "after_slash s = last (split_byte (CHR ''/'') s)"

definition canonicalModelName :: "(nat \<Rightarrow> nat) \<Rightarrow> string \<Rightarrow> string" where
  "canonicalModelName lower model = after_slash (ToLower lower (trim_space model))"

definition PricingDomainOpenRouter :: string where "PricingDomainOpenRouter = ''openrouter''"
definition PricingDomainOpenAI :: string where "PricingDomainOpenAI = ''openai_api''"
definition PricingDomainOpenAICompatible :: string where "PricingDomainOpenAICompatible = ''openai_compatible''"
definition PricingDomainAnthropic :: string where "PricingDomainAnthropic = ''anthropic_api''"
definition PricingDomainGemini :: string where "PricingDomainGemini = ''gemini_developer_api''"
definition PricingDomainVertexAI :: string where "PricingDomainVertexAI = ''vertex_ai''"

definition CostUnavailableUnknownModel :: string where "CostUnavailableUnknownModel = ''unknown_model''"
definition CostUnavailableMissingUsage :: string where "CostUnavailableMissingUsage = ''missing_usage''"
definition CostUnavailableMissingDimension :: string where "CostUnavailableMissingDimension = ''missing_pricing_dimension''"
definition CostUnavailableUnsupportedTerms :: string where "CostUnavailableUnsupportedTerms = ''unsupported_account_terms''"

definition domainForProvider :: "string \<Rightarrow> string" where
  "domainForProvider provider = (if provider = ''openai'' then PricingDomainOpenAI
     else if provider = ''anthropic'' then PricingDomainAnthropic
     else if provider = ''gemini'' then PricingDomainGemini
     else if provider = ''vertexai'' then PricingDomainVertexAI
     else PricingDomainOpenAICompatible)"

section \<open>The catalog\<close>

record tokenRate =
  rt_input :: Decimal
  rt_output :: Decimal
  rt_cacheRead :: Decimal
  rt_cacheWrite5m :: Decimal
  rt_cacheWrite1h :: Decimal
  rt_provenance :: string
  rt_longContextThreshold :: int

definition token_rate :: "Decimal \<Rightarrow> Decimal \<Rightarrow> Decimal \<Rightarrow> Decimal \<Rightarrow> Decimal \<Rightarrow> string \<Rightarrow> int \<Rightarrow> tokenRate" where
  "token_rate inp out cr cw5 cw1 prov thr = \<lparr>rt_input = inp, rt_output = out, rt_cacheRead = cr, rt_cacheWrite5m = cw5,
     rt_cacheWrite1h = cw1, rt_provenance = prov, rt_longContextThreshold = thr\<rparr>"

definition openai_rates :: "(string, tokenRate) gomap" where
  "openai_rates = [
     (''gpt-6-astra'', token_rate ''10'' ''50'' ''1'' ''12.5'' [] ''https://developers.openai.com/api/docs/models/compare'' 0),
     (''gpt-5.6-sol'', token_rate ''4'' ''20'' ''0.4'' [] [] ''https://developers.openai.com/api/docs/models/compare'' 0),
     (''gpt-5.6-terra'', token_rate ''2'' ''12'' ''0.2'' [] [] ''https://developers.openai.com/api/docs/models/compare'' 0)]"

definition anthropic_rates :: "(string, tokenRate) gomap" where
  "anthropic_rates = [
     (''claude-fable-5'', token_rate ''10'' ''50'' ''1'' ''12.5'' ''20'' ''https://platform.claude.com/docs/en/about-claude/pricing'' 0),
     (''claude-opus-5'', token_rate ''5'' ''25'' ''0.5'' ''6.25'' ''10'' ''https://platform.claude.com/docs/en/about-claude/pricing'' 0),
     (''claude-opus-4.8'', token_rate ''5'' ''25'' ''0.5'' ''6.25'' ''10'' ''https://platform.claude.com/docs/en/about-claude/pricing'' 0),
     (''claude-opus-4.7'', token_rate ''5'' ''25'' ''0.5'' ''6.25'' ''10'' ''https://platform.claude.com/docs/en/about-claude/pricing'' 0),
     (''claude-opus-4.6'', token_rate ''5'' ''25'' ''0.5'' ''6.25'' ''10'' ''https://platform.claude.com/docs/en/about-claude/pricing'' 0),
     (''claude-opus-4.5'', token_rate ''5'' ''25'' ''0.5'' ''6.25'' ''10'' ''https://platform.claude.com/docs/en/about-claude/pricing'' 0),
     (''claude-sonnet-5'', token_rate ''2'' ''10'' ''0.2'' ''2.5'' ''4'' ''https://platform.claude.com/docs/en/about-claude/pricing'' 200000),
     (''claude-sonnet-4.6'', token_rate ''3'' ''15'' ''0.3'' ''3.75'' ''6'' ''https://platform.claude.com/docs/en/about-claude/pricing'' 200000),
     (''claude-sonnet-4.5'', token_rate ''3'' ''15'' ''0.3'' ''3.75'' ''6'' ''https://platform.claude.com/docs/en/about-claude/pricing'' 200000),
     (''claude-haiku-4.5'', token_rate ''1'' ''5'' ''0.1'' ''1.25'' ''2'' ''https://platform.claude.com/docs/en/about-claude/pricing'' 0)]"

definition gemini_rates :: "(string, tokenRate) gomap" where
  "gemini_rates = [
     (''gemini-3.8-flash'', token_rate ''0.75'' ''3.75'' ''0.075'' [] [] ''https://ai.google.dev/gemini-api/docs/pricing'' 200000),
     (''gemini-3.5-flash'', token_rate ''1.5'' ''9'' ''0.15'' [] [] ''https://ai.google.dev/gemini-api/docs/pricing'' 200000),
     (''gemini-3.5-flash-lite'', token_rate ''0.3'' ''2.5'' ''0.03'' [] [] ''https://ai.google.dev/gemini-api/docs/pricing'' 200000),
     (''gemini-3.1-flash-lite'', token_rate ''0.25'' ''1.5'' ''0.025'' [] [] ''https://ai.google.dev/gemini-api/docs/pricing'' 200000),
     (''gemini-2.5-flash'', token_rate ''0.3'' ''2.5'' ''0.03'' [] [] ''https://ai.google.dev/gemini-api/docs/pricing'' 0),
     (''gemini-2.5-flash-lite'', token_rate ''0.1'' ''0.4'' ''0.01'' [] [] ''https://ai.google.dev/gemini-api/docs/pricing'' 0),
     (''gemini-2.5-pro'', token_rate ''1.25'' ''10'' ''0.125'' [] [] ''https://ai.google.dev/gemini-api/docs/pricing'' 200000)]"

definition vertexai_rates :: "(string, tokenRate) gomap" where
  "vertexai_rates = [
     (''gemini-2.5-flash'', token_rate ''0.3'' ''2.5'' ''0.03'' [] [] ''https://cloud.google.com/vertex-ai/generative-ai/pricing'' 0),
     (''gemini-2.5-flash-lite'', token_rate ''0.1'' ''0.4'' ''0.01'' [] [] ''https://cloud.google.com/vertex-ai/generative-ai/pricing'' 0),
     (''gemini-2.5-pro'', token_rate ''1.25'' ''10'' ''0.125'' [] [] ''https://cloud.google.com/vertex-ai/generative-ai/pricing'' 200000)]"

definition officialTokenRates :: "(string, (string, tokenRate) gomap) gomap" where
  "officialTokenRates = [(PricingDomainOpenAI, openai_rates), (PricingDomainAnthropic, anthropic_rates),
     (PricingDomainGemini, gemini_rates), (PricingDomainVertexAI, vertexai_rates)]"

definition OfficialPricingCatalogVersion :: string where
  "OfficialPricingCatalogVersion = ''2026-09-15''"

section \<open>The resolver\<close>

definition zero_cost :: ModelCost where
  "zero_cost = \<lparr>mc_Currency = [], mc_Amount = [], mc_Source = [], mc_Domain = [], mc_Components = [], mc_Provenance = [],
     mc_CatalogVersion = [], mc_EffectiveAt = zero_time, mc_UnavailableReason = []\<rparr>"

definition UnavailableModelCost :: "string \<Rightarrow> string \<Rightarrow> ModelCost" where
  "UnavailableModelCost domain reason = zero_cost\<lparr>mc_Source := CostUnavailable, mc_Domain := domain, mc_UnavailableReason := reason\<rparr>"

definition missing_dimension :: "ModelUsage \<Rightarrow> tokenRate \<Rightarrow> bool" where
  "missing_dimension u rate \<longleftrightarrow> (0 < us_InputTokens u \<and> rt_input rate = [])
     \<or> (0 < us_OutputTokens u \<and> rt_output rate = [])
     \<or> (0 < us_CacheReadTokens u \<and> rt_cacheRead rate = [])
     \<or> (us_CacheWrite1hTokens u < us_CacheWriteTokens u \<and> rt_cacheWrite5m rate = [])
     \<or> (0 < us_CacheWrite1hTokens u \<and> rt_cacheWrite1h rate = [])"

text \<open>The closure \<^verbatim>\<open>add\<close> of the resolver.\<close>

definition add_component :: "string \<Rightarrow> int \<Rightarrow> Decimal \<Rightarrow> CostComponent list \<Rightarrow> CostComponent list" where
  "add_component kind tokens perMillion components = (if tokens = 0 \<or> perMillion = [] then components
     else components @ [\<lparr>cc_Kind = kind, cc_Modality = [], cc_Amount = decimalMulPerMillion perMillion tokens\<rparr>])"

definition context_tokens :: "string \<Rightarrow> ModelUsage \<Rightarrow> int" where
  "context_tokens domain u = (if domain = PricingDomainAnthropic
     then wrap64 (us_InputTokens u + wrap64 (us_CacheReadTokens u + us_CacheWriteTokens u)) else us_InputTokens u)"

definition uncached_input :: "string \<Rightarrow> ModelUsage \<Rightarrow> int" where
  "uncached_input domain u = (if domain = PricingDomainAnthropic then us_InputTokens u
     else wrap64 (wrap64 (us_InputTokens u - us_CacheReadTokens u) - us_CacheWriteTokens u))"

definition price :: "string \<Rightarrow> tokenRate \<Rightarrow> ModelUsage \<Rightarrow> ModelCost" where
  "price domain rate u = (let uncachedInput = uncached_input domain u;
       cacheWrite5m = wrap64 (us_CacheWriteTokens u - us_CacheWrite1hTokens u) in
     if uncachedInput < 0 then UnavailableModelCost domain CostUnavailableMissingDimension
     else if cacheWrite5m < 0 then UnavailableModelCost domain CostUnavailableMissingDimension
     else let components = add_component ''output'' (us_OutputTokens u) (rt_output rate)
              (add_component ''cache_write'' (us_CacheWrite1hTokens u) (rt_cacheWrite1h rate)
              (add_component ''cache_write'' cacheWrite5m (rt_cacheWrite5m rate)
              (add_component ''cache_read'' (us_CacheReadTokens u) (rt_cacheRead rate)
              (add_component ''input'' uncachedInput (rt_input rate) [])))) in
       \<lparr>mc_Currency = ''USD'', mc_Amount = foldl (\<lambda>sum c. decimalAdd sum (cc_Amount c)) ''0'' components,
        mc_Source = CostEstimated, mc_Domain = domain, mc_Components = components, mc_Provenance = rt_provenance rate,
        mc_CatalogVersion = OfficialPricingCatalogVersion, mc_EffectiveAt = go_Date 2026 9 15, mc_UnavailableReason = []\<rparr>)"

definition catalog_rate :: "(nat \<Rightarrow> nat) \<Rightarrow> string \<Rightarrow> ModelAttemptRecord \<Rightarrow> tokenRate option" where
  "catalog_rate lower domain attempt = (case mget officialTokenRates domain of None \<Rightarrow> None
     | Some rates \<Rightarrow> mget rates (canonicalModelName lower
         (if at_Model attempt = [] then at_RoutedModel attempt else at_Model attempt)))"

definition ResolveCost :: "(nat \<Rightarrow> nat) \<Rightarrow> ModelAttemptRecord \<Rightarrow> ModelCost" where
  "ResolveCost lower attempt = (let domain = Accounting_Domain (at_Accounting attempt); u = at_Usage attempt in
     if domain = PricingDomainOpenRouter \<and> HasProviderReportedCost (at_Accounting attempt) then zero_cost
     else if domain = PricingDomainOpenRouter then UnavailableModelCost domain CostUnavailableUnsupportedTerms
     else let domain = (if domain = [] then domainForProvider (at_Provider attempt) else domain) in
       case catalog_rate lower domain attempt of
         None \<Rightarrow> UnavailableModelCost domain CostUnavailableUnknownModel
       | Some rate \<Rightarrow>
           if u = zero_usage then UnavailableModelCost domain CostUnavailableMissingUsage
           else if ac_ServiceTier (at_Accounting attempt) \<noteq> [] \<and> ac_ServiceTier (at_Accounting attempt) \<noteq> ''standard''
             then UnavailableModelCost domain CostUnavailableUnsupportedTerms
           else if 0 < rt_longContextThreshold rate \<and> rt_longContextThreshold rate < context_tokens domain u
             then UnavailableModelCost domain CostUnavailableUnsupportedTerms
           else if missing_dimension u rate then UnavailableModelCost domain CostUnavailableMissingDimension
           else price domain rate u)"

section \<open>Aggregation\<close>

definition counted :: "ModelAttemptFilter \<Rightarrow> ModelCost \<Rightarrow> bool" where
  "counted flt cost \<longleftrightarrow> \<not> (mc_Source cost = CostUnavailable \<or> (af_CostSource flt \<noteq> [] \<and> mc_Source cost \<noteq> af_CostSource flt))
     \<and> ModelCost_Validate cost = None"

definition total_key :: "(nat \<Rightarrow> nat) \<Rightarrow> ModelCost \<Rightarrow> string" where
  "total_key upper cost = ToUpper upper (mc_Currency cost) @ CHR 0x00 # mc_Source cost"

definition add_cost :: "(nat \<Rightarrow> nat) \<Rightarrow> ModelAttemptFilter \<Rightarrow> (string, ModelCost) gomap \<Rightarrow> ModelCost \<Rightarrow> (string, ModelCost) gomap" where
  "add_cost upper flt totals cost = (if \<not> counted flt cost then totals
     else let key = total_key upper cost;
              sum = (case mget totals key of None \<Rightarrow> zero_cost | Some t \<Rightarrow> t);
              sum = (if mc_Source sum = [] then zero_cost\<lparr>mc_Currency := ToUpper upper (mc_Currency cost),
                  mc_Source := mc_Source cost, mc_Amount := ''0''\<rparr> else sum) in
       mset_at key (sum\<lparr>mc_Amount := decimalAdd (mc_Amount sum) (mc_Amount cost)\<rparr>) totals)"

definition attempt_costs :: "ModelAttemptRecord list \<Rightarrow> ModelCost list" where
  "attempt_costs as = concat (map (\<lambda>a. ac_Costs (at_Accounting a)) as)"

text \<open>The loop over the pages may not end for an arbitrary repository; then there is no value.\<close>

partial_function (option) aggregate_pages :: "(nat \<Rightarrow> nat) \<Rightarrow> ModelAttemptFilter
    \<Rightarrow> (PageRequest \<Rightarrow> ModelAttemptRecord Page result) \<Rightarrow> string \<Rightarrow> (string, ModelCost) gomap
    \<Rightarrow> (string, ModelCost) gomap result option" where
  "aggregate_pages upper flt repo cursor totals =
     (case repo \<lparr>pr_Cursor = cursor, pr_Limit = 250\<rparr> of Inl e \<Rightarrow> Some (Inl e)
      | Inr page \<Rightarrow> let totals = foldl (add_cost upper flt) totals (attempt_costs (pg_Records page)) in
          if pg_NextCursor page = [] then Some (Inr totals)
          else aggregate_pages upper flt repo (pg_NextCursor page) totals)"

definition AggregateModelCosts :: "(nat \<Rightarrow> nat) \<Rightarrow> (ModelAttemptFilter \<Rightarrow> PageRequest \<Rightarrow> ModelAttemptRecord Page result) option
    \<Rightarrow> ModelAttemptFilter \<Rightarrow> ModelCost list result option" where
  "AggregateModelCosts upper repo flt = (case repo of
     None \<Rightarrow> Some (Inl (Errorf ''lebro: model attempt repository is required'' []))
   | Some list \<Rightarrow> map_option (map_sum id (\<lambda>totals. sort_key (\<lambda>c. (mc_Currency c, mc_Source c)) (mvals totals)))
       (aggregate_pages upper flt (list flt) [] []))"

section \<open>Sums\<close>

definition amounts :: "CostComponent list \<Rightarrow> rat" where
  "amounts cs = sum_list (map (\<lambda>c. dval (cc_Amount c)) cs)"

lemma dval_Nil [simp]: "dval [] = 0"
  by (simp add: dval_def decimalParts_def dec_val_def)

lemma dval_zero [simp]: "dval ''0'' = 0"
  by (simp add: dval_def decimalParts_def dec_val_def digit_val_def)

lemma canonical_zero: "canonical ''0''"
  unfolding canonical_def by code_simp

lemma canonical_nonempty: "canonical d \<Longrightarrow> d \<noteq> []"
proof
  assume "canonical d" "d = []"
  moreover have "ParseDecimal [] \<noteq> Inr []" by code_simp
  ultimately show False by (simp add: canonical_def)
qed

lemma canonical_valid: "canonical d \<Longrightarrow> Decimal_validate d = None"
  by (simp add: canonical_def Decimal_validate_def)

lemma foldl_amounts:
  "dval (foldl (\<lambda>sum c. decimalAdd sum (cc_Amount c)) d cs) = dval d + amounts cs"
  "canonical d \<Longrightarrow> canonical (foldl (\<lambda>sum c. decimalAdd sum (cc_Amount c)) d cs)"
  by (induction cs arbitrary: d) (simp_all add: amounts_def decimalAdd_exact decimalAdd_canonical)

lemma amounts_add:
  "0 \<le> tokens \<Longrightarrow> amounts (add_component kind tokens r cs) = amounts cs + dval r * of_int tokens / 10 ^ 6"
  by (simp add: add_component_def amounts_def decimalMulPerMillion_exact)

lemma components_add:
  "0 \<le> tokens \<Longrightarrow> kind \<noteq> [] \<Longrightarrow> cost_components_err cs = None \<Longrightarrow> cost_components_err (add_component kind tokens r cs) = None"
  by (auto simp: add_component_def cost_components_err_def canonical_valid canonical_nonempty decimalMulPerMillion_canonical)

definition usage_ok :: "ModelUsage \<Rightarrow> bool" where
  "usage_ok u \<longleftrightarrow> validateUsage u = None \<and> list_all in_int64 [us_InputTokens u, us_OutputTokens u, us_CacheReadTokens u,
     us_CacheWriteTokens u, us_CacheWrite1hTokens u] \<and> us_CacheReadTokens u + us_CacheWriteTokens u \<le> max_int64"

definition charged_input :: "string \<Rightarrow> ModelUsage \<Rightarrow> int" where
  "charged_input domain u = (if domain = PricingDomainAnthropic then us_InputTokens u
     else us_InputTokens u - us_CacheReadTokens u - us_CacheWriteTokens u)"

text \<open>The exact price of a usage in units of a millionth of the currency.\<close>

definition exact_price :: "string \<Rightarrow> tokenRate \<Rightarrow> ModelUsage \<Rightarrow> rat" where
  "exact_price domain rate u = dval (rt_input rate) * of_int (charged_input domain u)
     + dval (rt_cacheRead rate) * of_int (us_CacheReadTokens u)
     + dval (rt_cacheWrite5m rate) * of_int (us_CacheWriteTokens u - us_CacheWrite1hTokens u)
     + dval (rt_cacheWrite1h rate) * of_int (us_CacheWrite1hTokens u)
     + dval (rt_output rate) * of_int (us_OutputTokens u)"

lemma usage_bounds:
  assumes "usage_ok u"
  shows "0 \<le> us_InputTokens u" "0 \<le> us_OutputTokens u" "0 \<le> us_CacheReadTokens u" "0 \<le> us_CacheWriteTokens u"
    "0 \<le> us_CacheWrite1hTokens u" "uncached_input domain u = charged_input domain u"
    "wrap64 (us_CacheWriteTokens u - us_CacheWrite1hTokens u) = us_CacheWriteTokens u - us_CacheWrite1hTokens u"
  using assms by (auto simp: usage_ok_def validateUsage_def uncached_input_def charged_input_def in_int64_def
      min_int64_def max_int64_def intro!: wrap64_id) (subst wrap64_id; simp add: in_int64_def min_int64_def max_int64_def)+

lemma price_estimated:
  assumes "usage_ok u" "mc_Source (price domain rate u) = CostEstimated"
  shows "0 \<le> charged_input domain u" "us_CacheWrite1hTokens u \<le> us_CacheWriteTokens u"
    "dval (mc_Amount (price domain rate u)) = exact_price domain rate u / 10 ^ 6"
    "amounts (mc_Components (price domain rate u)) = dval (mc_Amount (price domain rate u))"
    "mc_Domain (price domain rate u) = domain"
proof -
  note bounds = usage_bounds [OF assms(1)]
  show pos: "0 \<le> charged_input domain u" "us_CacheWrite1hTokens u \<le> us_CacheWriteTokens u"
    using assms(2) bounds by (auto simp: price_def Let_def UnavailableModelCost_def CostEstimated_def CostUnavailable_def split: if_splits)
  then show "dval (mc_Amount (price domain rate u)) = exact_price domain rate u / 10 ^ 6"
    using bounds by (simp add: price_def Let_def foldl_amounts amounts_add exact_price_def amounts_def [of "[]"] add_divide_distrib)
  show "amounts (mc_Components (price domain rate u)) = dval (mc_Amount (price domain rate u))"
    using bounds pos by (simp add: price_def Let_def foldl_amounts)
  show "mc_Domain (price domain rate u) = domain"
    by (simp add: price_def Let_def UnavailableModelCost_def)
qed

lemma unavailable_valid: "reason \<noteq> [] \<Longrightarrow> ModelCost_Validate (UnavailableModelCost domain reason) = None"
  by (simp add: ModelCost_Validate_def UnavailableModelCost_def zero_cost_def cost_components_err_def)

lemma price_valid:
  assumes "usage_ok u"
  shows "ModelCost_Validate (price domain rate u) = None"
proof (cases "mc_Source (price domain rate u) = CostEstimated")
  case True
  note bounds = usage_bounds [OF assms] price_estimated(1,2) [OF assms True]
  have "trim_space ''USD'' \<noteq> []" by code_simp
  moreover have "cost_components_err [] = None" by (simp add: cost_components_err_def)
  ultimately show ?thesis
    using bounds canonical_nonempty [OF foldl_amounts(2) [OF canonical_zero]] canonical_valid [OF foldl_amounts(2) [OF canonical_zero]]
    by (simp add: ModelCost_Validate_def price_def Let_def components_add CostEstimated_def CostUnavailable_def)
next
  case False
  then show ?thesis
    by (auto simp: price_def Let_def unavailable_valid CostUnavailableMissingDimension_def split: if_splits)
qed

section \<open>Totals\<close>

definition costs_of :: "(nat \<Rightarrow> nat) \<Rightarrow> ModelAttemptFilter \<Rightarrow> string \<Rightarrow> string \<Rightarrow> ModelCost list \<Rightarrow> ModelCost list" where
  "costs_of upper flt currency source = filter (\<lambda>c. counted flt c \<and> ToUpper upper (mc_Currency c) = currency \<and> mc_Source c = source)"

definition cost_sum :: "ModelCost list \<Rightarrow> rat" where
  "cost_sum cs = sum_list (map (\<lambda>c. dval (mc_Amount c)) cs)"

definition total_ok :: "(nat \<Rightarrow> nat) \<Rightarrow> ModelAttemptFilter \<Rightarrow> ModelCost list \<Rightarrow> string \<Rightarrow> ModelCost \<Rightarrow> bool" where
  "total_ok upper flt costs k t \<longleftrightarrow> k = mc_Currency t @ CHR 0x00 # mc_Source t \<and> mc_Source t \<noteq> [] \<and> CHR 0x00 \<notin> set (mc_Source t)
     \<and> costs_of upper flt (mc_Currency t) (mc_Source t) costs \<noteq> []
     \<and> dval (mc_Amount t) = cost_sum (costs_of upper flt (mc_Currency t) (mc_Source t) costs)"

definition totals_ok :: "(nat \<Rightarrow> nat) \<Rightarrow> ModelAttemptFilter \<Rightarrow> ModelCost list \<Rightarrow> (string, ModelCost) gomap \<Rightarrow> bool" where
  "totals_ok upper flt costs totals \<longleftrightarrow> gm_ok totals
     \<and> (\<forall>k t. mget totals k = Some t \<longrightarrow> total_ok upper flt costs k t)
     \<and> (\<forall>c \<in> set costs. counted flt c \<longrightarrow> mget totals (total_key upper c) \<noteq> None)"

lemma counted_source:
  assumes "counted flt c"
  shows "mc_Source c \<noteq> []" "CHR 0x00 \<notin> set (mc_Source c)"
proof -
  have "mc_Source c \<in> {CostProviderReported, CostDeveloperSupplied, CostEstimated}"
    using assms by (auto simp: counted_def ModelCost_Validate_def split: if_splits)
  then show "mc_Source c \<noteq> []" "CHR 0x00 \<notin> set (mc_Source c)"
    by (auto simp only: CostProviderReported_def CostDeveloperSupplied_def CostEstimated_def insert_iff empty_iff) simp_all
qed

lemma costs_of_snoc: "costs_of upper flt cur src (costs @ [c]) = costs_of upper flt cur src costs
    @ (if counted flt c \<and> ToUpper upper (mc_Currency c) = cur \<and> mc_Source c = src then [c] else [])"
  by (simp add: costs_of_def)

lemma total_key_eq:
  assumes "counted flt c" "total_ok upper flt costs k t"
  shows "k = total_key upper c \<longleftrightarrow> mc_Currency t = ToUpper upper (mc_Currency c) \<and> mc_Source t = mc_Source c"
  using assms cut_last_inj [of "CHR 0x00" "mc_Source t" "mc_Source c" "mc_Currency t" "ToUpper upper (mc_Currency c)"]
    counted_source [OF assms(1)] by (auto simp: total_ok_def total_key_def)

lemma cost_sum_simps [simp]: "cost_sum [] = 0" "cost_sum [c] = dval (mc_Amount c)" "cost_sum (cs @ [c]) = cost_sum cs + dval (mc_Amount c)"
  by (simp_all add: cost_sum_def)

lemma no_costs_of:
  assumes "totals_ok upper flt costs totals" "counted flt c" "mget totals (total_key upper c) = None"
  shows "costs_of upper flt (ToUpper upper (mc_Currency c)) (mc_Source c) costs = []"
  unfolding costs_of_def filter_empty_conv
proof (intro ballI notI)
  fix d
  assume "d \<in> set costs" "counted flt d \<and> ToUpper upper (mc_Currency d) = ToUpper upper (mc_Currency c) \<and> mc_Source d = mc_Source c"
  moreover from this have "mget totals (total_key upper d) \<noteq> None" using assms(1) unfolding totals_ok_def by blast
  ultimately show False using assms(3) by (simp add: total_key_def)
qed

lemma add_cost_ok:
  assumes "totals_ok upper flt costs totals"
  shows "totals_ok upper flt (costs @ [c]) (add_cost upper flt totals c)"
proof (cases "counted flt c")
  case False
  with assms show ?thesis by (auto simp: totals_ok_def total_ok_def add_cost_def costs_of_snoc)
next
  case True
  let ?k = "total_key upper c" and ?cur = "ToUpper upper (mc_Currency c)" and ?src = "mc_Source c"
  have other: "total_ok upper flt (costs @ [c]) k t" if "mget totals k = Some t" "k \<noteq> ?k" for k t
  proof -
    have t: "total_ok upper flt costs k t" using assms that(1) by (simp add: totals_ok_def)
    with total_key_eq [OF True t] that(2) show ?thesis by (auto simp: total_ok_def costs_of_snoc)
  qed
  define base where "base = (case mget totals ?k of None \<Rightarrow> zero_cost\<lparr>mc_Currency := ?cur, mc_Source := ?src, mc_Amount := ''0''\<rparr>
    | Some u \<Rightarrow> u)"
  define t where "t = base\<lparr>mc_Amount := decimalAdd (mc_Amount base) (mc_Amount c)\<rparr>"
  have "add_cost upper flt totals c = mset_at ?k t totals \<and> total_ok upper flt (costs @ [c]) ?k t"
  proof (cases "mget totals ?k")
    case None
    with True no_costs_of [OF assms True None] counted_source [OF True] show ?thesis
      by (simp add: t_def base_def add_cost_def Let_def zero_cost_def total_ok_def costs_of_snoc decimalAdd_exact)
         (simp add: total_key_def)
  next
    case (Some u)
    have u: "total_ok upper flt costs ?k u" using assms Some by (simp add: totals_ok_def)
    with True Some total_key_eq [OF True u] show ?thesis
      by (simp add: t_def base_def add_cost_def Let_def total_ok_def costs_of_snoc decimalAdd_exact)
  qed
  then have add: "add_cost upper flt totals c = mset_at ?k t totals" and t: "total_ok upper flt (costs @ [c]) ?k t" by simp_all
  have "mget (mset_at ?k t totals) (total_key upper d) \<noteq> None" if "d \<in> set (costs @ [c])" "counted flt d" for d
    using that assms by (auto simp: totals_ok_def)
  moreover have "gm_ok (mset_at ?k t totals)" using assms by (simp add: totals_ok_def gm_ok_mset_at)
  moreover have "total_ok upper flt (costs @ [c]) k v" if "mget (mset_at ?k t totals) k = Some v" for k v
    using that t other by (auto split: if_splits)
  ultimately show ?thesis unfolding add totals_ok_def by blast
qed

lemma add_costs_ok: "totals_ok upper flt costs (foldl (add_cost upper flt) [] costs)"
  by (induction costs rule: rev_induct) (simp add: totals_ok_def, simp add: add_cost_ok)

lemma aggregate_collected:
  "collect_pages repo limit cursor acc = Some r \<Longrightarrow> limit = 250 \<Longrightarrow> r = Inr records \<Longrightarrow>
   aggregate_pages upper flt repo cursor (foldl (add_cost upper flt) totals (attempt_costs acc))
     = Some (Inr (foldl (add_cost upper flt) totals (attempt_costs records)))"
proof (induction repo limit cursor acc r rule: collect_pages.raw_induct [rotated 1, consumes 1, case_names step])
  case (step self fetch limit cursor acc r)
  note eq = aggregate_pages.simps [of upper flt fetch cursor]
  show ?case
  proof (cases "fetch \<lparr>pr_Cursor = cursor, pr_Limit = limit\<rparr>")
    case (Inr page)
    then show ?thesis
      using step.hyps step.prems step.IH [of fetch limit "pg_NextCursor page" "acc @ pg_Records page" r]
      by (cases "pg_NextCursor page = []") (auto simp: eq Let_def attempt_costs_def)
  qed (use step.hyps step.prems in simp)
qed

lemma totals_keys:
  assumes "totals_ok upper flt costs totals"
  shows "distinct (mvals totals)" "inj_on (\<lambda>t. (mc_Currency t, mc_Source t)) (set (mvals totals))"
proof -
  let ?join = "\<lambda>(currency, source). currency @ CHR 0x00 # source" and ?key = "\<lambda>t. (mc_Currency t, mc_Source t)"
  have gm: "gm_ok totals" using assms by (simp add: totals_ok_def)
  have "map fst totals = map (\<lambda>kt. ?join (?key (snd kt))) totals"
  proof (rule map_cong [OF refl])
    fix kt assume "kt \<in> set totals"
    with gm have "mget totals (fst kt) = Some (snd kt)" by (simp add: gm_ok_def mget_def)
    with assms show "fst kt = ?join (?key (snd kt))" by (simp add: totals_ok_def total_ok_def)
  qed
  also have "\<dots> = map ?join (map ?key (mvals totals))" by (simp add: mvals_def)
  finally have "distinct (map ?join (map ?key (mvals totals)))" using gm by (simp only: gm_ok_def)
  then have "distinct (map ?key (mvals totals))" by (simp only: distinct_map)
  then show "distinct (mvals totals)" "inj_on ?key (set (mvals totals))" by (simp_all add: distinct_map)
qed

section \<open>Properties\<close>

text \<open>C18 resolve_cost_exact: the resolver answers a cost that passes validation, or the zero cost when the provider
  reported one itself. An estimate is exactly the sum over the token dimensions of the count times the catalog's
  rate per million, with no rounding and no dimension with tokens left out for want of a rate, and it is the sum
  of its components.\<close>

theorem resolve_cost_exact:
  assumes "usage_ok (at_Usage a)"
  shows "(ResolveCost lower a = zero_cost \<or> ModelCost_Validate (ResolveCost lower a) = None)
    \<and> (mc_Source (ResolveCost lower a) = CostEstimated \<longrightarrow>
        (\<exists>rate. catalog_rate lower (mc_Domain (ResolveCost lower a)) a = Some rate
          \<and> dval (mc_Amount (ResolveCost lower a)) = exact_price (mc_Domain (ResolveCost lower a)) rate (at_Usage a) / 10 ^ 6
          \<and> amounts (mc_Components (ResolveCost lower a)) = dval (mc_Amount (ResolveCost lower a))
          \<and> \<not> missing_dimension (at_Usage a) rate
          \<and> 0 \<le> charged_input (mc_Domain (ResolveCost lower a)) (at_Usage a)))"
proof -
  let ?domain = "Accounting_Domain (at_Accounting a)"
  define domain where "domain = (if ?domain = [] then domainForProvider (at_Provider a) else ?domain)"
  define reasons where "reasons = {CostUnavailableUnknownModel, CostUnavailableMissingUsage, CostUnavailableMissingDimension, CostUnavailableUnsupportedTerms}"
  have cases: "ResolveCost lower a = zero_cost \<or> (\<exists>d. \<exists>reason \<in> reasons. ResolveCost lower a = UnavailableModelCost d reason)
      \<or> (\<exists>rate. ResolveCost lower a = price domain rate (at_Usage a) \<and> catalog_rate lower domain a = Some rate
            \<and> \<not> missing_dimension (at_Usage a) rate)"
    by (auto simp: ResolveCost_def Let_def reasons_def domain_def [symmetric] split: option.split)
  have "reason \<noteq> []" if "reason \<in> reasons" for reason
    using that by (auto simp: reasons_def CostUnavailableUnknownModel_def CostUnavailableMissingUsage_def
        CostUnavailableMissingDimension_def CostUnavailableUnsupportedTerms_def)
  with cases assms price_valid have "ResolveCost lower a = zero_cost \<or> ModelCost_Validate (ResolveCost lower a) = None"
    by (metis unavailable_valid)
  moreover have "\<not> mc_Source (ResolveCost lower a) = CostEstimated"
    if "ResolveCost lower a = zero_cost \<or> (\<exists>d. \<exists>reason \<in> reasons. ResolveCost lower a = UnavailableModelCost d reason)"
    using that by (auto simp: zero_cost_def UnavailableModelCost_def CostEstimated_def CostUnavailable_def)
  ultimately show ?thesis using cases price_estimated [OF assms] by metis
qed

text \<open>C17 aggregate_costs_exact: aggregating the costs of a store ends and returns, for each currency (in upper case) and
  source that occurs among the valid available costs of the matching attempts, exactly one total, the exact sum of
  those amounts; totals are ordered by currency and source. Nothing is lost or counted twice across pages.\<close>

theorem aggregate_costs_exact:
  assumes "cx_Err ctx = None" "validCostSource (af_CostSource flt)" "int (length (matchedAttempts s flt)) \<le> max_int64"
  shows "\<exists>result. AggregateModelCosts upper (Some (listModelAttempts ctx s)) flt = Some (Inr result)
    \<and> sorted_wrt (\<lambda>t t'. (mc_Currency t, mc_Source t) < (mc_Currency t', mc_Source t')) result
    \<and> (\<lambda>t. (mc_Currency t, mc_Source t)) ` set result = (\<lambda>c. (ToUpper upper (mc_Currency c), mc_Source c)) `
        {c \<in> set (attempt_costs (matchedAttempts s flt)). counted flt c}
    \<and> (\<forall>t \<in> set result. dval (mc_Amount t)
        = cost_sum (costs_of upper flt (mc_Currency t) (mc_Source t) (attempt_costs (matchedAttempts s flt))))"
proof -
  let ?costs = "attempt_costs (matchedAttempts s flt)" and ?key = "\<lambda>t. (mc_Currency t, mc_Source t)"
  define totals where "totals = foldl (add_cost upper flt) [] ?costs"
  have ok: "totals_ok upper flt ?costs totals" by (simp add: totals_def add_costs_ok)
  have "listModelAttempts ctx s flt = (\<lambda>p. paginate (matchedAttempts s flt) p (\<lambda>v. v))"
    using assms(1,2) by (simp add: fun_eq_iff listModelAttempts_def)
  moreover have "collect_pages (\<lambda>p. paginate (matchedAttempts s flt) p (\<lambda>v. v)) 250 [] [] = Some (Inr (matchedAttempts s flt))"
    using paged.collect_all [of "\<lambda>v. v" "matchedAttempts s flt" 250] assms(3) by simp
  ultimately have "aggregate_pages upper flt (listModelAttempts ctx s flt) [] [] = Some (Inr totals)"
    using aggregate_collected [of "listModelAttempts ctx s flt" 250 "[]" "[]" _ "matchedAttempts s flt" upper flt "[]"]
    by (simp add: totals_def attempt_costs_def)
  then have result: "AggregateModelCosts upper (Some (listModelAttempts ctx s)) flt = Some (Inr (sort_key ?key (mvals totals)))"
    by (simp add: AggregateModelCosts_def)
  have mem: "t \<in> set (mvals totals) \<longleftrightarrow> (\<exists>k. mget totals k = Some t)" for t
    using ok by (simp add: totals_ok_def mvals_mget)
  have total: "total_ok upper flt ?costs k t" if "mget totals k = Some t" for k t
    using ok that by (simp add: totals_ok_def)
  have "?key ` set (mvals totals) = (\<lambda>c. (ToUpper upper (mc_Currency c), mc_Source c)) ` {c \<in> set ?costs. counted flt c}"
  proof (intro equalityI subsetI)
    fix x assume "x \<in> ?key ` set (mvals totals)"
    then obtain k t where "mget totals k = Some t" "x = ?key t" using mem by auto
    with total [of k t] show "x \<in> (\<lambda>c. (ToUpper upper (mc_Currency c), mc_Source c)) ` {c \<in> set ?costs. counted flt c}"
      by (auto simp: total_ok_def costs_of_def filter_empty_conv image_iff)
  next
    fix x assume "x \<in> (\<lambda>c. (ToUpper upper (mc_Currency c), mc_Source c)) ` {c \<in> set ?costs. counted flt c}"
    then obtain c where c: "c \<in> set ?costs" "counted flt c" "x = (ToUpper upper (mc_Currency c), mc_Source c)" by auto
    then obtain t where t: "mget totals (total_key upper c) = Some t" using ok unfolding totals_ok_def by blast
    then have "x = ?key t" "t \<in> set (mvals totals)" using total_key_eq [OF c(2) total [OF t]] c(3) mem by auto
    then show "x \<in> ?key ` set (mvals totals)" by (rule image_eqI)
  qed
  with result sorted_key_strict [OF totals_keys [OF ok]] mem total show ?thesis by (auto simp: total_ok_def)
qed

text \<open>Evaluation over integers.\<close>

function show_int :: "int \<Rightarrow> string" where
  "show_int i = (if i < 10 then [digit_char (nat i)] else show_int (i div 10) @ [digit_char (nat (i mod 10))])"
  by pat_completeness auto
termination
  by (relation "measure nat") auto

declare show_int.simps [simp del]

lemma show_nat_int: "show_nat n = show_int (int n)"
proof (induction n rule: show_nat.induct)
  case (1 n)
  show ?case
  proof (cases "n < 10")
    case True
    then show ?thesis by (simp add: show_nat.simps [of n] show_int.simps [of "int n"])
  next
    case False
    then show ?thesis using 1 by (simp add: show_nat.simps [of n] show_int.simps [of "int n"] zdiv_int nat_mod_distrib)
  qed
qed

lemma itoa_code [code]: "itoa i = (if i < 0 then CHR ''-'' # show_int (- i) else show_int i)"
  by (simp add: itoa_def show_nat_int)

definition dec_int :: "string \<Rightarrow> int" where
  "dec_int = foldl (\<lambda>acc c. acc * 10 + int (digit_val c)) 0"

lemma dec_val_int: "int (dec_val n s) = foldl (\<lambda>acc c. acc * 10 + int (digit_val c)) (int n) s"
  by (induction s arbitrary: n) (simp_all add: dec_val_def)

lemma decimalParts_code [code]: "decimalParts d = (case cut_byte (CHR ''.'') d of (ip, fp, found) \<Rightarrow>
     if found then (dec_int (ip @ fp), length fp) else (dec_int d, 0))"
  by (simp add: decimalParts_def dec_int_def dec_val_int [of 0, simplified] split: prod.split)

definition sample_attempt :: ModelAttemptRecord where
  "sample_attempt = \<lparr>at_ID = ''a1'', at_RunID = ''r1'', at_ThreadID = [], at_Namespace = ''acme'', at_OwnerID = ''ada'',
     at_ExecutionID = [], at_StepID = [], at_Step = 0, at_Index = 0, at_Provider = ''anthropic'',
     at_Model = '' Anthropic/Claude-Opus-5'', at_RoutedModel = [], at_Status = ''succeeded'', at_FinishReason = [],
     at_Usage = zero_usage\<lparr>us_InputTokens := 1000, us_OutputTokens := 200, us_CacheWriteTokens := 10\<rparr>, at_StartedAt = 0,
     at_FinishedAt = 0, at_ProducedMessageIDs = [], at_ErrorKind = [], at_ErrorMessage = [], at_ProviderRequestID = [],
     at_CostMicros = 0, at_Currency = [], at_Accounting = \<lparr>ac_ProviderRequestID = [], ac_ServiceTier = [], ac_Region = [],
       ac_Costs = [zero_cost\<lparr>mc_Currency := ''usd'', mc_Amount := ''0.1'', mc_Source := CostDeveloperSupplied\<rparr>,
         zero_cost\<lparr>mc_Currency := ''USD'', mc_Amount := ''0.2'', mc_Source := CostDeveloperSupplied\<rparr>]\<rparr>, at_Metadata = []\<rparr>"

definition any_attempt :: ModelAttemptFilter where
  "any_attempt = \<lparr>af_RunID = [], af_ThreadID = [], af_Namespace = [], af_OwnerID = [], af_ExecutionID = [], af_Provider = [],
     af_Model = [], af_Status = [], af_From = zero_time, af_To = zero_time, af_CostSource = []\<rparr>"

definition sample_attempts :: memoryState where
  "sample_attempts = newMemoryState\<lparr>attempts := [(''r1'', [sample_attempt])]\<rparr>"

theorem resolve_cost_exact_witness:
  "mc_Amount (ResolveCost id sample_attempt) = ''0.0100625''
   \<and> (\<exists>rate. catalog_rate id PricingDomainAnthropic sample_attempt = Some rate
        \<and> dval ''0.0100625'' = exact_price PricingDomainAnthropic rate (at_Usage sample_attempt) / 10 ^ 6)"
proof -
  have "usage_ok (at_Usage sample_attempt)" by code_simp
  moreover have "mc_Source (ResolveCost id sample_attempt) = CostEstimated" by code_simp
  moreover have "mc_Domain (ResolveCost id sample_attempt) = PricingDomainAnthropic" by code_simp
  moreover have "mc_Amount (ResolveCost id sample_attempt) = ''0.0100625''" by code_simp
  ultimately show ?thesis using resolve_cost_exact [of sample_attempt id] by simp metis
qed

theorem aggregate_costs_exact_witness:
  "\<exists>result. AggregateModelCosts id (Some (listModelAttempts background sample_attempts)) any_attempt = Some (Inr result)
     \<and> (\<lambda>t. (mc_Currency t, mc_Source t)) ` set result = {(''USD'', CostDeveloperSupplied)}
     \<and> (\<forall>t \<in> set result. dval (mc_Amount t) = 3 / 10)"
proof -
  let ?costs = "attempt_costs (matchedAttempts sample_attempts any_attempt)"
  let ?key = "\<lambda>t. (mc_Currency t, mc_Source t)"
  have keys: "(\<lambda>c. (ToUpper id (mc_Currency c), mc_Source c)) ` {c \<in> set ?costs. counted any_attempt c}
      = {(''USD'', CostDeveloperSupplied)}" by code_simp
  have sum: "cost_sum (costs_of id any_attempt ''USD'' CostDeveloperSupplied ?costs) = 3 / 10" by code_simp
  have hyps: "cx_Err background = None" "validCostSource (af_CostSource any_attempt)"
    "int (length (matchedAttempts sample_attempts any_attempt)) \<le> max_int64" by code_simp+
  from aggregate_costs_exact [OF hyps, of id] obtain result where
    r: "AggregateModelCosts id (Some (listModelAttempts background sample_attempts)) any_attempt = Some (Inr result)"
    and k: "?key ` set result = {(''USD'', CostDeveloperSupplied)}"
    and t: "\<forall>t \<in> set result. dval (mc_Amount t) = cost_sum (costs_of id any_attempt (mc_Currency t) (mc_Source t) ?costs)"
    unfolding keys by blast
  have "dval (mc_Amount t) = 3 / 10" if "t \<in> set result" for t
  proof -
    have "?key t = (''USD'', CostDeveloperSupplied)" using k that by blast
    then show ?thesis using t that sum by auto
  qed
  with r k show ?thesis by blast
qed

end
