(* ===== verification/Chunking.thy ===== *)
theory Chunking
  imports Utf8 Authz "HOL-Library.Sublist"
begin

text \<open>
  Document chunking: \<^verbatim>\<open>rag_chunker.go\<close>, \<^verbatim>\<open>rag_recursive_chunker.go\<close> and the document and chunk records of
  \<^verbatim>\<open>rag.go\<close>. Sizes and overlaps are counted in runes. A context does not change during a call. The text
  of an error of \<^verbatim>\<open>encoding/json\<close> is not modelled.
\<close>

section \<open>Documents and chunks\<close>

record Document =
  dc_ID :: string
  dc_Content :: string
  dc_Source :: string
  dc_Metadata :: RawMessage

record Chunk =
  ck_ID :: string
  ck_DocumentID :: string
  ck_Content :: string
  ck_Source :: string
  ck_Index :: int
  ck_Metadata :: RawMessage

definition reservedChunkMetadataKeys :: "string list" where
  "reservedChunkMetadataKeys = [''document_id'', ''source'', ''chunk_index'']"

definition Document_Validate :: "Document \<Rightarrow> go_error option" where
  "Document_Validate d = first_err [
     chk (dc_ID d = []) (Errorf ''lebro: document ID is required'' []),
     chk (dc_Content d = []) (Errorf ''lebro: document content is required'' []),
     (if raw_bytes (dc_Metadata d) = [] then None
      else case json_parse (raw_bytes (dc_Metadata d)) of
        Some (JObj ms, _) \<Rightarrow> first_err (map (\<lambda>reserved. chk (reserved \<in> fst ` set ms)
           (Errorf ''lebro: document metadata must not set reserved key %q'' [reserved])) reservedChunkMetadataKeys)
      | Some (JNull, _) \<Rightarrow> Some (Errorf ''lebro: document metadata must be a JSON object, got null'' [])
      | _ \<Rightarrow> Some (Wrapf ''lebro: document metadata must be a JSON object: %w'' [] (Errorf ''json'' [])))]"

definition Chunk_Validate :: "Chunk \<Rightarrow> go_error option" where
  "Chunk_Validate c = first_err [
     chk (ck_ID c = []) (Errorf ''lebro: chunk ID is required'' []),
     chk (ck_DocumentID c = []) (Errorf ''lebro: chunk document ID is required'' []),
     chk (ck_Content c = []) (Errorf ''lebro: chunk content is required'' []),
     chk (ck_Index c < 0) (Errorf ''lebro: chunk index must not be negative'' []),
     wrap_err ''lebro: chunk metadata %s'' [] (validateJSON (ck_Metadata c))]"

definition ChunkID :: "string \<Rightarrow> int \<Rightarrow> string" where
  "ChunkID documentID index = documentID @ ''#'' @ itoa index"

definition chunkContents :: "Document \<Rightarrow> string list \<Rightarrow> Chunk list" where
  "chunkContents document contents = map (\<lambda>(index, content). \<lparr>ck_ID = ChunkID (dc_ID document) (int index),
     ck_DocumentID = dc_ID document, ck_Content = content, ck_Source = dc_Source document, ck_Index = int index,
     ck_Metadata = cloneJSON (dc_Metadata document)\<rparr>) (enumerate 0 contents)"

section \<open>Shared checks\<close>

definition DefaultChunkSize :: int where "DefaultChunkSize = 1000"

definition chunkerSize :: "int \<Rightarrow> int result" where
  "chunkerSize sz = (if sz = 0 then Inr DefaultChunkSize
     else if sz < 0 then Inl (Errorf ''lebro: chunk size must not be negative'' []) else Inr sz)"

definition size_and_overlap :: "int \<Rightarrow> int \<Rightarrow> (int \<times> int) result" where
  "size_and_overlap sz overlap = (case chunkerSize sz of Inl e \<Rightarrow> Inl e
     | Inr sz \<Rightarrow> if overlap < 0 then Inl (Errorf ''lebro: chunk overlap must not be negative'' [])
         else if sz \<le> overlap
         then Inl (Errorf ''lebro: chunk overlap %d must be less than chunk size %d'' [itoa overlap, itoa sz])
         else Inr (sz, overlap))"

definition invalid_document :: "Document \<Rightarrow> go_error \<Rightarrow> go_error" where
  "invalid_document document e = Wrapf ''rag_invalid_document'' [dc_ID document] e"

definition validateChunkerInput :: "Context option \<Rightarrow> Document \<Rightarrow> go_error option" where
  "validateChunkerInput ctx document = (case ctx of None \<Rightarrow> Some (Errorf ''lebro: chunker context is nil'' [])
     | Some ctx \<Rightarrow> first_err [cx_Err ctx, map_option (invalid_document document) (Document_Validate document),
         chk (\<not> utf8_valid (dc_Content document))
           (invalid_document document (Errorf ''lebro: document content must be valid UTF-8'' []))])"

section \<open>Character windows\<close>

record CharacterChunker =
  ch_size :: int
  ch_overlap :: int

definition NewCharacterChunker :: "int \<Rightarrow> int \<Rightarrow> CharacterChunker result" where
  "NewCharacterChunker sz overlap = map_sum id (\<lambda>(s, ov). \<lparr>ch_size = s, ch_overlap = ov\<rparr>) (size_and_overlap sz overlap)"

text \<open>The loop of \<^verbatim>\<open>CharacterChunker.Chunk\<close> over the runes of the document; the stride is positive.\<close>

function char_windows :: "nat \<Rightarrow> nat \<Rightarrow> nat list \<Rightarrow> nat \<Rightarrow> nat list list" where
  "char_windows sz stride rs start = (if start < length rs \<and> 0 < stride
     then let stop = (if length rs < start + sz then length rs else start + sz) in
       take (stop - start) (drop start rs) # (if stop = length rs then [] else char_windows sz stride rs (start + stride))
     else [])"
  by pat_completeness auto
termination
  by (relation "measure (\<lambda>(sz, stride, rs, start). length rs - start)") auto

declare char_windows.simps [simp del]

definition CharacterChunker_Chunk :: "CharacterChunker option \<Rightarrow> Context option \<Rightarrow> Document \<Rightarrow> Chunk list result" where
  "CharacterChunker_Chunk ch ctx document = (case ch of None \<Rightarrow> Inl (Errorf ''lebro: character chunker is nil'' [])
     | Some c \<Rightarrow> (case validateChunkerInput ctx document of Some e \<Rightarrow> Inl e
         | None \<Rightarrow> Inr (chunkContents document (map string_of_runes
             (char_windows (nat (ch_size c)) (nat (ch_size c - ch_overlap c)) (runes (dc_Content document)) 0)))))"

text \<open>The sliding-window chunker is a character chunker under another name; a nil inner chunker is refused.\<close>

definition NewSlidingWindowChunker :: "int \<Rightarrow> int \<Rightarrow> CharacterChunker option result" where
  "NewSlidingWindowChunker sz overlap = map_sum id Some (NewCharacterChunker sz overlap)"

definition SlidingWindowChunker_Chunk :: "CharacterChunker option option \<Rightarrow> Context option \<Rightarrow> Document \<Rightarrow> Chunk list result" where
  "SlidingWindowChunker_Chunk ch ctx document = (case ch of Some (Some c) \<Rightarrow> CharacterChunker_Chunk (Some c) ctx document
     | _ \<Rightarrow> Inl (Errorf ''lebro: sliding-window chunker is nil'' []))"

section \<open>Recursive splitting\<close>

record RecursiveChunker =
  rc_size :: int
  rc_overlap :: int
  rc_separators :: "string list"

definition NewRecursiveChunker :: "int \<Rightarrow> int \<Rightarrow> string list option \<Rightarrow> RecursiveChunker result" where
  "NewRecursiveChunker sz overlap separators = map_sum id (\<lambda>(s, ov). \<lparr>rc_size = s, rc_overlap = ov, rc_separators =
       (case separators of None \<Rightarrow> [[CHR 0x0A, CHR 0x0A], [CHR 0x0A], '' '', []]
        | Some seps \<Rightarrow> if seps = [] \<or> last seps \<noteq> [] then seps @ [[]] else seps)\<rparr>) (size_and_overlap sz overlap)"

text \<open>The leftmost occurrence of a separator, and \<^verbatim>\<open>strings.SplitAfter\<close> for a non-empty one.\<close>

fun cut_sub :: "string \<Rightarrow> string \<Rightarrow> (string \<times> string) option" where
  "cut_sub sep [] = (if sep = [] then Some ([], []) else None)"
| "cut_sub sep (c # cs) = (case strip_prefix sep (c # cs) of Some r \<Rightarrow> Some ([], r)
     | None \<Rightarrow> map_option (\<lambda>(a, r). (c # a, r)) (cut_sub sep cs))"

lemma cut_sub_Some: "cut_sub sep s = Some (a, r) \<Longrightarrow> s = a @ sep @ r"
proof (induction s arbitrary: a)
  case (Cons c cs)
  then show ?case by (auto simp: strip_prefix_eq split: option.splits)
qed (auto split: if_splits)

function SplitAfter :: "string \<Rightarrow> string \<Rightarrow> string list" where
  "SplitAfter sep s = (if sep = [] then [s] else case cut_sub sep s of None \<Rightarrow> [s]
     | Some (a, r) \<Rightarrow> (a @ sep) # SplitAfter sep r)"
  by pat_completeness auto
termination
  by (relation "measure (\<lambda>(sep, s). length s)") (auto dest!: cut_sub_Some)

declare SplitAfter.simps [simp del]

function splitRunes :: "string \<Rightarrow> string list" where
  "splitRunes s = (if s = [] then [] else case decode_rune s of (r, w) \<Rightarrow> take w s # splitRunes (drop w s))"
  by pat_completeness auto
termination
  by (relation "measure length") (auto dest: decode_rune_width [OF _ sym])

declare splitRunes.simps [simp del]

definition separator_index :: "string \<Rightarrow> string list \<Rightarrow> nat" where
  "separator_index text seps = (case List.extract (\<lambda>sep. sep = [] \<or> cut_sub sep text \<noteq> None) seps of
     None \<Rightarrow> length seps - 1 | Some (before, _, _) \<Rightarrow> length before)"

function splitAt :: "nat \<Rightarrow> string \<Rightarrow> string list \<Rightarrow> string list" where
  "splitAt sz text seps = (if rune_count text \<le> sz \<or> seps = [] then [text]
     else let i = separator_index text seps in
       if seps ! i = [] then splitRunes text
       else concat (map (\<lambda>part. if part = [] then [] else if rune_count part \<le> sz then [part]
              else splitAt sz part (drop (Suc i) seps)) (SplitAfter (seps ! i) text)))"
  by pat_completeness auto
termination
  by (relation "measure (\<lambda>(sz, text, seps). length seps)") auto

declare splitAt.simps [simp del]

section \<open>Merging\<close>

definition suffixRunes :: "string \<Rightarrow> nat \<Rightarrow> string" where
  "suffixRunes text n = (if length (runes text) \<le> n then text
     else string_of_runes (drop (length (runes text) - n) (runes text)))"

function prefix_loop :: "int \<Rightarrow> int \<Rightarrow> int \<Rightarrow> int \<Rightarrow> int" where
  "prefix_loop len partRunes sz start = (if sz < len - start + partRunes
     then prefix_loop len partRunes sz (start + 1) else start)"
  by pat_completeness auto
termination
  by (relation "measure (\<lambda>(len, partRunes, sz, start). nat (len - start + partRunes - sz))") auto

declare prefix_loop.simps [simp del]

text \<open>A slice start beyond the end is a panic, a value of its own here.\<close>

definition slice_panic :: go_error where
  "slice_panic = Errorf ''panic: slice bounds out of range'' []"

fun merge_loop :: "go_error option \<Rightarrow> nat \<Rightarrow> nat \<Rightarrow> string list \<Rightarrow> string \<Rightarrow> string list \<Rightarrow> (string list \<times> string) result" where
  "merge_loop err sz overlap chunks current [] = Inr (chunks, current)"
| "merge_loop err sz overlap chunks current (part # parts) = (case err of Some e \<Rightarrow> Inl e | None \<Rightarrow>
     if part = [] then merge_loop err sz overlap chunks current parts
     else if rune_count current + rune_count part \<le> sz
       then merge_loop err sz overlap chunks (current @ part) parts
     else let chunks' = (if current = [] then chunks else chunks @ [current]);
              prefixRunes = runes (suffixRunes current overlap);
              prefixStart = prefix_loop (int (length prefixRunes)) (int (rune_count part)) (int sz) 0 in
       if int (length prefixRunes) < prefixStart then Inl slice_panic
       else merge_loop err sz overlap chunks' (string_of_runes (drop (nat prefixStart) prefixRunes) @ part) parts)"

definition mergeChunkParts :: "go_error option \<Rightarrow> string list \<Rightarrow> nat \<Rightarrow> nat \<Rightarrow> string list result" where
  "mergeChunkParts err parts sz overlap = map_sum id
     (\<lambda>(chunks, current). if current = [] then chunks else chunks @ [current]) (merge_loop err sz overlap [] [] parts)"

definition RecursiveChunker_Chunk :: "RecursiveChunker option \<Rightarrow> Context option \<Rightarrow> Document \<Rightarrow> Chunk list result" where
  "RecursiveChunker_Chunk ch ctx document = (case ch of None \<Rightarrow> Inl (Errorf ''lebro: recursive chunker is nil'' [])
     | Some c \<Rightarrow> (case validateChunkerInput ctx document of Some e \<Rightarrow> Inl e
         | None \<Rightarrow> map_sum id (chunkContents document) (mergeChunkParts (case ctx of None \<Rightarrow> None | Some x \<Rightarrow> cx_Err x)
             (splitAt (nat (rc_size c)) (dc_Content document) (rc_separators c)) (nat (rc_size c)) (nat (rc_overlap c)))))"

section \<open>Rune boundaries\<close>

definition is_cont :: "char \<Rightarrow> bool" where
  "is_cont c = byte_in 0x80 0xBF c"

lemma decode_valid_prefix: "decode_valid s = Some (r, w) \<Longrightarrow> decode_valid (take w s @ t) = Some (r, w)"
  by (cases s) (auto simp: decode_lead_def decode2_def decode3_def decode4_def split: if_splits list.splits)

lemma decode_valid_bytes:
  assumes "decode_valid s = Some (r, w)"
  shows "\<not> is_cont (hd s)" "list_all is_cont (tl (take w s))"
  using assms by (cases s; auto simp: is_cont_def decode_lead_def decode2_def decode3_def decode4_def byte_in_def split: if_splits list.splits)+

lemma runes_step: "decode_valid s = Some (r, w) \<Longrightarrow> runes s = r # runes (drop w s)"
  by (cases s) (simp, subst runes.simps, simp add: decode_rune_def)

lemma utf8_valid_step: "decode_valid s = Some (r, w) \<Longrightarrow> utf8_valid s = utf8_valid (drop w s)"
  by (cases s) (simp, subst utf8_valid.simps, simp)

lemma utf8_valid_Nil [simp]: "utf8_valid []"
  by (subst utf8_valid.simps) simp

lemma decode_append:
  assumes "decode_valid a = Some (r, w)"
  shows "decode_valid (a @ b) = Some (r, w)" "drop w (a @ b) = drop w a @ b"
proof -
  have "w \<le> length a" using assms by (auto dest: decode_valid_width)
  then show "drop w (a @ b) = drop w a @ b" by simp
  show "decode_valid (a @ b) = Some (r, w)"
    using decode_valid_prefix [OF assms, of "drop w a @ b"] by (simp add: append_assoc [symmetric] del: append_assoc)
qed

lemma runes_append: "utf8_valid a \<Longrightarrow> runes (a @ b) = runes a @ runes b"
  and utf8_valid_append: "utf8_valid a \<Longrightarrow> utf8_valid (a @ b) = utf8_valid b"
proof (induction "length a" arbitrary: a rule: less_induct)
  case less
  {
    case 1
    show ?case
    proof (cases "a = []")
      case False
      then obtain r w where d: "decode_valid a = Some (r, w)" "utf8_valid (drop w a)" "1 \<le> w" "w \<le> length a"
        using utf8_valid_Some [OF 1] by metis
      have "length (drop w a) < length a" using d False by simp
      from less(1) [OF this d(2)] show ?thesis
        by (simp add: runes_step [OF d(1)] runes_step [OF decode_append(1) [OF d(1)]] d(4))
    qed simp
  next
    case 2
    show ?case
    proof (cases "a = []")
      case False
      then obtain r w where d: "decode_valid a = Some (r, w)" "utf8_valid (drop w a)" "1 \<le> w" "w \<le> length a"
        using utf8_valid_Some [OF 2] by metis
      have "length (drop w a) < length a" using d False by simp
      from less(2) [OF this d(2)] show ?thesis
        by (simp add: utf8_valid_step [OF decode_append(1) [OF d(1)]] d(4))
    qed simp
  }
qed

text \<open>A byte that starts a rune is a boundary: what comes before it in valid text is valid.\<close>

lemma utf8_valid_cut:
  "utf8_valid (a @ b) \<Longrightarrow> b \<noteq> [] \<Longrightarrow> \<not> is_cont (hd b) \<Longrightarrow> utf8_valid a"
proof (induction "length a" arbitrary: a rule: less_induct)
  case less
  show ?case
  proof (cases "a = []")
    case False
    then obtain r w where d: "decode_valid (a @ b) = Some (r, w)" "utf8_valid (drop w (a @ b))" "1 \<le> w"
      using utf8_valid_Some [OF less.prems(1)] by (metis append_is_Nil_conv)
    have w: "w \<le> length a"
    proof (rule ccontr)
      assume "\<not> w \<le> length a"
      then obtain k where "w = length a + Suc k" by (metis not_le less_iff_Suc_add add_Suc_right)
      then have "hd b \<in> set (tl (take w (a @ b)))" using False less.prems(2) by (cases a; cases b) auto
      with decode_valid_bytes(2) [OF d(1)] less.prems(3) show False by (auto simp: list_all_iff)
    qed
    have "decode_valid a = Some (r, w)"
      using decode_valid_prefix [OF d(1), of "drop w a"] w by simp
    moreover have "utf8_valid (drop w a)"
      using less.hyps [of "drop w a"] d w False less.prems(2,3) by simp
    ultimately show ?thesis by (simp add: utf8_valid_step)
  qed simp
qed

definition scalar :: "nat \<Rightarrow> bool" where
  "scalar r \<longleftrightarrow> (\<forall>t. decode_valid (encode_rune r @ t) = Some (r, length (encode_rune r)))"

lemma decoded_scalar: "decode_valid s = Some (r, w) \<Longrightarrow> scalar r \<and> encode_rune r = take w s"
  using decode_valid_width [of s r w] by (auto simp: scalar_def encode_decode_valid decode_valid_prefix min_absorb2)

lemma runes_scalar: "utf8_valid s \<Longrightarrow> list_all scalar (runes s)"
proof (induction "length s" arbitrary: s rule: less_induct)
  case less
  show ?case
  proof (cases "s = []")
    case False
    then obtain r w where d: "decode_valid s = Some (r, w)" "utf8_valid (drop w s)" "1 \<le> w" "w \<le> length s"
      using utf8_valid_Some [OF less.prems] by metis
    then show ?thesis using less.hyps [of "drop w s"] False decoded_scalar [OF d(1)] by (simp add: runes_step)
  qed simp
qed

lemma scalar_string: "list_all scalar rs \<Longrightarrow> utf8_valid (string_of_runes rs) \<and> runes (string_of_runes rs) = rs"
proof (induction rs)
  case (Cons r rs)
  have "decode_valid (encode_rune r @ string_of_runes rs) = Some (r, length (encode_rune r))"
    using Cons.prems by (simp add: scalar_def)
  with Cons show ?case by (simp add: string_of_runes_def runes_step utf8_valid_step)
qed (simp add: string_of_runes_def)

lemma sub_runes:
  assumes "utf8_valid s" "set rs \<subseteq> set (runes s)"
  shows "utf8_valid (string_of_runes rs)" "runes (string_of_runes rs) = rs"
  using assms runes_scalar [OF assms(1)] scalar_string [of rs] by (auto simp: list_all_iff)

section \<open>Windows\<close>

lemma char_windows_cover:
  "start < length rs \<Longrightarrow> 0 < stride \<Longrightarrow> stride \<le> sz \<Longrightarrow> ws = char_windows sz stride rs start \<Longrightarrow>
    ws \<noteq> [] \<and> length (hd ws) = min sz (length rs - start)
    \<and> hd ws @ concat (map (drop (sz - stride)) (tl ws)) = drop start rs
    \<and> (\<forall>w \<in> set ws. w \<noteq> [] \<and> length w \<le> sz \<and> set w \<subseteq> set rs)"
proof (induction sz stride rs start arbitrary: ws rule: char_windows.induct)
  case (1 sz stride rs start)
  note eq = char_windows.simps [of sz stride rs start]
  have sub: "set (take k (drop start rs)) \<subseteq> set rs" for k by (meson set_take_subset set_drop_subset subset_trans)
  show ?case
  proof (cases "start + sz < length rs")
    case False
    with 1 eq show ?thesis by (auto simp: Let_def split: if_splits dest: in_set_dropD)
  next
    case True
    let ?ws = "char_windows sz stride rs (start + stride)"
    have ws: "ws = take sz (drop start rs) # ?ws" using 1 eq True by (simp add: Let_def)
    have IH: "?ws \<noteq> []" "length (hd ?ws) = min sz (length rs - (start + stride))"
      "hd ?ws @ concat (map (drop (sz - stride)) (tl ?ws)) = drop (start + stride) rs"
      "\<forall>w \<in> set ?ws. w \<noteq> [] \<and> length w \<le> sz \<and> set w \<subseteq> set rs"
      using 1(1) [of "start + sz" ?ws] 1(2-4) True by auto
    have "concat (map (drop (sz - stride)) ?ws)
        = drop (sz - stride) (hd ?ws) @ concat (map (drop (sz - stride)) (tl ?ws))" using IH(1) by (cases ?ws) auto
    also have "\<dots> = drop (sz - stride) (hd ?ws @ concat (map (drop (sz - stride)) (tl ?ws)))"
      using IH(2) True 1(4) by simp
    also have "\<dots> = drop (start + sz) rs" using IH(3) 1(4) by (simp add: add.commute)
    finally have tail: "concat (map (drop (sz - stride)) ?ws) = drop (start + sz) rs" .
    have "take sz (drop start rs) @ drop (start + sz) rs = drop start rs"
      using append_take_drop_id [of sz "drop start rs"] by (simp add: add.commute)
    with tail show ?thesis using IH(1,4) ws 1(2-4) True sub by auto
  qed
qed

section \<open>Chunks of a document\<close>

lemma chunkContents_simps [simp]:
  "length (chunkContents d cs) = length cs" "map ck_Content (chunkContents d cs) = cs" "chunkContents d cs = [] \<longleftrightarrow> cs = []"
  by (simp_all add: chunkContents_def comp_def case_prod_beta enumerate_eq_zip)

lemma chunkContents_nth: "i < length cs \<Longrightarrow> chunkContents d cs ! i = \<lparr>ck_ID = ChunkID (dc_ID d) (int i),
     ck_DocumentID = dc_ID d, ck_Content = cs ! i, ck_Source = dc_Source d, ck_Index = int i,
     ck_Metadata = cloneJSON (dc_Metadata d)\<rparr>"
  by (simp add: chunkContents_def nth_enumerate_eq)

lemma chunk_ids_distinct: "distinct (map ck_ID (chunkContents d cs))"
  by (simp add: distinct_conv_nth chunkContents_nth ChunkID_def itoa_inj)

lemma document_json: "Document_Validate d = None \<Longrightarrow> dc_ID d \<noteq> [] \<and> dc_Content d \<noteq> [] \<and> validateJSON (cloneJSON (dc_Metadata d)) = None"
  by (auto simp: Document_Validate_def validateJSON_def json_valid_def cloneJSON_def split: if_splits option.splits)

text \<open>What every chunker promises of a chunk: it passes validation, its content is valid text of at most the
  configured size, and its identity and provenance are those of its position in the document.\<close>

definition chunk_ok :: "int \<Rightarrow> Document \<Rightarrow> nat \<Rightarrow> Chunk \<Rightarrow> bool" where
  "chunk_ok sz d i k \<longleftrightarrow> Chunk_Validate k = None \<and> utf8_valid (ck_Content k) \<and> int (rune_count (ck_Content k)) \<le> sz
     \<and> ck_ID k = ChunkID (dc_ID d) (int i) \<and> ck_Index k = int i \<and> ck_Source k = dc_Source d"

lemma chunkContents_ok:
  assumes "Document_Validate d = None" "\<forall>c \<in> set cs. c \<noteq> [] \<and> utf8_valid c \<and> int (rune_count c) \<le> sz" "i < length cs"
  shows "chunk_ok sz d i (chunkContents d cs ! i)"
  using assms(2) nth_mem [OF assms(3)] document_json [OF assms(1)]
  by (auto simp: chunk_ok_def chunkContents_nth [OF assms(3)] Chunk_Validate_def ChunkID_def)

lemma size_and_overlap_ok: "size_and_overlap sz overlap = Inr (s, ov) \<Longrightarrow> 0 < s \<and> 0 \<le> ov \<and> ov < s"
  by (auto simp: size_and_overlap_def chunkerSize_def DefaultChunkSize_def split: sum.splits if_splits)

lemma validated:
  assumes "validateChunkerInput (Some ctx) d = None"
  shows "Document_Validate d = None" "utf8_valid (dc_Content d)" "dc_Content d \<noteq> []" "cx_Err ctx = None"
  using assms document_json by (auto simp: validateChunkerInput_def)

section \<open>Splitting\<close>

lemma rune_count_append: "utf8_valid a \<Longrightarrow> rune_count (a @ b) = rune_count a + rune_count b"
  by (simp add: rune_count_def runes_append)

lemma SplitAfter_ok:
  "sep \<noteq> [] \<Longrightarrow> utf8_valid sep \<Longrightarrow> utf8_valid s \<Longrightarrow> concat (SplitAfter sep s) = s \<and> (\<forall>p \<in> set (SplitAfter sep s). utf8_valid p)"
proof (induction sep s rule: SplitAfter.induct)
  case (1 sep s)
  note eq = SplitAfter.simps [of sep s]
  show ?case
  proof (cases "cut_sub sep s")
    case None
    with 1 show ?thesis by (simp add: eq)
  next
    case (Some ar)
    obtain a r where ar: "ar = (a, r)" by (cases ar)
    have s: "s = a @ sep @ r" using cut_sub_Some Some ar by simp
    obtain rn w where "decode_valid sep = Some (rn, w)" using utf8_valid_Some [OF "1.prems"(2,1)] by metis
    then have "\<not> is_cont (hd (sep @ r))" using decode_valid_bytes(1) "1.prems"(1) by simp
    with s "1.prems" have a: "utf8_valid a" using utf8_valid_cut [of a "sep @ r"] by simp
    with s "1.prems" have r: "utf8_valid r" by (simp add: utf8_valid_append)
    have "utf8_valid (a @ sep)" using a "1.prems"(2) by (simp add: utf8_valid_append)
    moreover have "SplitAfter sep s = (a @ sep) # SplitAfter sep r" using Some ar "1.prems"(1) by (simp add: eq)
    ultimately show ?thesis using 1(1) [OF "1.prems"(1) Some ar [symmetric] "1.prems"(1,2) r] s by simp
  qed
qed

lemma splitRunes_ok:
  "utf8_valid s \<Longrightarrow> concat (splitRunes s) = s \<and> (\<forall>p \<in> set (splitRunes s). utf8_valid p \<and> p \<noteq> [] \<and> rune_count p = 1)"
proof (induction s rule: splitRunes.induct)
  case (1 s)
  note eq = splitRunes.simps [of s]
  show ?case
  proof (cases "s = []")
    case False
    then obtain r w where d: "decode_valid s = Some (r, w)" "utf8_valid (drop w s)" "decode_rune s = (r, w)" "1 \<le> w" "w \<le> length s"
      using utf8_valid_Some [OF "1.prems"] by metis
    have t: "decode_valid (take w s) = Some (r, w)" using decode_valid_prefix [OF d(1), of "[]"] by simp
    have "utf8_valid (take w s)" "rune_count (take w s) = 1"
      using d(5) by (simp_all add: utf8_valid_step [OF t] rune_count_def runes_step [OF t])
    with 1(1) [OF False d(3) [symmetric] d(2)] show ?thesis using d False by (simp add: eq)
  qed (simp add: splitRunes.simps [of "[]"])
qed

lemma separator_index_ok:
  assumes "sep \<in> set seps" "sep = []"
  shows "separator_index text seps < length seps
    \<and> (seps ! separator_index text seps = [] \<or> cut_sub (seps ! separator_index text seps) text \<noteq> None)"
  using assms by (auto simp: separator_index_def extract_None_iff extract_Some_iff split: option.split)

definition parts_ok :: "nat \<Rightarrow> string list \<Rightarrow> bool" where
  "parts_ok sz parts \<longleftrightarrow> (\<forall>p \<in> set parts. utf8_valid p \<and> p \<noteq> [] \<and> rune_count p \<le> sz)"

lemma concat_map_concat: "\<forall>p \<in> set ps. concat (f p) = p \<Longrightarrow> concat (concat (map f ps)) = concat ps"
  by (induction ps) auto

lemma parts_ok_concat: "\<forall>p \<in> set ps. parts_ok sz (f p) \<Longrightarrow> parts_ok sz (concat (map f ps))"
  by (auto simp: parts_ok_def)

lemma splitAt_ok:
  "utf8_valid str \<Longrightarrow> str \<noteq> [] \<Longrightarrow> \<forall>sep \<in> set seps. utf8_valid sep \<Longrightarrow> seps \<noteq> [] \<Longrightarrow> last seps = [] \<Longrightarrow> 0 < sz \<Longrightarrow>
    concat (splitAt sz str seps) = str \<and> parts_ok sz (splitAt sz str seps)"
proof (induction sz str seps rule: splitAt.induct)
  case (1 sz str seps)
  let ?i = "separator_index str seps"
  note eq = splitAt.simps [of sz str seps]
  have i: "?i < length seps" using separator_index_ok [of "last seps" seps str] "1.prems"(4,5) last_in_set by blast
  show ?case
  proof (cases "rune_count str \<le> sz")
    case True
    with 1 show ?thesis by (simp add: eq parts_ok_def)
  next
    case big: False
    show ?thesis
    proof (cases "seps ! ?i = []")
      case True
      with big 1 splitRunes_ok [of str] show ?thesis by (auto simp: eq parts_ok_def Let_def)
    next
      case False
      define f where "f = (\<lambda>part. if part = [] then [] else if rune_count part \<le> sz then [part] else splitAt sz part (drop (Suc ?i) seps))"
      have split: "splitAt sz str seps = concat (map f (SplitAfter (seps ! ?i) str))"
        using big False 1 by (simp add: eq Let_def f_def)
      have after: "concat (SplitAfter (seps ! ?i) str) = str" "\<forall>p \<in> set (SplitAfter (seps ! ?i) str). utf8_valid p"
        using SplitAfter_ok [OF False, of str] 1 i by simp_all
      have rest: "drop (Suc ?i) seps \<noteq> []" "last (drop (Suc ?i) seps) = []"
      proof -
        have "?i \<noteq> length seps - 1" using False "1.prems"(4,5) by (auto simp: last_conv_nth)
        then show "drop (Suc ?i) seps \<noteq> []" using i by simp
        then show "last (drop (Suc ?i) seps) = []" using "1.prems"(5) by simp
      qed
      have part: "concat (f p) = p \<and> parts_ok sz (f p)" if "p \<in> set (SplitAfter (seps ! ?i) str)" for p
      proof (cases "p = [] \<or> rune_count p \<le> sz")
        case True
        with that after(2) show ?thesis by (auto simp: parts_ok_def f_def)
      next
        case False
        then show ?thesis
          using 1(1) [OF _ refl \<open>seps ! ?i \<noteq> []\<close> that] big "1.prems" after(2) that rest by (auto simp: f_def dest: in_set_dropD)
      qed
      have "concat (concat (map f (SplitAfter (seps ! ?i) str))) = str"
        using concat_map_concat [of "SplitAfter (seps ! ?i) str" f] part after(1) by simp
      moreover have "parts_ok sz (concat (map f (SplitAfter (seps ! ?i) str)))" using part by (intro parts_ok_concat) blast
      ultimately show ?thesis unfolding split by blast
    qed
  qed
qed

section \<open>Merging parts\<close>

text \<open>How the chunks relate to the text: each is a body, after a suffix of the chunk before it of at most \<open>n\<close> runes.\<close>

inductive linked :: "nat \<Rightarrow> string list \<Rightarrow> string list \<Rightarrow> bool" for n where
  linked_Nil: "linked n [] []"
| linked_snoc: "linked n cs bs \<Longrightarrow> b \<noteq> [] \<Longrightarrow> rune_count p \<le> n \<Longrightarrow> (if cs = [] then p = [] else suffix p (last cs))
    \<Longrightarrow> linked n (cs @ [p @ b]) (bs @ [b])"

inductive_cases linked_snocE: "linked n (cs @ [c]) bs"

lemma linked_extend:
  assumes "linked n (cs @ [c]) bs"
  shows "\<exists>bs'. linked n (cs @ [c @ x]) bs' \<and> concat bs' = concat bs @ x"
proof -
  obtain bs1 b p where bs: "bs = bs1 @ [b]" "c = p @ b" and l: "linked n cs bs1" "b \<noteq> []" "rune_count p \<le> n"
    "if cs = [] then p = [] else suffix p (last cs)"
    using assms by (elim linked_snocE) auto
  have "linked n (cs @ [p @ b @ x]) (bs1 @ [b @ x])" by (rule linked_snoc [OF l(1) _ l(3,4)]) (simp add: l(2))
  with bs show ?thesis by (intro exI [of _ "bs1 @ [b @ x]"]) simp
qed

lemma prefix_loop_eq: "prefix_loop len part sz start = max start (len + part - sz)"
proof (induction len part sz start rule: prefix_loop.induct)
  case (1 len part sz start)
  then show ?case by (subst prefix_loop.simps) auto
qed

lemma drop_runes:
  assumes "utf8_valid s"
  shows "suffix (string_of_runes (drop k (runes s))) s" "utf8_valid (string_of_runes (drop k (runes s)))"
    "runes (string_of_runes (drop k (runes s))) = drop k (runes s)"
proof -
  have "s = string_of_runes (take k (runes s)) @ string_of_runes (drop k (runes s))"
    using string_of_runes_runes [OF assms] by (simp flip: string_of_runes_append)
  then show "suffix (string_of_runes (drop k (runes s))) s" by (metis suffixI)
  show "utf8_valid (string_of_runes (drop k (runes s)))" "runes (string_of_runes (drop k (runes s))) = drop k (runes s)"
    by (rule sub_runes [OF assms set_drop_subset])+
qed

lemma suffixRunes_ok:
  assumes "utf8_valid s"
  shows "suffix (suffixRunes s n) s" "length (runes (suffixRunes s n)) \<le> n" "utf8_valid (suffixRunes s n)"
  using assms drop_runes [OF assms] by (auto simp: suffixRunes_def)

text \<open>The prefix of the next chunk: a suffix of the current one that leaves room for the part.\<close>

lemma next_prefix:
  assumes "utf8_valid current" "rune_count part \<le> sz"
    "k = prefix_loop (int (length (runes (suffixRunes current n)))) (int (rune_count part)) (int sz) 0"
    "p = string_of_runes (drop (nat k) (runes (suffixRunes current n)))"
  shows "k \<le> int (length (runes (suffixRunes current n)))" "suffix p current" "utf8_valid p" "rune_count p \<le> n"
    "rune_count p + rune_count part \<le> sz"
proof -
  note s = suffixRunes_ok [OF assms(1), of n]
  note d = drop_runes [OF s(3), of "nat k", folded assms(4)]
  show k: "k \<le> int (length (runes (suffixRunes current n)))" using assms(2,3) by (simp add: prefix_loop_eq)
  show "suffix p current" "utf8_valid p" using d(1,2) s(1) by (auto intro: suffix_order.trans)
  show "rune_count p \<le> n" "rune_count p + rune_count part \<le> sz"
    using d(3) s(2) assms(2,3) by (auto simp: rune_count_def prefix_loop_eq)
qed

definition with_current :: "string list \<Rightarrow> string \<Rightarrow> string list" where
  "with_current chunks current = (if current = [] then chunks else chunks @ [current])"

lemma parts_ok_with: "parts_ok sz (with_current chunks c) \<longleftrightarrow> parts_ok sz chunks \<and> (c = [] \<or> utf8_valid c \<and> rune_count c \<le> sz)"
  by (auto simp: parts_ok_def with_current_def)

lemma merge_loop_ok:
  assumes "parts_ok sz parts" "linked n (with_current chunks current) bs" "parts_ok sz (with_current chunks current)"
    "current = [] \<Longrightarrow> chunks = []"
  shows "\<exists>chunks' current' bs'. merge_loop None sz n chunks current parts = Inr (chunks', current')
    \<and> linked n (with_current chunks' current') bs' \<and> concat bs' = concat bs @ concat parts
    \<and> parts_ok sz (with_current chunks' current')"
  using assms
proof (induction parts arbitrary: chunks current bs)
  case (Cons part parts)
  have part: "utf8_valid part" "part \<noteq> []" "rune_count part \<le> sz" and parts: "parts_ok sz parts"
    using Cons.prems(1) by (auto simp: parts_ok_def)
  have cur: "utf8_valid current" using Cons.prems(3) by (auto simp: parts_ok_with)
  show ?case
  proof (cases "rune_count current + rune_count part \<le> sz")
    case True
    have "\<exists>bs1. linked n (with_current chunks (current @ part)) bs1 \<and> concat bs1 = concat bs @ part"
    proof (cases "current = []")
      case True
      then have "bs = []" using Cons.prems(2,4) by (auto simp: with_current_def elim: linked.cases)
      then show ?thesis
        using True Cons.prems(4) part(2) linked_snoc [OF linked_Nil part(2), of "[]" n]
        by (intro exI [of _ "[part]"]) (simp add: with_current_def rune_count_def)
    next
      case False
      then show ?thesis using linked_extend [of n chunks current bs part] Cons.prems(2) by (simp add: with_current_def)
    qed
    then obtain bs1 where l: "linked n (with_current chunks (current @ part)) bs1" "concat bs1 = concat bs @ part" by blast
    moreover have "parts_ok sz (with_current chunks (current @ part))"
      using Cons.prems(3) part(1) cur True by (simp add: parts_ok_with utf8_valid_append rune_count_append)
    ultimately show ?thesis
      using Cons.IH [OF parts, of chunks "current @ part" bs1] True part(2) by simp
  next
    case False
    then have ne: "current \<noteq> []" using part(3) by (auto simp: rune_count_def)
    define k where "k = prefix_loop (int (length (runes (suffixRunes current n)))) (int (rune_count part)) (int sz) 0"
    define p where "p = string_of_runes (drop (nat k) (runes (suffixRunes current n)))"
    note p = next_prefix [OF cur part(3) k_def p_def]
    have l: "linked n (with_current (chunks @ [current]) (p @ part)) (bs @ [part])"
      using Cons.prems(2) ne part(2) p(2,4) linked_snoc [of n "chunks @ [current]" bs part p] by (simp add: with_current_def)
    have "parts_ok sz (with_current (chunks @ [current]) (p @ part))"
      using Cons.prems(3) ne part p(3,5)
      by (simp add: parts_ok_with utf8_valid_append rune_count_append) (simp add: parts_ok_def)
    with Cons.IH [OF parts l] part(2) ne False p(1) show ?thesis
      by (simp add: Let_def flip: k_def p_def)
  qed
qed auto

lemma mergeChunkParts_ok:
  assumes "parts_ok sz parts"
  shows "\<exists>chunks bs. mergeChunkParts None parts sz n = Inr chunks \<and> linked n chunks bs \<and> concat bs = concat parts
    \<and> parts_ok sz chunks"
proof -
  have "linked n (with_current [] []) []" "parts_ok sz (with_current [] [])"
    by (simp_all add: with_current_def linked_Nil parts_ok_def)
  from merge_loop_ok [OF assms this] show ?thesis by (auto simp: mergeChunkParts_def with_current_def)
qed

section \<open>Properties\<close>

text \<open>C15 character_chunks_cover: chunking into windows succeeds on every valid document and loses nothing: the first chunk
  followed by every later chunk without its first \<^emph>\<open>overlap\<close> runes is the document. Every chunk is valid text of
  at most the configured size in runes, passes validation and carries its position and provenance, and the
  chunk IDs are distinct.\<close>

theorem character_chunks_cover:
  assumes "NewCharacterChunker sz overlap = Inr ch" "validateChunkerInput (Some ctx) d = None"
  shows "\<exists>chunks. CharacterChunker_Chunk (Some ch) (Some ctx) d = Inr chunks \<and> chunks \<noteq> []
    \<and> runes (dc_Content d) = runes (ck_Content (hd chunks))
        @ concat (map (\<lambda>k. drop (nat (ch_overlap ch)) (runes (ck_Content k))) (tl chunks))
    \<and> (\<forall>i < length chunks. chunk_ok (ch_size ch) d i (chunks ! i)) \<and> distinct (map ck_ID chunks)"
proof -
  let ?rs = "runes (dc_Content d)" and ?n = "nat (ch_size ch)" and ?stride = "nat (ch_size ch - ch_overlap ch)"
  define ws where "ws = char_windows ?n ?stride ?rs 0"
  have ch: "0 < ch_size ch" "0 \<le> ch_overlap ch" "ch_overlap ch < ch_size ch"
    using assms(1) size_and_overlap_ok [of sz overlap] by (cases "size_and_overlap sz overlap"; auto simp: NewCharacterChunker_def)+
  note d = validated [OF assms(2)]
  have "0 < length ?rs" "0 < ?stride" "?stride \<le> ?n" using ch d(3) by auto
  from char_windows_cover [OF this ws_def] have ws: "ws \<noteq> []" "hd ws @ concat (map (drop (?n - ?stride)) (tl ws)) = ?rs"
    "\<forall>w \<in> set ws. w \<noteq> [] \<and> length w \<le> ?n \<and> set w \<subseteq> set ?rs" by simp_all
  have cs: "utf8_valid (string_of_runes w)" "runes (string_of_runes w) = w" if "w \<in> set ws" for w
    using sub_runes [OF d(2), of w] ws(3) that by auto
  let ?cs = "map string_of_runes ws"
  have "\<forall>c \<in> set ?cs. c \<noteq> [] \<and> utf8_valid c \<and> int (rune_count c) \<le> ch_size ch"
  proof
    fix c assume "c \<in> set ?cs"
    then obtain w where w: "w \<in> set ws" "c = string_of_runes w" by auto
    then have "runes c = w" "utf8_valid c" "w \<noteq> []" "length w \<le> ?n" using cs ws(3) by auto
    then show "c \<noteq> [] \<and> utf8_valid c \<and> int (rune_count c) \<le> ch_size ch"
      using ch(1) by (auto simp: rune_count_def)
  qed
  from chunkContents_ok [OF d(1) this] have ok: "\<forall>i < length (chunkContents d ?cs). chunk_ok (ch_size ch) d i (chunkContents d ?cs ! i)"
    by simp
  have "map (\<lambda>k. runes (ck_Content k)) (chunkContents d ?cs) = map runes (map ck_Content (chunkContents d ?cs))"
    by (simp only: map_map comp_def)
  also have "\<dots> = ws" using cs(2) by (simp add: map_idI)
  finally have contents: "map (\<lambda>k. runes (ck_Content k)) (chunkContents d ?cs) = ws" .
  have ne: "chunkContents d ?cs \<noteq> []" using ws(1) by simp
  have "hd ws = runes (ck_Content (hd (chunkContents d ?cs)))" using contents ne by (metis hd_map)
  moreover have "map (drop (nat (ch_overlap ch))) (tl ws)
      = map (\<lambda>k. drop (nat (ch_overlap ch)) (runes (ck_Content k))) (tl (chunkContents d ?cs))"
    using arg_cong [OF contents, of "map (drop (nat (ch_overlap ch)))"] by (simp add: map_tl comp_def)
  moreover have "?n - ?stride = nat (ch_overlap ch)" using ch by simp
  ultimately show ?thesis
    using ok ne ws(2) chunk_ids_distinct [of d ?cs] assms(2)
    by (intro exI [of _ "chunkContents d ?cs"]) (simp add: CharacterChunker_Chunk_def ws_def [symmetric])
qed

text \<open>C14 recursive_chunks_cover: chunking at separators of valid text succeeds on every valid document, never fails on
  a slice bound, and preserves the document exactly: every chunk is a span of the document after a suffix of
  the chunk before it of at most \<^emph>\<open>overlap\<close> runes, and the spans in order are the document. Chunks are within
  the size, pass validation and carry their position and provenance.\<close>

theorem recursive_chunks_cover:
  assumes "NewRecursiveChunker sz overlap separators = Inr ch" "validateChunkerInput (Some ctx) d = None"
    "list_all utf8_valid (case separators of None \<Rightarrow> [] | Some seps \<Rightarrow> seps)"
  shows "\<exists>chunks spans. RecursiveChunker_Chunk (Some ch) (Some ctx) d = Inr chunks
    \<and> linked (nat (rc_overlap ch)) (map ck_Content chunks) spans \<and> concat spans = dc_Content d
    \<and> (\<forall>i < length chunks. chunk_ok (rc_size ch) d i (chunks ! i)) \<and> distinct (map ck_ID chunks)"
proof -
  let ?n = "nat (rc_size ch)" and ?seps = "rc_separators ch"
  note d = validated [OF assms(2)]
  have ch: "0 < rc_size ch" "?seps \<noteq> []" "last ?seps = []" "\<forall>sep \<in> set ?seps. utf8_valid sep"
  proof -
    have sp: "utf8_valid [CHR 0x0A, CHR 0x0A]" "utf8_valid [CHR 0x0A]" "utf8_valid '' ''" by code_simp+
    obtain s ov where "size_and_overlap sz overlap = Inr (s, ov)" "rc_size ch = s" "?seps = (case separators of
        None \<Rightarrow> [[CHR 0x0A, CHR 0x0A], [CHR 0x0A], '' '', []] | Some seps \<Rightarrow> if seps = [] \<or> last seps \<noteq> [] then seps @ [[]] else seps)"
      using assms(1) by (cases "size_and_overlap sz overlap") (auto simp: NewRecursiveChunker_def)
    then show "0 < rc_size ch" "?seps \<noteq> []" "last ?seps = []" "\<forall>sep \<in> set ?seps. utf8_valid sep"
      using sp size_and_overlap_ok [of sz overlap s ov] assms(3) by (auto simp: list_all_iff split: option.splits if_splits)
  qed
  have parts: "concat (splitAt ?n (dc_Content d) ?seps) = dc_Content d" "parts_ok ?n (splitAt ?n (dc_Content d) ?seps)"
    using splitAt_ok [OF d(2,3) ch(4,2,3), of ?n] ch(1) by simp_all
  from mergeChunkParts_ok [OF parts(2), of "nat (rc_overlap ch)"] obtain cs bs where
    m: "mergeChunkParts None (splitAt ?n (dc_Content d) ?seps) ?n (nat (rc_overlap ch)) = Inr cs"
    "linked (nat (rc_overlap ch)) cs bs" "concat bs = dc_Content d" "parts_ok ?n cs" using parts(1) by auto
  have "\<forall>c \<in> set cs. c \<noteq> [] \<and> utf8_valid c \<and> int (rune_count c) \<le> rc_size ch"
    using m(4) ch(1) by (auto simp: parts_ok_def)
  from chunkContents_ok [OF d(1) this] m(2,3) chunk_ids_distinct [of d cs] m(1) assms(2) d(4) show ?thesis
    by (intro exI [of _ "chunkContents d cs"] exI [of _ bs]) (simp add: RecursiveChunker_Chunk_def)
qed

definition sample_document :: Document where
  "sample_document = \<lparr>dc_ID = ''doc'', dc_Content = ''one two three'', dc_Source = [], dc_Metadata = None\<rparr>"

theorem character_chunks_cover_witness:
  "\<exists>chunks. CharacterChunker_Chunk (Some \<lparr>ch_size = 6, ch_overlap = 2\<rparr>) (Some background) sample_document = Inr chunks
     \<and> chunks \<noteq> [] \<and> (\<forall>i < length chunks. chunk_ok 6 sample_document i (chunks ! i))"
proof -
  have "NewCharacterChunker 6 2 = Inr \<lparr>ch_size = 6, ch_overlap = 2\<rparr>"
    by (simp add: NewCharacterChunker_def size_and_overlap_def chunkerSize_def)
  moreover have "validateChunkerInput (Some background) sample_document = None" by code_simp
  ultimately show ?thesis using character_chunks_cover [of 6 2 "\<lparr>ch_size = 6, ch_overlap = 2\<rparr>" background sample_document] by auto
qed

theorem recursive_chunks_cover_witness:
  "\<exists>chunks spans. RecursiveChunker_Chunk (Some \<lparr>rc_size = 6, rc_overlap = 2, rc_separators = ['' '', []]\<rparr>) (Some background)
       sample_document = Inr chunks
     \<and> linked 2 (map ck_Content chunks) spans \<and> concat spans = dc_Content sample_document"
proof -
  let ?ch = "\<lparr>rc_size = 6, rc_overlap = 2, rc_separators = ['' '', []]\<rparr>"
  have "NewRecursiveChunker 6 2 (Some ['' '']) = Inr ?ch"
    by (simp add: NewRecursiveChunker_def size_and_overlap_def chunkerSize_def)
  moreover have "validateChunkerInput (Some background) sample_document = None" "list_all utf8_valid ['' '']" by code_simp+
  ultimately show ?thesis using recursive_chunks_cover [of 6 2 "Some ['' '']" ?ch background sample_document] by auto
qed

end
