(* ===== verification/Store_Transcript.thy ===== *)
theory Store_Transcript
  imports Store_State
begin

text \<open>
  Threads and messages of the in-memory store: \<^verbatim>\<open>createThread\<close> to \<^verbatim>\<open>deleteMessages\<close> in
  \<^verbatim>\<open>memory_storage.go\<close>, whole bodies with their checks in source order. The lemmas give what each
  operation changes and that it keeps the invariant.
\<close>

section \<open>Threads\<close>

definition createThread :: "Context \<Rightarrow> memoryState \<Rightarrow> ThreadRecord \<Rightarrow> outcome" where
  "createThread ctx s v = commit_if (first_err [
       cx_Err ctx,
       chk (th_ID v = []) (Errorf ''lebro: thread ID is required'' []),
       wrap_err ''lebro: thread metadata: %w'' [] (validateJSON (th_Metadata v)),
       wrap_err ''lebro: thread: %w'' [] (validateRecord (thread_marshals v)),
       chk (mget (threads s) (th_ID v) \<noteq> None) (Errorf ''lebro: thread %q already exists'' [th_ID v])])
     s (s\<lparr>threads := mset_at (th_ID v) (cloneThreadRecord v) (threads s)\<rparr>)"

definition getThread :: "Context \<Rightarrow> memoryState \<Rightarrow> string \<Rightarrow> ThreadRecord result" where
  "getThread ctx s ident = (case cx_Err ctx of Some e \<Rightarrow> Inl e
     | None \<Rightarrow> (case mget (threads s) ident of None \<Rightarrow> Inl ErrNotFound | Some v \<Rightarrow> Inr (cloneThreadRecord v)))"

definition updateThread :: "Context \<Rightarrow> memoryState \<Rightarrow> ThreadRecord \<Rightarrow> outcome" where
  "updateThread ctx s v = commit_if (first_err [
       cx_Err ctx,
       chk (mget (threads s) (th_ID v) = None) ErrNotFound,
       wrap_err ''lebro: thread metadata: %w'' [] (validateJSON (th_Metadata v)),
       wrap_err ''lebro: thread: %w'' [] (validateRecord (thread_marshals v))])
     s (s\<lparr>threads := mset_at (th_ID v) (cloneThreadRecord v) (threads s)\<rparr>)"

section \<open>Messages\<close>

definition err_message_ids :: go_error where
  "err_message_ids = Errorf ''lebro: message and thread IDs are required'' []"

text \<open>The checking loop of \<^verbatim>\<open>appendMessages\<close>; \<open>seen\<close> holds the (thread, ID) pairs of the batch so far.\<close>

fun append_checks :: "memoryState \<Rightarrow> (string \<times> string) list \<Rightarrow> MessageRecord list \<Rightarrow> go_error option" where
  "append_checks s seen [] = None"
| "append_checks s seen (v # vs) = first_err [
     chk (mr_ID v = [] \<or> mr_ThreadID v = []) err_message_ids,
     chk (mget (threads s) (mr_ThreadID v) = None) ErrNotFound,
     Message_Validate (mr_Message v),
     wrap_err ''lebro: message metadata: %w'' [] (validateJSON (mr_Metadata v)),
     wrap_err ''lebro: message: %w'' [] (validateRecord (message_marshals v)),
     chk (mr_ID v \<in> set (map mr_ID (mslice (messages s) (mr_ThreadID v))))
       (Errorf ''lebro: message %q already exists'' [mr_ID v]),
     chk ((mr_ThreadID v, mr_ID v) \<in> set seen) (Errorf ''lebro: message %q already exists'' [mr_ID v]),
     append_checks s ((mr_ThreadID v, mr_ID v) # seen) vs]"

definition append_one :: "(string, MessageRecord list) gomap \<Rightarrow> MessageRecord \<Rightarrow> (string, MessageRecord list) gomap" where
  "append_one ms v = mset_at (mr_ThreadID v) (mslice ms (mr_ThreadID v) @ [cloneMessageRecord v]) ms"

definition appendMessages :: "Context \<Rightarrow> memoryState \<Rightarrow> MessageRecord list \<Rightarrow> outcome" where
  "appendMessages ctx s vs = commit_if (first_err [cx_Err ctx, append_checks s [] vs])
     s (s\<lparr>messages := foldl append_one (messages s) vs\<rparr>)"

definition listMessages :: "Context \<Rightarrow> memoryState \<Rightarrow> string \<Rightarrow> PageRequest \<Rightarrow> MessageRecord Page result" where
  "listMessages ctx s ident p = (case cx_Err ctx of Some e \<Rightarrow> Inl e
     | None \<Rightarrow> if mget (threads s) ident = None then Inl ErrNotFound
         else paginate (mslice (messages s) ident) p cloneMessageRecord)"

fun update_checks :: "memoryState \<Rightarrow> (string \<times> string) list \<Rightarrow> MessageRecord list \<Rightarrow> go_error option" where
  "update_checks s seen [] = None"
| "update_checks s seen (v # vs) = first_err [
     chk (mr_ID v = [] \<or> mr_ThreadID v = []) err_message_ids,
     Message_Validate (mr_Message v),
     wrap_err ''lebro: message metadata: %w'' [] (validateJSON (mr_Metadata v)),
     wrap_err ''lebro: message: %w'' [] (validateRecord (message_marshals v)),
     chk ((mr_ThreadID v, mr_ID v) \<in> set seen) (Errorf ''lebro: duplicate message %q'' [mr_ID v]),
     chk (mr_ID v \<notin> set (map mr_ID (mslice (messages s) (mr_ThreadID v)))) ErrNotFound,
     update_checks s ((mr_ThreadID v, mr_ID v) # seen) vs]"

fun replace_message :: "MessageRecord \<Rightarrow> MessageRecord list \<Rightarrow> MessageRecord list" where
  "replace_message v [] = []"
| "replace_message v (old # rest) = (if mr_ID old = mr_ID v
     then cloneMessageRecord (v\<lparr>mr_CreatedAt := mr_CreatedAt old\<rparr>) # rest
     else old # replace_message v rest)"

definition update_one :: "(string, MessageRecord list) gomap \<Rightarrow> MessageRecord \<Rightarrow> (string, MessageRecord list) gomap" where
  "update_one ms v = (case mget ms (mr_ThreadID v) of None \<Rightarrow> ms
     | Some olds \<Rightarrow> mset_at (mr_ThreadID v) (replace_message v olds) ms)"

definition updateMessages :: "Context \<Rightarrow> memoryState \<Rightarrow> MessageRecord list \<Rightarrow> outcome" where
  "updateMessages ctx s vs = commit_if (first_err [cx_Err ctx, update_checks s [] vs])
     s (s\<lparr>messages := foldl update_one (messages s) vs\<rparr>)"

definition deleteMessages :: "Context \<Rightarrow> memoryState \<Rightarrow> string \<Rightarrow> string list \<Rightarrow> outcome" where
  "deleteMessages ctx s ident ids = (case first_err [cx_Err ctx, chk (mget (threads s) ident = None) ErrNotFound] of
     Some e \<Rightarrow> (s, Some e)
   | None \<Rightarrow> if ids = [] then (s, None)
       else commit_if (chk ([] \<in> set ids) (Errorf ''lebro: message ID is required'' []))
         s (s\<lparr>messages := mset_at ident (filter (\<lambda>m. mr_ID m \<notin> set ids) (mslice (messages s) ident)) (messages s)\<rparr>))"

section \<open>What the loops do\<close>

lemma foldl_append_one:
  "mslice (foldl append_one ms vs) t
     = mslice ms t @ map cloneMessageRecord (filter (\<lambda>v. mr_ThreadID v = t) vs)"
  by (induction vs arbitrary: ms) (auto simp: append_one_def)

lemma gm_ok_foldl_append_one [simp]: "gm_ok ms \<Longrightarrow> gm_ok (foldl append_one ms vs)"
  by (induction vs arbitrary: ms) (auto simp: append_one_def)

lemma append_checks_sound:
  assumes "append_checks s seen vs = None"
  shows "\<forall>v \<in> set vs. mr_ID v \<noteq> [] \<and> mr_ThreadID v \<noteq> [] \<and> mget (threads s) (mr_ThreadID v) \<noteq> None
      \<and> Message_Validate (mr_Message v) = None
      \<and> mr_ID v \<notin> set (map mr_ID (mslice (messages s) (mr_ThreadID v)))
      \<and> (mr_ThreadID v, mr_ID v) \<notin> set seen"
    and "distinct (map (\<lambda>v. (mr_ThreadID v, mr_ID v)) vs)"
  using assms by (induction s seen vs rule: append_checks.induct) auto

lemma update_checks_sound:
  assumes "update_checks s seen vs = None"
  shows "\<forall>v \<in> set vs. mr_ID v \<noteq> [] \<and> mr_ThreadID v \<noteq> []
      \<and> Message_Validate (mr_Message v) = None
      \<and> mr_ID v \<in> set (map mr_ID (mslice (messages s) (mr_ThreadID v)))
      \<and> (mr_ThreadID v, mr_ID v) \<notin> set seen"
    and "distinct (map (\<lambda>v. (mr_ThreadID v, mr_ID v)) vs)"
  using assms by (induction s seen vs rule: update_checks.induct) auto

lemma map_ID_replace [simp]: "map mr_ID (replace_message v olds) = map mr_ID olds"
  by (induction olds) auto

lemma map_CreatedAt_replace [simp]: "map mr_CreatedAt (replace_message v olds) = map mr_CreatedAt olds"
  by (induction olds) auto

lemma replace_message_Nil [simp]: "replace_message v olds = [] \<longleftrightarrow> olds = []"
  by (cases olds) auto

lemma set_replace:
  "m \<in> set (replace_message v olds) \<Longrightarrow>
     m \<in> set olds \<or> (\<exists>old \<in> set olds. m = cloneMessageRecord (v\<lparr>mr_CreatedAt := mr_CreatedAt old\<rparr>))"
  by (induction olds) (auto split: if_splits)

text \<open>On unique IDs, replacing is a map.\<close>

definition updated_by :: "MessageRecord \<Rightarrow> MessageRecord \<Rightarrow> MessageRecord" where
  "updated_by v old = (if mr_ID old = mr_ID v then cloneMessageRecord (v\<lparr>mr_CreatedAt := mr_CreatedAt old\<rparr>) else old)"

lemma replace_message_map:
  "distinct (map mr_ID olds) \<Longrightarrow> replace_message v olds = map (updated_by v) olds"
  by (induction olds) (auto simp: updated_by_def image_iff intro!: map_idI [symmetric])

lemma mslice_update_one:
  "mslice (update_one ms v) t = (if t = mr_ThreadID v then replace_message v (mslice ms t) else mslice ms t)"
  by (auto simp: update_one_def mslice_def split: option.splits)

lemma gm_ok_update_one [simp]: "gm_ok ms \<Longrightarrow> gm_ok (update_one ms v)"
  by (auto simp: update_one_def split: option.splits)

lemma foldl_update_one:
  "map mr_ID (mslice (foldl update_one ms vs) t) = map mr_ID (mslice ms t)"
  "map mr_CreatedAt (mslice (foldl update_one ms vs) t) = map mr_CreatedAt (mslice ms t)"
  "gm_ok ms \<Longrightarrow> gm_ok (foldl update_one ms vs)"
  by (induction vs arbitrary: ms) (simp_all add: mslice_update_one)

section \<open>Invariant\<close>

lemma createThread_ok: "store_ok s \<Longrightarrow> store_ok (fst (createThread ctx s v))"
  by (auto simp: createThread_def store_ok_def transcript_ok_def)

lemma updateThread_ok: "store_ok s \<Longrightarrow> store_ok (fst (updateThread ctx s v))"
  by (auto simp: updateThread_def store_ok_def transcript_ok_def)

lemma append_transcript_ok:
  assumes ok: "transcript_ok (threads s) (messages s)" and chk: "append_checks s [] vs = None"
  shows "transcript_ok (threads s) (foldl append_one (messages s) vs)"
proof (rule transcript_okI)
  note v = append_checks_sound [OF chk]
  have disj: "mr_ID x \<noteq> mr_ID w" if "w \<in> set vs" "x \<in> set (mslice (messages s) (mr_ThreadID w))" for w x
  proof
    assume "mr_ID x = mr_ID w"
    with that(2) have "mr_ID w \<in> set (map mr_ID (mslice (messages s) (mr_ThreadID w)))"
      by (simp add: rev_image_eqI)
    with that(1) v(1) show False by blast
  qed
  have "distinct (map mr_ID (filter (\<lambda>v. mr_ThreadID v = t) vs))" for t
    using v(2) by (auto simp: distinct_map inj_on_def)
  then show "distinct (map mr_ID (mslice (foldl append_one (messages s) vs) t))" for t
    using transcript_okD(5) [OF ok, of t] by (auto simp: foldl_append_one comp_def dest: disj)
  show "mget (threads s) t \<noteq> None" if "mslice (foldl append_one (messages s) vs) t \<noteq> []" for t
    using that transcript_okD(4) [OF ok, of t] v(1) by (auto simp: foldl_append_one filter_empty_conv)
  show "mr_ThreadID m = t \<and> mr_ID m \<noteq> [] \<and> Message_Validate (mr_Message m) = None"
    if "m \<in> set (mslice (foldl append_one (messages s) vs) t)" for m t
    using that transcript_okD(6) [OF ok, of m t] v(1) by (auto simp: foldl_append_one)
qed (use transcript_okD [OF ok] in auto)

lemma appendMessages_ok: "store_ok s \<Longrightarrow> store_ok (fst (appendMessages ctx s vs))"
  using append_transcript_ok [of s vs] by (simp add: appendMessages_def store_ok_def)

lemma update_one_ok:
  assumes ok: "transcript_ok ts ms" and v: "Message_Validate (mr_Message v) = None" "mr_ID v \<noteq> []"
  shows "transcript_ok ts (update_one ms v)"
proof (rule transcript_okI)
  show "mr_ThreadID m = t \<and> mr_ID m \<noteq> [] \<and> Message_Validate (mr_Message m) = None"
    if "m \<in> set (mslice (update_one ms v) t)" for m t
    using that v transcript_okD(6) [OF ok, of _ t]
    by (auto simp: mslice_update_one split: if_splits dest!: set_replace)
  show "mget ts t \<noteq> None" if "mslice (update_one ms v) t \<noteq> []" for t
    using that transcript_okD(4) [OF ok, of t] by (auto simp: mslice_update_one split: if_splits)
  show "distinct (map mr_ID (mslice (update_one ms v) t))" for t
    using transcript_okD(5) [OF ok, of t] by (auto simp: mslice_update_one)
qed (use transcript_okD [OF ok] in auto)

lemma foldl_update_ok:
  "transcript_ok ts ms \<Longrightarrow> \<forall>v \<in> set vs. mr_ID v \<noteq> [] \<and> Message_Validate (mr_Message v) = None
    \<Longrightarrow> transcript_ok ts (foldl update_one ms vs)"
  by (induction vs arbitrary: ms) (auto intro: update_one_ok)

lemma updateMessages_ok: "store_ok s \<Longrightarrow> store_ok (fst (updateMessages ctx s vs))"
  using foldl_update_ok [of "threads s" "messages s" vs] update_checks_sound(1) [of s "[]" vs]
  by (auto simp: updateMessages_def store_ok_def)



lemma deleteMessages_ok: "store_ok s \<Longrightarrow> store_ok (fst (deleteMessages ctx s ident ids))"
  by (auto simp: deleteMessages_def store_ok_def transcript_ok_def distinct_map_filter split: option.splits)


lemmas transcript_ops_ok = createThread_ok updateThread_ok appendMessages_ok updateMessages_ok deleteMessages_ok

section \<open>Functional behaviour\<close>

definition update_for :: "MessageRecord list \<Rightarrow> string \<Rightarrow> MessageRecord \<Rightarrow> MessageRecord" where
  "update_for vs t old = (case List.find (\<lambda>v. mr_ThreadID v = t \<and> mr_ID v = mr_ID old) vs of
     None \<Rightarrow> old | Some v \<Rightarrow> cloneMessageRecord (v\<lparr>mr_CreatedAt := mr_CreatedAt old\<rparr>))"

lemma update_for_keeps [simp]:
  "mr_ID (update_for vs t old) = mr_ID old" "mr_CreatedAt (update_for vs t old) = mr_CreatedAt old"
  by (auto simp: update_for_def find_Some_iff split: option.splits)

lemma find_None_fresh:
  "(t, i) \<notin> (\<lambda>v. (mr_ThreadID v, mr_ID v)) ` set vs \<Longrightarrow>
     List.find (\<lambda>v. mr_ThreadID v = t \<and> mr_ID v = i) vs = None"
  by (auto simp: find_None_iff image_iff)

lemma foldl_update_for:
  assumes "\<And>t. distinct (map mr_ID (mslice ms t))" "distinct (map (\<lambda>v. (mr_ThreadID v, mr_ID v)) vs)"
  shows "mslice (foldl update_one ms vs) t = map (update_for vs t) (mslice ms t)"
  using assms
proof (induction vs arbitrary: ms)
  case Nil
  then show ?case by (simp add: update_for_def)
next
  case (Cons v vs)
  have "distinct (map mr_ID (mslice (update_one ms v) t))" for t
    using Cons.prems(1) by (auto simp: mslice_update_one)
  then have IH: "mslice (foldl update_one (update_one ms v) vs) t
      = map (update_for vs t) (mslice (update_one ms v) t)"
    using Cons by simp
  have fresh: "(mr_ThreadID v, mr_ID v) \<notin> (\<lambda>v. (mr_ThreadID v, mr_ID v)) ` set vs"
    using Cons.prems(2) by simp
  show ?case
  proof (cases "t = mr_ThreadID v")
    case True
    have "update_for vs t (updated_by v old) = update_for (v # vs) t old" for old
      using find_None_fresh [OF fresh] True by (simp add: update_for_def updated_by_def)
    then show ?thesis
      using True IH Cons.prems(1) by (simp add: mslice_update_one replace_message_map)
  next
    case False
    have "update_for vs t old = update_for (v # vs) t old" for old
      using False by (auto simp: update_for_def)
    then show ?thesis using False IH by (simp add: mslice_update_one)
  qed
qed


text \<open>Sample records for the witnesses.\<close>

definition sample_thread :: ThreadRecord where
  "sample_thread = \<lparr>th_ID = ''t1'', th_Namespace = ''acme'', th_OwnerID = ''ada'', th_Metadata = None,
     th_CreatedAt = 0, th_UpdatedAt = 0\<rparr>"

definition sample_message :: "string \<Rightarrow> string \<Rightarrow> Time \<Rightarrow> MessageRecord" where
  "sample_message ident txt at0 = \<lparr>mr_ID = ident, mr_ThreadID = ''t1'',
     mr_Message = \<lparr>m_Role = ''user'', m_Content = txt, m_ContentParts = [], m_Name = [], m_ToolCallID = [],
       m_ToolCalls = [], m_StructuredOutput = [], m_Reasoning = \<lparr>re_Text = [], re_Details = []\<rparr>\<rparr>,
     mr_Metadata = None, mr_Annotations = [], mr_CreatedAt = at0\<rparr>"

definition sample_transcript :: memoryState where
  "sample_transcript = fst (appendMessages background (fst (createThread background newMemoryState sample_thread))
     [sample_message ''m1'' ''hi'' 1, sample_message ''m2'' ''there'' 2])"

lemma sample_transcript_ok: "store_ok sample_transcript"
  by (simp add: sample_transcript_def appendMessages_ok createThread_ok store_ok_new)

text \<open>C20 append_messages_atomic: appending a batch is all or nothing. A failed append leaves the store as it
  was; a successful one adds every record at the end of its thread, in batch order, and touches
  nothing else.\<close>

theorem append_messages_atomic:
  "case appendMessages ctx s vs of
     (s', Some e) \<Rightarrow> s' = s
   | (s', None) \<Rightarrow> s' = s\<lparr>messages := messages s'\<rparr> \<and> (\<forall>t. mslice (messages s') t
       = mslice (messages s) t @ map cloneMessageRecord (filter (\<lambda>v. mr_ThreadID v = t) vs))"
  by (auto simp: appendMessages_def commit_if_def foldl_append_one split: option.splits)

text \<open>C21 update_messages_in_place: updating messages keeps every thread's order, message IDs and creation times;
  each updated message takes the new content, every other one is unchanged, and a rejected batch changes
  nothing.\<close>

theorem update_messages_in_place:
  assumes "store_ok s"
  shows "case updateMessages ctx s vs of
     (s', Some e) \<Rightarrow> s' = s
   | (s', None) \<Rightarrow> s' = s\<lparr>messages := messages s'\<rparr>
       \<and> (\<forall>t. mslice (messages s') t = map (update_for vs t) (mslice (messages s) t)
            \<and> map mr_ID (mslice (messages s') t) = map mr_ID (mslice (messages s) t)
            \<and> map mr_CreatedAt (mslice (messages s') t) = map mr_CreatedAt (mslice (messages s) t))"
proof -
  have d: "distinct (map mr_ID (mslice (messages s) t))" for t
    using assms transcript_okD(5) by (auto simp: store_ok_def)
  show ?thesis
    using foldl_update_for [OF d] update_checks_sound(2) [of s "[]" vs]
    by (auto simp: updateMessages_def commit_if_def foldl_update_one split: option.splits)
qed

theorem update_messages_in_place_witness:
  "snd (updateMessages background sample_transcript [sample_message ''m2'' ''edited'' 9]) = None
   \<and> (case updateMessages background sample_transcript [sample_message ''m2'' ''edited'' 9] of
       (s', Some e) \<Rightarrow> s' = sample_transcript
     | (s', None) \<Rightarrow> map mr_CreatedAt (mslice (messages s') ''t1'')
         = map mr_CreatedAt (mslice (messages sample_transcript) ''t1''))"
proof -
  have "snd (updateMessages background sample_transcript [sample_message ''m2'' ''edited'' 9]) = None"
    by code_simp
  with update_messages_in_place [OF sample_transcript_ok, where ctx = background and vs = "[sample_message ''m2'' ''edited'' 9]"]
  show ?thesis by (auto split: prod.splits option.splits)
qed

end
