(* ===== verification/Store_Workflow.thy ===== *)
theory Store_Workflow
  imports Store_State
begin

text \<open>
  Workflow runs and snapshots of the in-memory store: \<^verbatim>\<open>saveWorkflowRun\<close> to
  \<^verbatim>\<open>listWorkflowSnapshots\<close> in \<^verbatim>\<open>memory_storage.go\<close>. Snapshots are kept sorted by sequence with
  the binary search of \<^verbatim>\<open>sort.Search\<close>; runs are listed by start time and ID. The three raw fields
  of a run are checked in one of the orders Go may range over the literal map.
\<close>

section \<open>The code\<close>

definition saveWorkflowRun :: "Context \<Rightarrow> memoryState \<Rightarrow> WorkflowRunRecord \<Rightarrow> outcome" where
  "saveWorkflowRun ctx s v = commit_if (first_err [
       cx_Err ctx,
       chk (wr_ID v = [] \<or> wr_WorkflowID v = []) (Errorf ''lebro: workflow run and workflow IDs are required'' []),
       first_err (map (\<lambda>(name, value). wrap_err ''lebro: workflow run %s: %w'' [name] (validateJSON value))
         [(''input'', wr_Input v), (''output'', wr_Output v), (''metadata'', wr_Metadata v)]),
       first_err (map (\<lambda>(i, output). wrap_err ''lebro: workflow run step output %d: %w'' [show_nat i] (validateJSON output))
         (List.enumerate 0 (wr_StepOutputs v))),
       (case wr_Failure v of None \<Rightarrow> None
        | Some f \<Rightarrow> wrap_err ''lebro: workflow run failure: %w'' [] (validateRecord (failure_marshals f))),
       wrap_err ''lebro: workflow run: %w'' [] (validateRecord (run_marshals v))])
     s (s\<lparr>runs := mset_at (wr_ID v) (cloneWorkflowRunRecord v) (runs s)\<rparr>)"

definition getWorkflowRun :: "Context \<Rightarrow> memoryState \<Rightarrow> string \<Rightarrow> WorkflowRunRecord result" where
  "getWorkflowRun ctx s ident = (case cx_Err ctx of Some e \<Rightarrow> Inl e
     | None \<Rightarrow> (case mget (runs s) ident of None \<Rightarrow> Inl ErrNotFound | Some v \<Rightarrow> Inr (cloneWorkflowRunRecord v)))"

definition runMatchesFilter :: "WorkflowRunFilter \<Rightarrow> WorkflowRunRecord \<Rightarrow> bool" where
  "runMatchesFilter flt run \<longleftrightarrow>
     \<not> (rf_WorkflowID flt \<noteq> [] \<and> wr_WorkflowID run \<noteq> rf_WorkflowID flt)
     \<and> \<not> (rf_Status flt \<noteq> [] \<and> wr_Status run \<noteq> rf_Status flt)
     \<and> \<not> (rf_Namespace flt \<noteq> [] \<and> wr_Namespace run \<noteq> rf_Namespace flt)
     \<and> \<not> (rf_OwnerID flt \<noteq> [] \<and> wr_OwnerID run \<noteq> rf_OwnerID flt)"

definition run_sort_key :: "memoryState \<Rightarrow> string \<Rightarrow> Time \<times> string" where
  "run_sort_key s ident = (case mget (runs s) ident of None \<Rightarrow> (zero_time, ident) | Some r \<Rightarrow> (wr_StartedAt r, ident))"

definition filteredRuns :: "memoryState \<Rightarrow> WorkflowRunFilter \<Rightarrow> WorkflowRunRecord list" where
  "filteredRuns s flt = filter (runMatchesFilter flt)
     (List.map_filter (mget (runs s)) (sort_key (run_sort_key s) (mkeys (runs s))))"

definition listWorkflowRuns :: "Context \<Rightarrow> memoryState \<Rightarrow> WorkflowRunFilter \<Rightarrow> PageRequest \<Rightarrow> WorkflowRunRecord Page result" where
  "listWorkflowRuns ctx s flt p = (case cx_Err ctx of Some e \<Rightarrow> Inl e
     | None \<Rightarrow> paginate (filteredRuns s flt) p cloneWorkflowRunRecord)"

definition err_snapshot_exists :: go_error where
  "err_snapshot_exists = Errorf ''lebro: workflow snapshot already exists'' []"

definition snapshot_index :: "WorkflowSnapshotRecord list \<Rightarrow> int \<Rightarrow> nat" where
  "snapshot_index sns seq = sort_Search (length sns) (\<lambda>i. seq \<le> sn_Sequence (sns ! i))"

definition snapshot_checks :: "Context \<Rightarrow> memoryState \<Rightarrow> WorkflowSnapshotRecord \<Rightarrow> go_error option" where
  "snapshot_checks ctx s v = first_err [
     cx_Err ctx,
     chk (sn_ID v = [] \<or> sn_RunID v = []) (Errorf ''lebro: workflow snapshot and run IDs are required'' []),
     wrap_err ''lebro: workflow snapshot state: %w'' [] (validateJSON (sn_State v)),
     wrap_err ''lebro: workflow snapshot: %w'' [] (validateRecord (snapshot_marshals v)),
     chk (mget (runs s) (sn_RunID v) = None) ErrNotFound]"

definition insert_snapshot :: "memoryState \<Rightarrow> WorkflowSnapshotRecord \<Rightarrow> outcome" where
  "insert_snapshot s v =
     (let ids = mslice (snapshotIDs s) (sn_RunID v);
          sns = mslice (snapshots s) (sn_RunID v);
          index = snapshot_index sns (sn_Sequence v) in
      if sn_ID v \<in> set ids then (s, Some err_snapshot_exists)
      else if index < length sns \<and> sn_Sequence (sns ! index) = sn_Sequence v then (s, Some err_snapshot_exists)
      else (s\<lparr>snapshots := mset_at (sn_RunID v)
                  (take index sns @ cloneWorkflowSnapshotRecord v # drop index sns) (snapshots s),
               snapshotIDs := mset_at (sn_RunID v) (sn_ID v # ids) (snapshotIDs s)\<rparr>, None))"

definition saveWorkflowSnapshot :: "Context \<Rightarrow> memoryState \<Rightarrow> WorkflowSnapshotRecord \<Rightarrow> outcome" where
  "saveWorkflowSnapshot ctx s v = (case snapshot_checks ctx s v of Some e \<Rightarrow> (s, Some e)
     | None \<Rightarrow> insert_snapshot (if mget (snapshotIDs s) (sn_RunID v) = None
         then s\<lparr>snapshotIDs := mset_at (sn_RunID v) [] (snapshotIDs s)\<rparr> else s) v)"

definition listWorkflowSnapshots :: "Context \<Rightarrow> memoryState \<Rightarrow> string \<Rightarrow> PageRequest \<Rightarrow> WorkflowSnapshotRecord Page result" where
  "listWorkflowSnapshots ctx s ident p = (case cx_Err ctx of Some e \<Rightarrow> Inl e
     | None \<Rightarrow> if mget (runs s) ident = None then Inl ErrNotFound
         else paginate (mslice (snapshots s) ident) p cloneWorkflowSnapshotRecord)"

section \<open>Invariant\<close>

lemma set_run_ok:
  assumes "workflow_ok rs sns ids" "wr_ID v \<noteq> []"
  shows "workflow_ok (mset_at (wr_ID v) (cloneWorkflowRunRecord v) rs) sns ids"
proof (rule workflow_okI)
  show "wr_ID w = r \<and> r \<noteq> []" if "mget (mset_at (wr_ID v) (cloneWorkflowRunRecord v) rs) r = Some w" for r w
    using that assms(2) workflow_okD(4) [OF assms(1), of r w] by (auto split: if_splits)
  show "mget (mset_at (wr_ID v) (cloneWorkflowRunRecord v) rs) r \<noteq> None" if "mslice sns r \<noteq> []" for r
    using that workflow_okD(5) [OF assms(1), of r] by auto
qed (use workflow_okD [OF assms(1)] in auto)

lemma saveWorkflowRun_ok: "store_ok s \<Longrightarrow> store_ok (fst (saveWorkflowRun ctx s v))"
  by (simp add: saveWorkflowRun_def store_ok_def set_run_ok)

lemma insert_snapshot_ok:
  assumes ok: "workflow_ok rs sns ids" and run: "mget rs (sn_RunID v) \<noteq> None"
    and fresh: "sn_ID v \<notin> set (mslice ids (sn_RunID v))"
    and idx: "index = snapshot_index (mslice sns (sn_RunID v)) (sn_Sequence v)"
    and new: "\<not> (index < length (mslice sns (sn_RunID v)) \<and> sn_Sequence (mslice sns (sn_RunID v) ! index) = sn_Sequence v)"
  shows "workflow_ok rs
     (mset_at (sn_RunID v) (take index (mslice sns (sn_RunID v)) @ cloneWorkflowSnapshotRecord v
        # drop index (mslice sns (sn_RunID v))) sns)
     (mset_at (sn_RunID v) (sn_ID v # mslice ids (sn_RunID v)) ids)"
proof -
  define xs where "xs = mslice sns (sn_RunID v)"
  define ys where "ys = take index xs @ cloneWorkflowSnapshotRecord v # drop index xs"
  have xs: "sorted_wrt (<) (map sn_Sequence xs)" "distinct (map sn_ID xs)"
    using workflow_okD [OF ok] by (simp_all add: xs_def)
  note i = sort_Search_sorted [OF xs(1), where v = "sn_Sequence v", folded snapshot_index_def]
  have iv: "index = snapshot_index xs (sn_Sequence v)" using idx by (simp add: xs_def)
  have lt: "\<And>x. x \<in> set (take index xs) \<Longrightarrow> sn_Sequence x < sn_Sequence v" using i(2) iv by simp
  have gt: "sn_Sequence v < sn_Sequence x" if x: "x \<in> set (drop index xs)" for x
  proof -
    have ge: "sn_Sequence v \<le> sn_Sequence x" using i(3) iv x by simp
    obtain k where k: "index + k < length xs" "x = xs ! (index + k)"
      using x by (rule in_set_drop_nth)
    show ?thesis
    proof (cases "k = 0")
      case True
      then show ?thesis using ge new k by (auto simp: xs_def)
    next
      case False
      then have "sn_Sequence (xs ! index) < sn_Sequence x"
        using xs(1) k by (auto simp: sorted_wrt_iff_nth_less)
      moreover have "sn_Sequence v \<le> sn_Sequence (xs ! index)"
        using i(3) [of "xs ! index"] iv k by (metis add_lessD1 Cons_nth_drop_Suc list.set_intros(1))
      ultimately show ?thesis by simp
    qed
  qed
  have split: "xs = take index xs @ drop index xs" by simp
  have s: "sorted_wrt (<) (map sn_Sequence ys)"
    using xs(1) lt gt by (subst (asm) split)
      (auto simp: ys_def sorted_wrt_append simp del: append_take_drop_id intro: less_trans)
  have set_ys: "set ys = insert (cloneWorkflowSnapshotRecord v) (set xs)"
    by (subst split) (simp add: ys_def del: append_take_drop_id)
  have "sn_ID v \<notin> sn_ID ` set xs"
    using fresh workflow_okD(8) [OF ok] by (simp add: xs_def)
  then have d: "distinct (map sn_ID ys)"
    using xs(2) by (subst (asm) split, subst (asm) split)
      (auto simp: ys_def simp del: append_take_drop_id dest: in_set_takeD in_set_dropD)
  show ?thesis
    unfolding xs_def [symmetric] ys_def [symmetric]
  proof (rule workflow_okI)
    show "sorted_wrt (<) (map sn_Sequence (mslice (mset_at (sn_RunID v) ys sns) r))" for r
      using s workflow_okD(6) [OF ok] by simp
    show "distinct (map sn_ID (mslice (mset_at (sn_RunID v) ys sns) r))" for r
      using d workflow_okD(7) [OF ok] by simp
    show "set (mslice (mset_at (sn_RunID v) (sn_ID v # mslice ids (sn_RunID v)) ids) r)
        = sn_ID ` set (mslice (mset_at (sn_RunID v) ys sns) r)" for r
      using set_ys workflow_okD(8) [OF ok] by (simp add: xs_def)
    show "sn_RunID w = r" if "w \<in> set (mslice (mset_at (sn_RunID v) ys sns) r)" for r w
      using that set_ys workflow_okD(9) [OF ok] by (auto simp: xs_def split: if_splits)
    show "mget rs r \<noteq> None" if "mslice (mset_at (sn_RunID v) ys sns) r \<noteq> []" for r
      using that run workflow_okD(5) [OF ok, of r] by (auto split: if_splits)
  qed (use workflow_okD [OF ok] in auto)
qed

lemma touch_snapshot_ids_ok:
  "workflow_ok rs sns ids \<Longrightarrow> mget ids r = None \<Longrightarrow> workflow_ok rs sns (mset_at r [] ids)"
proof (rule workflow_okI)
  assume ok: "workflow_ok rs sns ids" and n: "mget ids r = None"
  show "set (mslice (mset_at r [] ids) k) = sn_ID ` set (mslice sns k)" for k
    using workflow_okD(8) [OF ok, of k] n by (auto simp: mslice_def [of ids])
qed (auto dest: workflow_okD)

text \<open>An insertion that fails changes nothing; one that succeeds keeps the order and the index.\<close>

lemma insert_snapshot_cases:
  obtains (failed) e where "insert_snapshot s v = (s, Some e)"
  | (saved) index where
      "sn_ID v \<notin> set (mslice (snapshotIDs s) (sn_RunID v))"
      "index = snapshot_index (mslice (snapshots s) (sn_RunID v)) (sn_Sequence v)"
      "\<not> (index < length (mslice (snapshots s) (sn_RunID v))
          \<and> sn_Sequence (mslice (snapshots s) (sn_RunID v) ! index) = sn_Sequence v)"
      "insert_snapshot s v = (s\<lparr>snapshots := mset_at (sn_RunID v)
          (take index (mslice (snapshots s) (sn_RunID v)) @ cloneWorkflowSnapshotRecord v
             # drop index (mslice (snapshots s) (sn_RunID v))) (snapshots s),
         snapshotIDs := mset_at (sn_RunID v) (sn_ID v # mslice (snapshotIDs s) (sn_RunID v)) (snapshotIDs s)\<rparr>, None)"
  using that unfolding insert_snapshot_def Let_def
  by (metis (no_types, lifting))

lemma insert_snapshot_store_ok:
  assumes "store_ok s" "mget (runs s) (sn_RunID v) \<noteq> None"
  shows "store_ok (fst (insert_snapshot s v))"
proof (cases rule: insert_snapshot_cases [where s = s and v = v])
  case failed
  then show ?thesis using assms by simp
next
  case (saved index)
  have "workflow_ok (runs s) (snapshots s) (snapshotIDs s)" using assms by (simp add: store_ok_def)
  from insert_snapshot_ok [OF this assms(2) saved(1,2,3)] assms(1) show ?thesis
    unfolding saved(4) by (simp add: store_ok_def)
qed

lemma saveWorkflowSnapshot_ok:
  assumes "store_ok s"
  shows "store_ok (fst (saveWorkflowSnapshot ctx s v))"
proof (cases "snapshot_checks ctx s v")
  case None
  then have "mget (runs s) (sn_RunID v) \<noteq> None" by (simp add: snapshot_checks_def)
  moreover have "store_ok (s\<lparr>snapshotIDs := mset_at (sn_RunID v) [] (snapshotIDs s)\<rparr>)"
    if "mget (snapshotIDs s) (sn_RunID v) = None"
    using assms touch_snapshot_ids_ok [OF _ that] by (simp add: store_ok_def)
  ultimately show ?thesis
    using None assms by (simp add: saveWorkflowSnapshot_def insert_snapshot_store_ok)
qed (simp add: saveWorkflowSnapshot_def assms)

lemmas workflow_ops_ok = saveWorkflowRun_ok saveWorkflowSnapshot_ok

section \<open>Listing runs\<close>

lemma filteredRuns_set:
  "set (filteredRuns s flt) = {run. (\<exists>k. mget (runs s) k = Some run) \<and> runMatchesFilter flt run}"
  by (auto simp: filteredRuns_def set_map_filter_mget mkeys_mget)

lemma filteredRuns_sorted:
  assumes "workflow_ok (runs s) (snapshots s) (snapshotIDs s)"
  shows "sorted_wrt (\<lambda>a b. (wr_StartedAt a, wr_ID a) < (wr_StartedAt b, wr_ID b)) (filteredRuns s flt)"
proof -
  have "inj_on (run_sort_key s) (set (mkeys (runs s)))"
    by (auto simp: inj_on_def run_sort_key_def split: option.splits)
  then have "sorted_wrt (\<lambda>a b. run_sort_key s a < run_sort_key s b) (sort_key (run_sort_key s) (mkeys (runs s)))"
    using workflow_okD(1) [OF assms] by (intro sorted_key_strict) (simp_all add: distinct_mkeys)
  then show ?thesis
    unfolding filteredRuns_def
    by (intro sorted_wrt_filter, elim sorted_wrt_map_filter)
       (auto simp: run_sort_key_def dest: workflow_okD(4) [OF assms])
qed


lemma length_map_filter_le: "length (List.map_filter f xs) \<le> length xs"
  by (simp add: List.map_filter_def)

lemma filteredRuns_length: "length (filteredRuns s flt) \<le> length (runs s)"
  unfolding filteredRuns_def
  by (rule le_trans [OF length_filter_le], rule le_trans [OF length_map_filter_le])
     (simp add: mkeys_def)

definition sample_run :: "string \<Rightarrow> string \<Rightarrow> Time \<Rightarrow> WorkflowRunRecord" where
  "sample_run ident ns at0 = \<lparr>wr_ID = ident, wr_WorkflowID = ''wf'', wr_ThreadID = [], wr_Namespace = ns,
     wr_OwnerID = ''ada'', wr_Status = ''running'', wr_Input = None, wr_Output = None, wr_StepOutputs = [],
     wr_CurrentStep = 0, wr_CurrentStepID = [], wr_Path = [], wr_Failure = None, wr_FanOut = [],
     wr_WorkflowVersion = [], wr_Metadata = None, wr_StartedAt = at0, wr_FinishedAt = None, wr_UpdatedAt = at0\<rparr>"

definition sample_runs :: memoryState where
  "sample_runs = fst (saveWorkflowRun background (fst (saveWorkflowRun background newMemoryState
     (sample_run ''r2'' ''acme'' 7))) (sample_run ''r1'' ''globex'' 5))"

lemma sample_runs_ok: "store_ok sample_runs"
  by (simp add: sample_runs_def saveWorkflowRun_ok store_ok_new)

definition sample_snapshot :: "string \<Rightarrow> int \<Rightarrow> WorkflowSnapshotRecord" where
  "sample_snapshot ident seq = \<lparr>sn_ID = ident, sn_RunID = ''r1'', sn_Sequence = seq, sn_SchemaVersion = 1,
     sn_State = Some ''{}'', sn_CreatedAt = 0\<rparr>"

text \<open>C22 save_snapshot_ordered: saving a snapshot never disturbs the others. When it succeeds, the run's
  snapshots are the old ones plus the new one, in strictly increasing sequence; a duplicate ID or
  sequence is refused, and a refusal leaves every snapshot and every other record as they were.\<close>

theorem save_snapshot_ordered:
  assumes "store_ok s"
  shows "case saveWorkflowSnapshot ctx s v of
     (s', Some e) \<Rightarrow> s' = s\<lparr>snapshotIDs := snapshotIDs s'\<rparr>
   | (s', None) \<Rightarrow> s' = s\<lparr>snapshots := snapshots s', snapshotIDs := snapshotIDs s'\<rparr>
       \<and> set (mslice (snapshots s') (sn_RunID v))
           = insert (cloneWorkflowSnapshotRecord v) (set (mslice (snapshots s) (sn_RunID v)))
       \<and> length (mslice (snapshots s') (sn_RunID v)) = Suc (length (mslice (snapshots s) (sn_RunID v)))
       \<and> (\<forall>r. sorted_wrt (<) (map sn_Sequence (mslice (snapshots s') r)))
       \<and> (\<forall>r. r = sn_RunID v \<or> mslice (snapshots s') r = mslice (snapshots s) r)"
proof -
  have inserted: "set (take i xs @ x # drop i xs) = insert x (set xs)"
    "length (take i xs @ x # drop i xs) = Suc (length xs)" for i and x :: WorkflowSnapshotRecord and xs
    by (simp_all, metis Un_insert_right append_take_drop_id list.simps(15) set_append)
  have sorted: "sorted_wrt (<) (map sn_Sequence (mslice (snapshots (fst (saveWorkflowSnapshot ctx s v))) r))" for r
    using saveWorkflowSnapshot_ok [OF assms, of ctx v] workflow_okD(6) by (auto simp: store_ok_def)
  show ?thesis
  proof (cases "snapshot_checks ctx s v")
    case None
    define s1 where "s1 = (if mget (snapshotIDs s) (sn_RunID v) = None
         then s\<lparr>snapshotIDs := mset_at (sn_RunID v) [] (snapshotIDs s)\<rparr> else s)"
    have eq: "saveWorkflowSnapshot ctx s v = insert_snapshot s1 v"
      using None by (simp add: saveWorkflowSnapshot_def s1_def)
    have s1: "s1 = s\<lparr>snapshotIDs := snapshotIDs s1\<rparr>" "snapshots s1 = snapshots s"
      by (simp_all add: s1_def)
    show ?thesis
    proof (cases rule: insert_snapshot_cases [where s = s1 and v = v])
      case failed
      then show ?thesis using eq s1(1) by simp
    next
      case (saved index)
      have "sorted_wrt (<) (map sn_Sequence (mslice (snapshots (fst (insert_snapshot s1 v))) r))" for r
        using sorted eq by simp
      with saved(4) eq s1 inserted show ?thesis
        by (cases s) (auto simp: s1_def)
    qed
  qed (simp add: saveWorkflowSnapshot_def)
qed

theorem save_snapshot_ordered_witness:
  "snd (saveWorkflowSnapshot background sample_runs (sample_snapshot ''a'' 3)) = None
   \<and> (case saveWorkflowSnapshot background sample_runs (sample_snapshot ''a'' 3) of
       (s', Some e) \<Rightarrow> False
     | (s', None) \<Rightarrow> set (mslice (snapshots s') ''r1'') = insert (sample_snapshot ''a'' 3) (set (mslice (snapshots sample_runs) ''r1'')))"
proof -
  have 1: "snd (saveWorkflowSnapshot background sample_runs (sample_snapshot ''a'' 3)) = None" by code_simp
  have 2: "cloneWorkflowSnapshotRecord (sample_snapshot ''a'' 3) = sample_snapshot ''a'' 3"
    "sn_RunID (sample_snapshot ''a'' 3) = ''r1''" by (simp_all add: sample_snapshot_def cloneWorkflowSnapshotRecord_def cloneJSON_def)
  show ?thesis
    using 1 2 save_snapshot_ordered [OF sample_runs_ok, where ctx = background and v = "sample_snapshot ''a'' 3"]
    by (auto split: prod.splits option.splits)
qed

text \<open>C23 list_workflow_runs_complete: paging through the runs returns exactly the stored runs that match the
  filter, each once, ordered by start time and then by ID.\<close>

theorem list_workflow_runs_complete:
  assumes "store_ok s" "cx_Err ctx = None" "0 \<le> limit" "int (length (runs s)) \<le> max_int64"
  shows "\<exists>rs. collect_pages (listWorkflowRuns ctx s flt) limit [] [] = Some (Inr rs)
     \<and> sorted_wrt (\<lambda>a b. (wr_StartedAt a, wr_ID a) < (wr_StartedAt b, wr_ID b)) rs
     \<and> set rs = cloneWorkflowRunRecord ` {run. (\<exists>k. mget (runs s) k = Some run) \<and> runMatchesFilter flt run}"
proof -
  have "listWorkflowRuns ctx s flt = (\<lambda>p. paginate (filteredRuns s flt) p cloneWorkflowRunRecord)"
    using assms(2) by (simp add: fun_eq_iff listWorkflowRuns_def)
  moreover have "collect_pages (\<lambda>p. paginate (filteredRuns s flt) p cloneWorkflowRunRecord) limit [] []
      = Some (Inr (map cloneWorkflowRunRecord (filteredRuns s flt)))"
    using assms(3,4) filteredRuns_length [of s flt] by (intro paged.collect_all) auto
  moreover have "sorted_wrt (\<lambda>a b. (wr_StartedAt a, wr_ID a) < (wr_StartedAt b, wr_ID b))
      (map cloneWorkflowRunRecord (filteredRuns s flt))"
    using filteredRuns_sorted [of s flt] assms(1) by (simp add: sorted_wrt_map store_ok_def)
  ultimately show ?thesis
    by (simp add: filteredRuns_set)
qed

theorem list_workflow_runs_complete_witness:
  "\<exists>rs. collect_pages (listWorkflowRuns background sample_runs
        \<lparr>rf_WorkflowID = [], rf_Status = [], rf_Namespace = ''acme'', rf_OwnerID = []\<rparr>) 1 [] [] = Some (Inr rs)
     \<and> set rs = cloneWorkflowRunRecord ` {run. (\<exists>k. mget (runs sample_runs) k = Some run)
          \<and> runMatchesFilter \<lparr>rf_WorkflowID = [], rf_Status = [], rf_Namespace = ''acme'', rf_OwnerID = []\<rparr> run}"
proof -
  have "cx_Err background = None" "int (length (runs sample_runs)) \<le> max_int64" by code_simp+
  then show ?thesis
    using list_workflow_runs_complete [OF sample_runs_ok, where ctx = background and limit = 1
      and flt = "\<lparr>rf_WorkflowID = [], rf_Status = [], rf_Namespace = ''acme'', rf_OwnerID = []\<rparr>"] by auto
qed

end
