(* ===== verification/Store_Schedules.thy ===== *)
theory Store_Schedules
  imports Store_State
begin

text \<open>
  Schedules and their execution history in the in-memory store: \<^verbatim>\<open>saveSchedule\<close> to
  \<^verbatim>\<open>listScheduleExecutions\<close> in \<^verbatim>\<open>memory_storage.go\<close>. Deleting a schedule removes its history, so a
  schedule recreated under the same ID starts with none.
\<close>

section \<open>The code\<close>

definition saveSchedule :: "Context \<Rightarrow> memoryState \<Rightarrow> ScheduleRecord \<Rightarrow> outcome" where
  "saveSchedule ctx s v = commit_if (first_err [
       cx_Err ctx,
       chk (sd_ID v = [] \<or> sd_WorkflowID v = []) (Errorf ''lebro: schedule and workflow IDs are required'' []),
       chk (sd_Spec v = []) (Errorf ''lebro: schedule spec is required'' []),
       first_err (map (\<lambda>(name, value). wrap_err ''lebro: schedule %s: %w'' [name] (validateJSON value))
         [(''input'', sd_Input v), (''metadata'', sd_Metadata v)]),
       wrap_err ''lebro: schedule: %w'' [] (validateRecord (schedule_marshals v))])
     s (s\<lparr>schedules := mset_at (sd_ID v) (cloneScheduleRecord v) (schedules s)\<rparr>)"

definition getSchedule :: "Context \<Rightarrow> memoryState \<Rightarrow> string \<Rightarrow> ScheduleRecord result" where
  "getSchedule ctx s ident = (case cx_Err ctx of Some e \<Rightarrow> Inl e
     | None \<Rightarrow> (case mget (schedules s) ident of None \<Rightarrow> Inl ErrNotFound | Some v \<Rightarrow> Inr (cloneScheduleRecord v)))"

definition scheduleMatchesFilter :: "ScheduleFilter \<Rightarrow> ScheduleRecord \<Rightarrow> bool" where
  "scheduleMatchesFilter flt sched \<longleftrightarrow>
     \<not> (sf_WorkflowID flt \<noteq> [] \<and> sd_WorkflowID sched \<noteq> sf_WorkflowID flt)
     \<and> \<not> (sf_Namespace flt \<noteq> [] \<and> sd_Namespace sched \<noteq> sf_Namespace flt)
     \<and> \<not> (sf_OwnerID flt \<noteq> [] \<and> sd_OwnerID sched \<noteq> sf_OwnerID flt)
     \<and> (case sf_DueBy flt of None \<Rightarrow> True
        | Some due \<Rightarrow> \<not> (sd_Paused sched \<or> (case sd_NextFireAt sched of None \<Rightarrow> True | Some t \<Rightarrow> due < t)))"

definition schedule_sort_key :: "memoryState \<Rightarrow> string \<Rightarrow> Time \<times> string" where
  "schedule_sort_key s ident = (case mget (schedules s) ident of None \<Rightarrow> (zero_time, ident)
     | Some v \<Rightarrow> (sd_CreatedAt v, ident))"

definition filteredSchedules :: "memoryState \<Rightarrow> ScheduleFilter \<Rightarrow> ScheduleRecord list" where
  "filteredSchedules s flt = filter (scheduleMatchesFilter flt)
     (List.map_filter (mget (schedules s)) (sort_key (schedule_sort_key s) (mkeys (schedules s))))"

definition listSchedules :: "Context \<Rightarrow> memoryState \<Rightarrow> ScheduleFilter \<Rightarrow> PageRequest \<Rightarrow> ScheduleRecord Page result" where
  "listSchedules ctx s flt p = (case cx_Err ctx of Some e \<Rightarrow> Inl e
     | None \<Rightarrow> paginate (filteredSchedules s flt) p cloneScheduleRecord)"

definition deleteSchedule :: "Context \<Rightarrow> memoryState \<Rightarrow> string \<Rightarrow> outcome" where
  "deleteSchedule ctx s ident = commit_if (first_err [
       cx_Err ctx,
       chk (mget (schedules s) ident = None) ErrNotFound])
     s (s\<lparr>schedules := mdel ident (schedules s), executions := mdel ident (executions s),
          executionIDs := mdel ident (executionIDs s)\<rparr>)"

definition execution_checks :: "Context \<Rightarrow> memoryState \<Rightarrow> ScheduleExecutionRecord \<Rightarrow> go_error option" where
  "execution_checks ctx s v = first_err [
     cx_Err ctx,
     chk (se_ID v = [] \<or> se_ScheduleID v = []) (Errorf ''lebro: schedule execution and schedule IDs are required'' []),
     wrap_err ''lebro: schedule execution: %w'' [] (validateRecord (execution_marshals v)),
     chk (mget (schedules s) (se_ScheduleID v) = None) ErrNotFound]"

definition insert_execution :: "memoryState \<Rightarrow> ScheduleExecutionRecord \<Rightarrow> outcome" where
  "insert_execution s v = (let ids = mslice (executionIDs s) (se_ScheduleID v) in
     if se_ID v \<in> set ids then (s, Some (Errorf ''lebro: schedule execution already exists'' []))
     else (s\<lparr>executions := mset_at (se_ScheduleID v)
               (mslice (executions s) (se_ScheduleID v) @ [cloneScheduleExecutionRecord v]) (executions s),
             executionIDs := mset_at (se_ScheduleID v) (se_ID v # ids) (executionIDs s)\<rparr>, None))"

definition saveScheduleExecution :: "Context \<Rightarrow> memoryState \<Rightarrow> ScheduleExecutionRecord \<Rightarrow> outcome" where
  "saveScheduleExecution ctx s v = (case execution_checks ctx s v of Some e \<Rightarrow> (s, Some e)
     | None \<Rightarrow> insert_execution (if mget (executionIDs s) (se_ScheduleID v) = None
         then s\<lparr>executionIDs := mset_at (se_ScheduleID v) [] (executionIDs s)\<rparr> else s) v)"

definition listScheduleExecutions :: "Context \<Rightarrow> memoryState \<Rightarrow> string \<Rightarrow> PageRequest \<Rightarrow> ScheduleExecutionRecord Page result" where
  "listScheduleExecutions ctx s ident p = (case cx_Err ctx of Some e \<Rightarrow> Inl e
     | None \<Rightarrow> if mget (schedules s) ident = None then Inl ErrNotFound
         else paginate (mslice (executions s) ident) p cloneScheduleExecutionRecord)"

section \<open>Invariant\<close>

lemma set_schedule_ok:
  assumes "schedule_ok sds exs ids" "sd_ID v \<noteq> []"
  shows "schedule_ok (mset_at (sd_ID v) (cloneScheduleRecord v) sds) exs ids"
proof (rule schedule_okI)
  show "sd_ID w = k \<and> k \<noteq> []" if "mget (mset_at (sd_ID v) (cloneScheduleRecord v) sds) k = Some w" for k w
    using that assms(2) schedule_okD(4) [OF assms(1), of k w] by (auto split: if_splits)
  show "mget (mset_at (sd_ID v) (cloneScheduleRecord v) sds) k \<noteq> None" if "mslice exs k \<noteq> []" for k
    using that schedule_okD(5) [OF assms(1), of k] by auto
qed (use schedule_okD [OF assms(1)] in auto)

lemma saveSchedule_ok: "store_ok s \<Longrightarrow> store_ok (fst (saveSchedule ctx s v))"
  by (simp add: saveSchedule_def store_ok_def set_schedule_ok)

lemma delete_schedule_ok:
  assumes "schedule_ok sds exs ids"
  shows "schedule_ok (mdel k sds) (mdel k exs) (mdel k ids)"
proof (rule schedule_okI)
  show "sd_ID w = i \<and> i \<noteq> []" if "mget (mdel k sds) i = Some w" for i w
    using that schedule_okD(4) [OF assms, of i w] by (auto split: if_splits)
  show "mget (mdel k sds) i \<noteq> None" if "mslice (mdel k exs) i \<noteq> []" for i
    using that schedule_okD(5) [OF assms, of i] by (auto split: if_splits)
  show "se_ScheduleID w = i" if "w \<in> set (mslice (mdel k exs) i)" for i w
    using that schedule_okD(8) [OF assms, of w i] by (auto split: if_splits)
qed (use schedule_okD [OF assms] in auto)

lemma deleteSchedule_ok: "store_ok s \<Longrightarrow> store_ok (fst (deleteSchedule ctx s ident))"
  by (simp add: deleteSchedule_def store_ok_def delete_schedule_ok)

lemma insert_execution_ok:
  assumes ok: "schedule_ok sds exs ids" and sched: "mget sds (se_ScheduleID v) \<noteq> None"
    and fresh: "se_ID v \<notin> set (mslice ids (se_ScheduleID v))"
  shows "schedule_ok sds (mset_at (se_ScheduleID v) (mslice exs (se_ScheduleID v) @ [v]) exs)
     (mset_at (se_ScheduleID v) (se_ID v # mslice ids (se_ScheduleID v)) ids)"
proof (rule schedule_okI)
  let ?k = "se_ScheduleID v"
  have "se_ID v \<notin> se_ID ` set (mslice exs ?k)"
    using fresh schedule_okD(7) [OF ok] by simp
  then show "distinct (map se_ID (mslice (mset_at ?k (mslice exs ?k @ [v]) exs) k))" for k
    using schedule_okD(6) [OF ok] by simp
  show "mget sds k \<noteq> None" if "mslice (mset_at ?k (mslice exs ?k @ [v]) exs) k \<noteq> []" for k
    using that sched schedule_okD(5) [OF ok, of k] by (auto split: if_splits)
  show "set (mslice (mset_at ?k (se_ID v # mslice ids ?k) ids) k) = se_ID ` set (mslice (mset_at ?k (mslice exs ?k @ [v]) exs) k)" for k
    using schedule_okD(7) [OF ok] by simp
  show "se_ScheduleID w = k" if "w \<in> set (mslice (mset_at ?k (mslice exs ?k @ [v]) exs) k)" for k w
    using that schedule_okD(8) [OF ok, of w k] by (auto split: if_splits)
qed (use schedule_okD [OF ok] in auto)

lemma touch_execution_ids_ok:
  "schedule_ok sds exs ids \<Longrightarrow> mget ids r = None \<Longrightarrow> schedule_ok sds exs (mset_at r [] ids)"
proof (rule schedule_okI)
  assume ok: "schedule_ok sds exs ids" and n: "mget ids r = None"
  show "set (mslice (mset_at r [] ids) k) = se_ID ` set (mslice exs k)" for k
    using schedule_okD(7) [OF ok, of k] n by (auto simp: mslice_def [of ids])
qed (auto dest: schedule_okD)

lemma insert_execution_store_ok:
  "store_ok s \<Longrightarrow> mget (schedules s) (se_ScheduleID v) \<noteq> None \<Longrightarrow> store_ok (fst (insert_execution s v))"
  by (simp add: insert_execution_def Let_def store_ok_def insert_execution_ok)

lemma saveScheduleExecution_ok:
  assumes "store_ok s"
  shows "store_ok (fst (saveScheduleExecution ctx s v))"
proof (cases "execution_checks ctx s v")
  case None
  then have "mget (schedules s) (se_ScheduleID v) \<noteq> None" by (simp add: execution_checks_def)
  moreover have "store_ok (s\<lparr>executionIDs := mset_at (se_ScheduleID v) [] (executionIDs s)\<rparr>)"
    if "mget (executionIDs s) (se_ScheduleID v) = None"
    using assms touch_execution_ids_ok [OF _ that] by (simp add: store_ok_def)
  ultimately show ?thesis
    using None assms by (simp add: saveScheduleExecution_def insert_execution_store_ok)
qed (simp add: saveScheduleExecution_def assms)

lemmas schedule_ops_ok = saveSchedule_ok deleteSchedule_ok saveScheduleExecution_ok

section \<open>Listing\<close>

lemma filteredSchedules_set:
  "set (filteredSchedules s flt) = {v. (\<exists>k. mget (schedules s) k = Some v) \<and> scheduleMatchesFilter flt v}"
  by (auto simp: filteredSchedules_def set_map_filter_mget mkeys_mget)

lemma filteredSchedules_length: "length (filteredSchedules s flt) \<le> length (schedules s)"
  unfolding filteredSchedules_def
  by (rule le_trans [OF length_filter_le]) (simp add: List.map_filter_def le_trans [OF length_filter_le] mkeys_def)

lemma filteredSchedules_sorted:
  assumes "schedule_ok (schedules s) (executions s) (executionIDs s)"
  shows "sorted_wrt (\<lambda>a b. (sd_CreatedAt a, sd_ID a) < (sd_CreatedAt b, sd_ID b)) (filteredSchedules s flt)"
proof -
  have "inj_on (schedule_sort_key s) (set (mkeys (schedules s)))"
    by (auto simp: inj_on_def schedule_sort_key_def split: option.splits)
  then have "sorted_wrt (\<lambda>a b. schedule_sort_key s a < schedule_sort_key s b)
      (sort_key (schedule_sort_key s) (mkeys (schedules s)))"
    using schedule_okD(1) [OF assms] by (intro sorted_key_strict) (simp_all add: distinct_mkeys)
  then show ?thesis
    unfolding filteredSchedules_def
    by (intro sorted_wrt_filter, elim sorted_wrt_map_filter)
       (auto simp: schedule_sort_key_def dest: schedule_okD(4) [OF assms])
qed


definition sample_schedule :: "string \<Rightarrow> ScheduleRecord" where
  "sample_schedule ident = \<lparr>sd_ID = ident, sd_WorkflowID = ''wf'', sd_Namespace = ''acme'', sd_OwnerID = ''ada'',
     sd_Spec = ''@daily'', sd_Paused = False, sd_Concurrency = [], sd_Input = None, sd_Metadata = None,
     sd_NextFireAt = Some 100, sd_LastFireAt = None, sd_WakeRunID = [], sd_WakeToken = [], sd_CreatedAt = 0, sd_UpdatedAt = 0\<rparr>"

definition sample_schedules :: memoryState where
  "sample_schedules = fst (saveSchedule background newMemoryState (sample_schedule ''s1''))"

text \<open>C27 delete_schedule_cascades: deleting a schedule removes its whole execution history, so a schedule saved
  again under the same ID starts with an empty history and its executions cannot collide with old ones.\<close>

theorem delete_schedule_cascades:
  assumes "deleteSchedule ctx s (sd_ID v) = (s1, None)" "saveSchedule ctx' s1 v = (s2, None)"
  shows "mget (schedules s2) (sd_ID v) = Some (cloneScheduleRecord v) \<and> mslice (executions s2) (sd_ID v) = []
     \<and> mslice (executionIDs s2) (sd_ID v) = []"
  using assms by (auto simp: deleteSchedule_def saveSchedule_def commit_if_None)

theorem delete_schedule_cascades_witness:
  "let s1 = fst (deleteSchedule background sample_schedules ''s1'');
       s2 = fst (saveSchedule background s1 (sample_schedule ''s1'')) in
   mget (schedules s2) ''s1'' = Some (cloneScheduleRecord (sample_schedule ''s1'')) \<and> mslice (executions s2) ''s1'' = []"
proof -
  let ?s1 = "fst (deleteSchedule background sample_schedules ''s1'')"
  let ?s2 = "fst (saveSchedule background ?s1 (sample_schedule ''s1''))"
  have i: "sd_ID (sample_schedule ''s1'') = ''s1''" by (simp add: sample_schedule_def)
  have "snd (deleteSchedule background sample_schedules ''s1'') = None"
    "snd (saveSchedule background ?s1 (sample_schedule ''s1'')) = None" by code_simp+
  then have "deleteSchedule background sample_schedules (sd_ID (sample_schedule ''s1'')) = (?s1, None)"
    "saveSchedule background ?s1 (sample_schedule ''s1'') = (?s2, None)"
    by (metis i prod.collapse)+
  from delete_schedule_cascades [OF this] show ?thesis by (simp add: i)
qed

end
