(* ===== verification/Working_Memory.thy ===== *)
theory Working_Memory
  imports Store_State
begin

text \<open>
  Working memory: \<^verbatim>\<open>internal/runtime/working_memory_storage.go\<close>. Facts live in one map under the key
  \<^verbatim>\<open>namespace NUL owner NUL key\<close>; writes carry the version they expect (optimistic concurrency).
  The model keeps that map key as the code builds it. It separates scopes only as long as
  namespaces and owners contain no NUL byte: \<open>workingMemoryMapKey_inj\<close> and the collision below it.
\<close>

section \<open>The code\<close>

definition validateWorkingMemoryScope :: "Context \<Rightarrow> string \<Rightarrow> string \<Rightarrow> go_error option" where
  "validateWorkingMemoryScope ctx namespace owner = first_err [
     chk (namespace = [] \<or> owner = []) (Errorf ''lebro: working memory namespace and owner ID are required'' []),
     (case IdentityFromContext ctx of None \<Rightarrow> None
      | Some identity \<Rightarrow> chk (idn_Tenant identity \<noteq> namespace \<or> idn_Subject identity \<noteq> owner)
          (PolicyDenial (idn_Subject identity) (idn_Tenant identity) ActionStorageWrite
             (resource ResourceKindWorkingMemory owner namespace [])
             ''working memory scope does not match caller identity''))]"

definition validateWorkingMemoryFact :: "Context \<Rightarrow> WorkingMemoryFact \<Rightarrow> go_error option" where
  "validateWorkingMemoryFact ctx v = first_err [
     chk (wm_ID v = [] \<or> wm_Key v = []) (Errorf ''lebro: working memory fact ID and key are required'' []),
     validateWorkingMemoryScope ctx (wm_Namespace v) (wm_OwnerID v),
     wrap_err ''lebro: working memory fact value: %w'' [] (validateJSON (wm_Value v))]"

text \<open>The version is an \<^verbatim>\<open>int64\<close>: the increment wraps.\<close>

definition upsertWorkingMemoryFact ::
  "Context \<Rightarrow> memoryState \<Rightarrow> WorkingMemoryFact \<Rightarrow> int \<Rightarrow> memoryState \<times> WorkingMemoryFact result" where
  "upsertWorkingMemoryFact ctx s v expected =
     (case first_err [cx_Err ctx, validateWorkingMemoryFact ctx v] of Some e \<Rightarrow> (s, Inl e)
      | None \<Rightarrow> let k = workingMemoryMapKey (wm_Namespace v) (wm_OwnerID v) (wm_Key v);
            store = (\<lambda>w. (s\<lparr>workingMemory := mset_at k (w\<lparr>wm_Value := cloneJSON (wm_Value w)\<rparr>) (workingMemory s)\<rparr>,
                          Inr (cloneWorkingMemoryFact w))) in
          (case mget (workingMemory s) k of
             Some old \<Rightarrow> if expected = 0 \<or> wm_Version old \<noteq> expected then (s, Inl ErrConflict)
               else store (v\<lparr>wm_Version := wrap64 (wm_Version old + 1), wm_CreatedAt := wm_CreatedAt old\<rparr>)
           | None \<Rightarrow> if expected \<noteq> 0 then (s, Inl ErrConflict) else store (v\<lparr>wm_Version := 1\<rparr>)))"

definition getWorkingMemoryFact :: "Context \<Rightarrow> memoryState \<Rightarrow> string \<Rightarrow> string \<Rightarrow> string \<Rightarrow> WorkingMemoryFact result" where
  "getWorkingMemoryFact ctx s namespace owner key =
     (case first_err [cx_Err ctx, validateWorkingMemoryScope ctx namespace owner] of Some e \<Rightarrow> Inl e
      | None \<Rightarrow> (case mget (workingMemory s) (workingMemoryMapKey namespace owner key) of
          None \<Rightarrow> Inl ErrNotFound | Some v \<Rightarrow> Inr (cloneWorkingMemoryFact v)))"

definition scopeFacts :: "memoryState \<Rightarrow> string \<Rightarrow> string \<Rightarrow> WorkingMemoryFact list" where
  "scopeFacts s namespace owner = sort_key wm_Key
     (filter (\<lambda>v. wm_Namespace v = namespace \<and> wm_OwnerID v = owner) (mvals (workingMemory s)))"

definition listWorkingMemoryFacts ::
  "Context \<Rightarrow> memoryState \<Rightarrow> string \<Rightarrow> string \<Rightarrow> PageRequest \<Rightarrow> WorkingMemoryFact Page result" where
  "listWorkingMemoryFacts ctx s namespace owner p =
     (case first_err [cx_Err ctx, validateWorkingMemoryScope ctx namespace owner] of Some e \<Rightarrow> Inl e
      | None \<Rightarrow> paginate (scopeFacts s namespace owner) p cloneWorkingMemoryFact)"

definition deleteWorkingMemoryFact :: "Context \<Rightarrow> memoryState \<Rightarrow> string \<Rightarrow> string \<Rightarrow> string \<Rightarrow> int \<Rightarrow> outcome" where
  "deleteWorkingMemoryFact ctx s namespace owner key expected =
     (case getWorkingMemoryFact ctx s namespace owner key of Inl e \<Rightarrow> (s, Some e)
      | Inr v \<Rightarrow> if expected = 0 \<or> wm_Version v \<noteq> expected then (s, Some ErrConflict)
          else (s\<lparr>workingMemory := mdel (workingMemoryMapKey namespace owner key) (workingMemory s)\<rparr>, None))"

definition clearWorkingMemory :: "Context \<Rightarrow> memoryState \<Rightarrow> string \<Rightarrow> string \<Rightarrow> outcome" where
  "clearWorkingMemory ctx s namespace owner = commit_if (validateWorkingMemoryScope ctx namespace owner)
     s (s\<lparr>workingMemory := filter (\<lambda>(k, v). \<not> (wm_Namespace v = namespace \<and> wm_OwnerID v = owner)) (workingMemory s)\<rparr>)"

section \<open>The map key\<close>

definition nul_free :: "string \<Rightarrow> bool" where
  "nul_free s \<longleftrightarrow> CHR 0x00 \<notin> set s"

lemma workingMemoryMapKey_inj:
  assumes "nul_free n" "nul_free o1" "nul_free n'" "nul_free o'"
    "workingMemoryMapKey n o1 k = workingMemoryMapKey n' o' k'"
  shows "n = n' \<and> o1 = o' \<and> k = k'"
proof -
  have eq: "n @ CHR 0x00 # (o1 @ CHR 0x00 # k) = n' @ CHR 0x00 # (o' @ CHR 0x00 # k')"
    using assms(5) by (simp add: workingMemoryMapKey_def)
  have free: "CHR 0x00 \<notin> set n" "CHR 0x00 \<notin> set o1" "CHR 0x00 \<notin> set n'" "CHR 0x00 \<notin> set o'"
    using assms(1-4) by (simp_all add: nul_free_def)
  have "n = n' \<and> o1 @ CHR 0x00 # k = o' @ CHR 0x00 # k'" by (rule cut_at_inj [OF free(1,3) eq])
  with cut_at_inj [OF free(2,4)] show ?thesis by blast
qed

section \<open>Invariant\<close>

lemma facts_ok_set:
  assumes "facts_ok wm" "wm_Namespace w \<noteq> []" "wm_OwnerID w \<noteq> []" "wm_Key w \<noteq> []" "wm_ID w \<noteq> []"
  shows "facts_ok (mset_at (workingMemoryMapKey (wm_Namespace w) (wm_OwnerID w) (wm_Key w)) w wm)"
  using assms by (auto simp: facts_ok_def)

lemma validateFact_None:
  "validateWorkingMemoryFact ctx v = None \<Longrightarrow> wm_ID v \<noteq> [] \<and> wm_Key v \<noteq> [] \<and> wm_Namespace v \<noteq> [] \<and> wm_OwnerID v \<noteq> []"
  by (simp add: validateWorkingMemoryFact_def validateWorkingMemoryScope_def)

lemma upsertWorkingMemoryFact_ok: "store_ok s \<Longrightarrow> store_ok (fst (upsertWorkingMemoryFact ctx s v expected))"
  using validateFact_None [of ctx v] facts_ok_set [of "workingMemory s" "v\<lparr>wm_Version := _, wm_CreatedAt := _, wm_Value := _\<rparr>"]
    facts_ok_set [of "workingMemory s" "v\<lparr>wm_Version := _, wm_Value := _\<rparr>"]
  by (auto simp: upsertWorkingMemoryFact_def store_ok_def Let_def split: option.splits)

lemma deleteWorkingMemoryFact_ok: "store_ok s \<Longrightarrow> store_ok (fst (deleteWorkingMemoryFact ctx s n o1 k e))"
  by (auto simp: deleteWorkingMemoryFact_def store_ok_def facts_ok_def split: sum.splits)

lemma mget_filter_values:
  "gm_ok m \<Longrightarrow> mget (filter (\<lambda>(k, v). P v) m) k = (case mget m k of None \<Rightarrow> None | Some v \<Rightarrow> if P v then Some v else None)"
  by (induction m) (auto simp: mget_def gm_ok_def map_of_eq_None_iff split: option.splits)

lemma gm_ok_filter [simp]: "gm_ok m \<Longrightarrow> gm_ok (filter P m)"
  by (simp add: gm_ok_def distinct_map_filter)

lemma clearWorkingMemory_ok: "store_ok s \<Longrightarrow> store_ok (fst (clearWorkingMemory ctx s n o1))"
  by (auto simp: clearWorkingMemory_def store_ok_def facts_ok_def mget_filter_values split: option.splits if_splits)

lemmas memory_ops_ok = upsertWorkingMemoryFact_ok deleteWorkingMemoryFact_ok clearWorkingMemory_ok


section \<open>Versioned writes\<close>

lemma upsert_Inr:
  assumes "upsertWorkingMemoryFact ctx s v expected = (s', Inr w)"
  defines "k \<equiv> workingMemoryMapKey (wm_Namespace v) (wm_OwnerID v) (wm_Key v)"
  shows "s' = s\<lparr>workingMemory := mset_at k w (workingMemory s)\<rparr>"
    and "case mget (workingMemory s) k of
       None \<Rightarrow> expected = 0 \<and> w = cloneWorkingMemoryFact (v\<lparr>wm_Version := 1\<rparr>)
     | Some old \<Rightarrow> expected \<noteq> 0 \<and> wm_Version old = expected
         \<and> w = cloneWorkingMemoryFact (v\<lparr>wm_Version := wrap64 (expected + 1), wm_CreatedAt := wm_CreatedAt old\<rparr>)"
    and "cx_Err ctx = None" "validateWorkingMemoryFact ctx v = None"
  using assms(1) unfolding k_def
  by (auto simp: upsertWorkingMemoryFact_def Let_def cloneWorkingMemoryFact_def split: option.splits if_splits)

lemma wrap64_succ: "in_int64 e \<Longrightarrow> wrap64 (e + 1) \<noteq> e"
proof (cases "e = max_int64")
  case False
  moreover assume "in_int64 e"
  ultimately have "in_int64 (e + 1)" by (simp add: in_int64_def)
  then show ?thesis by (simp add: wrap64_id)
qed (simp add: wrap64_def max_int64_def)

definition sample_fact :: "string \<Rightarrow> WorkingMemoryFact" where
  "sample_fact ns = \<lparr>wm_ID = ''f'', wm_Namespace = ns, wm_OwnerID = ''ada'', wm_Key = ''color'', wm_Value = Some ''1'',
     wm_Version = 0, wm_CreatedAt = 3, wm_UpdatedAt = 4\<rparr>"


text \<open>C29 upsert_no_lost_update: two writers that read the same version cannot both win. After a successful write
  with an expected version, a second write to the same fact with that version is refused with
  \<^verbatim>\<open>ErrConflict\<close> and changes nothing.\<close>

theorem upsert_no_lost_update:
  assumes "upsertWorkingMemoryFact ctx s v expected = (s1, Inr w)" "in_int64 expected"
    "wm_Namespace v' = wm_Namespace v" "wm_OwnerID v' = wm_OwnerID v" "wm_Key v' = wm_Key v"
    "cx_Err ctx' = None" "validateWorkingMemoryFact ctx' v' = None"
  shows "upsertWorkingMemoryFact ctx' s1 v' expected = (s1, Inl ErrConflict)"
proof -
  note u = upsert_Inr [OF assms(1)]
  have "expected = 0 \<or> wm_Version w \<noteq> expected"
    using u(2) wrap64_succ [OF assms(2)] by (auto split: option.splits)
  then show ?thesis
    using u(1) assms(3-7) by (auto simp: upsertWorkingMemoryFact_def Let_def)
qed

theorem upsert_no_lost_update_witness:
  "upsertWorkingMemoryFact background (fst (upsertWorkingMemoryFact background newMemoryState (sample_fact ''acme'') 0))
     (sample_fact ''acme'') 0
   = (fst (upsertWorkingMemoryFact background newMemoryState (sample_fact ''acme'') 0), Inl ErrConflict)"
proof -
  have "\<not> isl (snd (upsertWorkingMemoryFact background newMemoryState (sample_fact ''acme'') 0))" by code_simp
  then obtain w where "upsertWorkingMemoryFact background newMemoryState (sample_fact ''acme'') 0
      = (fst (upsertWorkingMemoryFact background newMemoryState (sample_fact ''acme'') 0), Inr w)"
    by (metis prod.collapse sum.collapse(2))
  moreover have "in_int64 0" "cx_Err background = None" "validateWorkingMemoryFact background (sample_fact ''acme'') = None"
    by code_simp+
  ultimately show ?thesis
    using upsert_no_lost_update by blast
qed



end
