(* ===== verification/Memory_Store.thy ===== *)
theory Memory_Store
  imports Store_Transcript Store_Workflow Store_Schedules Store_Logs Working_Memory "HOL-Library.Word"
begin

text \<open>
  \<^verbatim>\<open>MemoryStore\<close> and its transactions (\<^verbatim>\<open>memory_storage.go\<close>). Each writing method runs one
  operation on the state under the lock and increments \<^verbatim>\<open>version\<close> when it succeeds; a
  transaction works on a copy and commits it only when no version was passed meanwhile.

  The writing methods are the constructors of \<open>repo_op\<close> (the repositories a policy can guard) and
  \<open>obs_op\<close> (observability). A transaction callback is application code that acts on the store only
  through these methods; \<open>tx_prog\<close> is such a callback as a tree of its calls and reads. The version is
  an unsigned 64-bit word.
\<close>

section \<open>Writing methods\<close>

datatype repo_op =
    CreateThread ThreadRecord
  | UpdateThread ThreadRecord
  | AppendMessages "MessageRecord list"
  | UpdateMessages "MessageRecord list"
  | DeleteMessages string "string list"
  | SaveWorkflowRun WorkflowRunRecord
  | SaveWorkflowSnapshot WorkflowSnapshotRecord
  | SaveSchedule ScheduleRecord
  | DeleteSchedule string
  | SaveScheduleExecution ScheduleExecutionRecord
  | UpsertWorkingMemoryFact WorkingMemoryFact int
  | DeleteWorkingMemoryFact string string string int
  | ClearWorkingMemory string string

datatype obs_op =
    AppendRunEvents "RunEventRecord list"
  | SaveModelAttempts "ModelAttemptRecord list"
  | SaveToolExecutions "ToolExecutionRecord list"

datatype store_op = Repo repo_op | Obs obs_op

definition result_err :: "memoryState \<times> 'a result \<Rightarrow> outcome" where
  "result_err r = (fst r, case snd r of Inl e \<Rightarrow> Some e | Inr _ \<Rightarrow> None)"

fun repo_exec :: "Context \<Rightarrow> repo_op \<Rightarrow> memoryState \<Rightarrow> outcome" where
  "repo_exec ctx (CreateThread v) s = createThread ctx s v"
| "repo_exec ctx (UpdateThread v) s = updateThread ctx s v"
| "repo_exec ctx (AppendMessages vs) s = appendMessages ctx s vs"
| "repo_exec ctx (UpdateMessages vs) s = updateMessages ctx s vs"
| "repo_exec ctx (DeleteMessages ident ids) s = deleteMessages ctx s ident ids"
| "repo_exec ctx (SaveWorkflowRun v) s = saveWorkflowRun ctx s v"
| "repo_exec ctx (SaveWorkflowSnapshot v) s = saveWorkflowSnapshot ctx s v"
| "repo_exec ctx (SaveSchedule v) s = saveSchedule ctx s v"
| "repo_exec ctx (DeleteSchedule ident) s = deleteSchedule ctx s ident"
| "repo_exec ctx (SaveScheduleExecution v) s = saveScheduleExecution ctx s v"
| "repo_exec ctx (UpsertWorkingMemoryFact v e) s = result_err (upsertWorkingMemoryFact ctx s v e)"
| "repo_exec ctx (DeleteWorkingMemoryFact ns ow k e) s = deleteWorkingMemoryFact ctx s ns ow k e"
| "repo_exec ctx (ClearWorkingMemory ns ow) s = clearWorkingMemory ctx s ns ow"

fun obs_exec :: "Context \<Rightarrow> obs_op \<Rightarrow> memoryState \<Rightarrow> outcome" where
  "obs_exec ctx (AppendRunEvents vs) s = appendRunEvents ctx s vs"
| "obs_exec ctx (SaveModelAttempts vs) s = saveModelAttempts ctx s vs"
| "obs_exec ctx (SaveToolExecutions vs) s = saveToolExecutions ctx s vs"

fun exec_op :: "Context \<Rightarrow> store_op \<Rightarrow> memoryState \<Rightarrow> outcome" where
  "exec_op ctx (Repo rop) s = repo_exec ctx rop s"
| "exec_op ctx (Obs oop) s = obs_exec ctx oop s"

text \<open>Whether a successful call counts as a write: for \<^verbatim>\<open>version++\<close> of the store, and for
  \<^verbatim>\<open>dirty\<close> of a transaction. The two differ on an empty \<^verbatim>\<open>AppendMessages\<close>.\<close>

fun bumps_version :: "store_op \<Rightarrow> bool" where
  "bumps_version (Repo (UpdateMessages vs)) = (0 < length vs)"
| "bumps_version (Repo (DeleteMessages ident ids)) = (0 < length ids)"
| "bumps_version (Repo rop) = True"
| "bumps_version (Obs (AppendRunEvents vs)) = (0 < length vs)"
| "bumps_version (Obs (SaveModelAttempts vs)) = (0 < length vs)"
| "bumps_version (Obs (SaveToolExecutions vs)) = (0 < length vs)"

fun sets_dirty :: "store_op \<Rightarrow> bool" where
  "sets_dirty (Repo (AppendMessages vs)) = (0 < length vs)"
| "sets_dirty (Repo (UpdateMessages vs)) = (0 < length vs)"
| "sets_dirty (Repo (DeleteMessages ident ids)) = (0 < length ids)"
| "sets_dirty (Repo rop) = True"
| "sets_dirty (Obs (AppendRunEvents vs)) = (0 < length vs)"
| "sets_dirty (Obs (SaveModelAttempts vs)) = (0 < length vs)"
| "sets_dirty (Obs (SaveToolExecutions vs)) = (0 < length vs)"

record MemoryStore =
  mediaJobs :: "(string, string) gomap"
  state :: memoryState
  version :: "64 word"

definition NewMemoryStore :: MemoryStore where
  "NewMemoryStore = \<lparr>mediaJobs = [], state = newMemoryState, version = 0\<rparr>"

definition MemoryStore_exec :: "Context \<Rightarrow> store_op \<Rightarrow> MemoryStore \<Rightarrow> MemoryStore \<times> go_error option" where
  "MemoryStore_exec ctx oper st = (case exec_op ctx oper (state st) of
     (s', None) \<Rightarrow> (st\<lparr>state := s', version := (if bumps_version oper then version st + 1 else version st)\<rparr>, None)
   | (s', Some e) \<Rightarrow> (st\<lparr>state := s'\<rparr>, Some e))"

section \<open>Reading methods\<close>

datatype read_op =
    GetThread string
  | ListMessages string PageRequest
  | GetWorkflowRun string
  | ListWorkflowRuns WorkflowRunFilter PageRequest
  | ListWorkflowSnapshots string PageRequest
  | GetSchedule string
  | ListSchedules ScheduleFilter PageRequest
  | ListScheduleExecutions string PageRequest
  | GetWorkingMemoryFact string string string
  | ListWorkingMemoryFacts string string PageRequest

datatype read_value =
    ThreadValue ThreadRecord
  | MessagePage "MessageRecord Page"
  | RunValue WorkflowRunRecord
  | RunPage "WorkflowRunRecord Page"
  | SnapshotPage "WorkflowSnapshotRecord Page"
  | ScheduleValue ScheduleRecord
  | SchedulePage "ScheduleRecord Page"
  | ExecutionPage "ScheduleExecutionRecord Page"
  | FactValue WorkingMemoryFact
  | FactPage "WorkingMemoryFact Page"

fun repo_read :: "Context \<Rightarrow> memoryState \<Rightarrow> read_op \<Rightarrow> read_value result" where
  "repo_read ctx s (GetThread ident) = map_sum id ThreadValue (getThread ctx s ident)"
| "repo_read ctx s (ListMessages ident p) = map_sum id MessagePage (listMessages ctx s ident p)"
| "repo_read ctx s (GetWorkflowRun ident) = map_sum id RunValue (getWorkflowRun ctx s ident)"
| "repo_read ctx s (ListWorkflowRuns flt p) = map_sum id RunPage (listWorkflowRuns ctx s flt p)"
| "repo_read ctx s (ListWorkflowSnapshots ident p) = map_sum id SnapshotPage (listWorkflowSnapshots ctx s ident p)"
| "repo_read ctx s (GetSchedule ident) = map_sum id ScheduleValue (getSchedule ctx s ident)"
| "repo_read ctx s (ListSchedules flt p) = map_sum id SchedulePage (listSchedules ctx s flt p)"
| "repo_read ctx s (ListScheduleExecutions ident p) = map_sum id ExecutionPage (listScheduleExecutions ctx s ident p)"
| "repo_read ctx s (GetWorkingMemoryFact ns ow k) = map_sum id FactValue (getWorkingMemoryFact ctx s ns ow k)"
| "repo_read ctx s (ListWorkingMemoryFacts ns ow p) = map_sum id FactPage (listWorkingMemoryFacts ctx s ns ow p)"

definition MemoryStore_read :: "Context \<Rightarrow> MemoryStore \<Rightarrow> read_op \<Rightarrow> read_value result" where
  "MemoryStore_read ctx st rd = repo_read ctx (state st) rd"

section \<open>Transactions\<close>

record memoryRepositories =
  tx_state :: memoryState
  dirty :: bool

definition repositories_exec :: "Context \<Rightarrow> store_op \<Rightarrow> memoryRepositories \<Rightarrow> memoryRepositories \<times> go_error option" where
  "repositories_exec ctx oper tx = (case exec_op ctx oper (tx_state tx) of
     (s', None) \<Rightarrow> (tx\<lparr>tx_state := s', dirty := dirty tx \<or> sets_dirty oper\<rparr>, None)
   | (s', Some e) \<Rightarrow> (tx\<lparr>tx_state := s'\<rparr>, Some e))"

datatype tx_prog =
    Return "go_error option"
  | Call store_op "go_error option \<Rightarrow> tx_prog"
  | Inspect "memoryState \<Rightarrow> tx_prog"

primrec run_tx :: "tx_prog \<Rightarrow> Context \<Rightarrow> memoryRepositories \<Rightarrow> memoryRepositories \<times> go_error option" where
  "run_tx (Return r) ctx tx = (tx, r)"
| "run_tx (Call oper k) ctx tx = (case repositories_exec ctx oper tx of (tx', r) \<Rightarrow> run_tx (k r) ctx tx')"
| "run_tx (Inspect k) ctx tx = run_tx (k (tx_state tx)) ctx tx"

text \<open>
  The outer store can change while the callback runs: \<open>st\<close> is the store when the copy is taken and
  \<open>st'\<close> the store when the lock is taken to commit. The context is read again before the commit;
  \<open>ctx'\<close> is it then.
\<close>

definition tx_begin :: "MemoryStore \<Rightarrow> memoryRepositories" where
  "tx_begin st = \<lparr>tx_state = cloneMemoryState (state st), dirty = False\<rparr>"

definition tx_commit :: "64 word \<Rightarrow> memoryRepositories \<Rightarrow> MemoryStore \<Rightarrow> MemoryStore \<times> go_error option" where
  "tx_commit version0 tx st = (if \<not> dirty tx then (st, None)
     else if version st \<noteq> version0 then (st, Some ErrConflict)
     else (st\<lparr>state := tx_state tx, version := version st + 1\<rparr>, None))"

definition Transaction :: "Context \<Rightarrow> Context \<Rightarrow> tx_prog \<Rightarrow> MemoryStore \<Rightarrow> MemoryStore
    \<Rightarrow> MemoryStore \<times> go_error option" where
  "Transaction ctx ctx' fn st st' = (case cx_Err ctx of Some e \<Rightarrow> (st', Some e)
     | None \<Rightarrow> (case run_tx fn ctx (tx_begin st) of
         (tx, Some e) \<Rightarrow> (st', Some e)
       | (tx, None) \<Rightarrow> (case cx_Err ctx' of Some e \<Rightarrow> (st', Some e)
           | None \<Rightarrow> tx_commit (version st) tx st')))"

section \<open>Interleaving\<close>

text \<open>
  Goroutines as a step relation on the store and the open transactions. Every step is one critical
  section of the store or one step of a callback on its own copy; contexts may be canceled at any time. \<open>ot_Base\<close> and \<open>ot_Writes\<close> are
  auxiliary: the state the transaction was copied from, and the number of version increments since.
\<close>

record open_tx =
  ot_Version :: "64 word"
  ot_Repos :: memoryRepositories
  ot_Prog :: tx_prog
  ot_Base :: memoryState
  ot_Writes :: nat

record store_config =
  cf_Store :: MemoryStore
  cf_Open :: "nat \<Rightarrow> open_tx option"

definition note_write :: "(nat \<Rightarrow> open_tx option) \<Rightarrow> nat \<Rightarrow> open_tx option" where
  "note_write txs i = map_option (\<lambda>t. t\<lparr>ot_Writes := Suc (ot_Writes t)\<rparr>) (txs i)"

definition open_at :: "tx_prog \<Rightarrow> MemoryStore \<Rightarrow> open_tx" where
  "open_at fn st = \<lparr>ot_Version = version st, ot_Repos = tx_begin st, ot_Prog = fn,
     ot_Base = state st, ot_Writes = 0\<rparr>"

inductive store_step :: "store_config \<Rightarrow> store_config \<Rightarrow> bool" where
  method_ok: "MemoryStore_exec ctx oper (cf_Store c) = (st, None) \<Longrightarrow> bumps_version oper
    \<Longrightarrow> store_step c \<lparr>cf_Store = st, cf_Open = note_write (cf_Open c)\<rparr>"
| method_noop: "MemoryStore_exec ctx oper (cf_Store c) = (st, None) \<Longrightarrow> \<not> bumps_version oper
    \<Longrightarrow> store_step c (c\<lparr>cf_Store := st\<rparr>)"
| method_err: "MemoryStore_exec ctx oper (cf_Store c) = (st, Some e) \<Longrightarrow> store_step c (c\<lparr>cf_Store := st\<rparr>)"
| begin_tx: "cx_Err (ctx :: Context) = None \<Longrightarrow> cf_Open c i = None
    \<Longrightarrow> store_step c (c\<lparr>cf_Open := (cf_Open c)(i \<mapsto> open_at fn (cf_Store c))\<rparr>)"
| call: "cf_Open c i = Some t \<Longrightarrow> ot_Prog t = Call oper k
    \<Longrightarrow> repositories_exec ctx oper (ot_Repos t) = (tx, r)
    \<Longrightarrow> store_step c (c\<lparr>cf_Open := (cf_Open c)(i \<mapsto> t\<lparr>ot_Repos := tx, ot_Prog := k r\<rparr>)\<rparr>)"
| inspect: "cf_Open c i = Some t \<Longrightarrow> ot_Prog t = Inspect k
    \<Longrightarrow> store_step c (c\<lparr>cf_Open := (cf_Open c)(i \<mapsto> t\<lparr>ot_Prog := k (tx_state (ot_Repos t))\<rparr>)\<rparr>)"
| abort: "cf_Open c i = Some t \<Longrightarrow> ot_Prog t = Return (Some e)
    \<Longrightarrow> store_step c (c\<lparr>cf_Open := (cf_Open c)(i := None)\<rparr>)"
| canceled: "cf_Open c i = Some t \<Longrightarrow> ot_Prog t = Return None
    \<Longrightarrow> store_step c (c\<lparr>cf_Open := (cf_Open c)(i := None)\<rparr>)"
| commit_none: "cf_Open c i = Some t \<Longrightarrow> ot_Prog t = Return None
    \<Longrightarrow> tx_commit (ot_Version t) (ot_Repos t) (cf_Store c) = (cf_Store c, r)
    \<Longrightarrow> store_step c (c\<lparr>cf_Open := (cf_Open c)(i := None)\<rparr>)"
| commit: "cf_Open c i = Some t \<Longrightarrow> ot_Prog t = Return None \<Longrightarrow> dirty (ot_Repos t)
    \<Longrightarrow> tx_commit (ot_Version t) (ot_Repos t) (cf_Store c) = (st, None)
    \<Longrightarrow> store_step c \<lparr>cf_Store = st, cf_Open = (note_write (cf_Open c))(i := None)\<rparr>"

inductive store_reachable :: "store_config \<Rightarrow> bool" where
  initial: "store_reachable \<lparr>cf_Store = NewMemoryStore, cf_Open = (\<lambda>_. None)\<rparr>"
| reach: "store_reachable c \<Longrightarrow> store_step c c' \<Longrightarrow> store_reachable c'"

section \<open>The invariant of the store\<close>

lemma repo_exec_ok: "store_ok s \<Longrightarrow> store_ok (fst (repo_exec ctx rop s))"
  by (cases rop) (simp_all add: transcript_ops_ok workflow_ops_ok schedule_ops_ok memory_ops_ok result_err_def)

lemma obs_exec_ok: "store_ok s \<Longrightarrow> store_ok (fst (obs_exec ctx oop s))"
  by (cases oop) (simp_all add: log_ops_ok)

lemma exec_op_ok: "store_ok s \<Longrightarrow> store_ok (fst (exec_op ctx oper s))"
  by (cases oper) (simp_all add: repo_exec_ok obs_exec_ok)

lemma MemoryStore_exec_state [simp]: "state (fst (MemoryStore_exec ctx oper st)) = fst (exec_op ctx oper (state st))"
  by (simp add: MemoryStore_exec_def split: prod.split option.split)

lemma repositories_exec_state [simp]: "tx_state (fst (repositories_exec ctx oper tx)) = fst (exec_op ctx oper (tx_state tx))"
  by (simp add: repositories_exec_def split: prod.split option.split)

lemma run_tx_ok: "store_ok (tx_state tx) \<Longrightarrow> store_ok (tx_state (fst (run_tx fn ctx tx)))"
proof (induction fn arbitrary: tx)
  case (Call oper k)
  obtain tx' r where e: "repositories_exec ctx oper tx = (tx', r)" by fastforce
  then have "store_ok (tx_state tx')"
    using exec_op_ok [OF Call.prems] repositories_exec_state [of ctx oper tx] by simp
  then show ?case using Call.IH e by (simp add: range_eqI)
next
  case (Inspect k)
  then show ?case by (simp add: range_eqI)
qed simp

text \<open>What callers can see: everything but the empty ID indexes that a refused save leaves behind.\<close>

definition visible :: "memoryState \<Rightarrow> memoryState" where
  "visible s = s\<lparr>snapshotIDs := [], executionIDs := []\<rparr>"

lemma save_snapshot_err: "saveWorkflowSnapshot ctx s v = (s', Some e) \<Longrightarrow> visible s' = visible s"
  by (auto simp: saveWorkflowSnapshot_def insert_snapshot_def visible_def Let_def split: option.splits if_splits)

lemma save_execution_err: "saveScheduleExecution ctx s v = (s', Some e) \<Longrightarrow> visible s' = visible s"
  by (auto simp: saveScheduleExecution_def insert_execution_def visible_def Let_def split: option.splits if_splits)

lemma update_no_messages: "updateMessages ctx s [] = (s', None) \<Longrightarrow> s' = s"
  by (auto simp: updateMessages_def commit_if_None)

lemma delete_no_messages: "deleteMessages ctx s ident [] = (s', None) \<Longrightarrow> s' = s"
  by (auto simp: deleteMessages_def split: option.splits)

lemma log_no_records:
  "appendRunEvents ctx s [] = (s', None) \<Longrightarrow> s' = s"
  "saveModelAttempts ctx s [] = (s', None) \<Longrightarrow> s' = s"
  "saveToolExecutions ctx s [] = (s', None) \<Longrightarrow> s' = s"
  by (auto simp: appendRunEvents_def saveModelAttempts_def saveToolExecutions_def log_append_def commit_if_None)

lemma commit_if_Some: "commit_if c s s' = (t, Some e) \<longleftrightarrow> c = Some e \<and> t = s"
  by (auto simp: commit_if_def split: option.splits)

lemma upsert_err: "upsertWorkingMemoryFact ctx s v e = (s', Inl x) \<Longrightarrow> s' = s"
  by (auto simp: upsertWorkingMemoryFact_def Let_def split: option.splits if_splits)

lemma delete_messages_err: "deleteMessages ctx s ident ids = (s', Some e) \<Longrightarrow> s' = s"
  by (auto simp: deleteMessages_def commit_if_Some split: option.splits if_splits)

lemma result_err_Some: "result_err r = (s', Some e) \<longleftrightarrow> r = (s', Inl e)"
  by (cases r) (auto simp: result_err_def split: sum.splits)

text \<open>A call that fails, or succeeds without counting as a write, changes nothing a caller can see.\<close>

lemma repo_exec_err: "repo_exec ctx rop s = (s', Some e) \<Longrightarrow> visible s' = visible s"
  by (cases rop)
     (auto simp: createThread_def updateThread_def appendMessages_def updateMessages_def saveWorkflowRun_def
        saveSchedule_def deleteSchedule_def deleteWorkingMemoryFact_def clearWorkingMemory_def
        commit_if_Some result_err_Some split: sum.splits if_splits
        dest: save_snapshot_err save_execution_err upsert_err delete_messages_err)

lemma obs_exec_err: "obs_exec ctx oop s = (s', Some e) \<Longrightarrow> s' = s"
  by (cases oop) (auto simp: appendRunEvents_def saveModelAttempts_def saveToolExecutions_def commit_if_Some)

lemma exec_op_err: "exec_op ctx oper s = (s', Some e) \<Longrightarrow> visible s' = visible s"
  by (cases oper) (auto dest: repo_exec_err obs_exec_err)

lemma exec_op_noop: "exec_op ctx oper s = (s', None) \<Longrightarrow> \<not> bumps_version oper \<Longrightarrow> s' = s"
  by (cases oper rule: bumps_version.cases)
     (auto dest: update_no_messages delete_no_messages log_no_records)

section \<open>Invariants of the interleaving\<close>

text \<open>The copy of every open transaction is well formed, and its base and write count tell how the store moved on.\<close>

definition open_ok :: "MemoryStore \<Rightarrow> open_tx \<Rightarrow> bool" where
  "open_ok st t \<longleftrightarrow> store_ok (tx_state (ot_Repos t)) \<and> version st = ot_Version t + of_nat (ot_Writes t)
     \<and> (ot_Writes t = 0 \<longrightarrow> visible (state st) = visible (ot_Base t))"

definition config_ok :: "store_config \<Rightarrow> bool" where
  "config_ok c \<longleftrightarrow> store_ok (state (cf_Store c)) \<and> (\<forall>i t. cf_Open c i = Some t \<longrightarrow> open_ok (cf_Store c) t)"

lemma config_okD:
  "config_ok c \<Longrightarrow> store_ok (state (cf_Store c))"
  "config_ok c \<Longrightarrow> cf_Open c i = Some t \<Longrightarrow> open_ok (cf_Store c) t"
  by (auto simp: config_ok_def)

lemma open_ok_after_write:
  "open_ok st t \<Longrightarrow> version st' = version st + 1 \<Longrightarrow> open_ok st' (t\<lparr>ot_Writes := Suc (ot_Writes t)\<rparr>)"
  by (simp add: open_ok_def)

lemma open_at_ok: "store_ok (state st) \<Longrightarrow> open_ok st (open_at fn st)"
  by (simp add: open_ok_def open_at_def tx_begin_def store_ok_clone)

lemma config_ok_write:
  assumes "config_ok c" "store_ok (state st)" "version st = version (cf_Store c) + 1"
  shows "config_ok \<lparr>cf_Store = st, cf_Open = note_write (cf_Open c)\<rparr>"
  using assms by (auto simp: config_ok_def note_write_def intro!: open_ok_after_write [where st = "cf_Store c"])

lemma config_ok_method:
  assumes "config_ok c" "MemoryStore_exec ctx oper (cf_Store c) = (st, r)"
  shows "store_ok (state st)"
  using assms exec_op_ok MemoryStore_exec_state [of ctx oper "cf_Store c"] by (simp add: config_ok_def)

lemma config_ok_unseen:
  assumes "config_ok c" "store_ok (state st)" "version st = version (cf_Store c)"
    "visible (state st) = visible (state (cf_Store c))"
  shows "config_ok (c\<lparr>cf_Store := st\<rparr>)"
  using assms by (simp add: config_ok_def open_ok_def)

lemma config_ok_open:
  "config_ok c \<Longrightarrow> open_ok (cf_Store c) t \<Longrightarrow> config_ok (c\<lparr>cf_Open := (cf_Open c)(i \<mapsto> t)\<rparr>)"
  by (simp add: config_ok_def)

lemma config_ok_close: "config_ok c \<Longrightarrow> config_ok (c\<lparr>cf_Open := (cf_Open c)(i := None)\<rparr>)"
  by (simp add: config_ok_def)

lemma MemoryStore_exec_None:
  "MemoryStore_exec ctx oper st = (st', None) \<Longrightarrow> exec_op ctx oper (state st) = (state st', None)
     \<and> version st' = (if bumps_version oper then version st + 1 else version st)"
  by (auto simp: MemoryStore_exec_def split: prod.splits option.splits)

lemma MemoryStore_exec_Some:
  "MemoryStore_exec ctx oper st = (st', Some e) \<Longrightarrow> exec_op ctx oper (state st) = (state st', Some e) \<and> version st' = version st"
  by (auto simp: MemoryStore_exec_def split: prod.splits option.splits)

lemma tx_commit_dirty:
  "dirty tx \<Longrightarrow> tx_commit v tx st = (st', None) \<Longrightarrow> version st = v \<and> st' = st\<lparr>state := tx_state tx, version := version st + 1\<rparr>"
  by (auto simp: tx_commit_def split: if_splits)

lemma store_step_ok: "store_step c c' \<Longrightarrow> config_ok c \<Longrightarrow> config_ok c'"
proof (induction rule: store_step.induct)
  case (method_ok ctx oper c st)
  then show ?case using MemoryStore_exec_None [OF method_ok(1)]
    by (intro config_ok_write config_ok_method [OF method_ok(3,1)]) simp_all
next
  case (method_noop ctx oper c st)
  then show ?case using MemoryStore_exec_None [OF method_noop(1)] exec_op_noop [of ctx oper "state (cf_Store c)"]
    by (intro config_ok_unseen config_ok_method [OF method_noop(3,1)]) simp_all
next
  case (method_err ctx oper c st e)
  then show ?case using MemoryStore_exec_Some [OF method_err(1)] exec_op_err [of ctx oper "state (cf_Store c)"]
    by (intro config_ok_unseen config_ok_method [OF method_err(2,1)]) simp_all
next
  case (begin_tx ctx c i fn)
  then show ?case by (intro config_ok_open open_at_ok) (simp_all add: config_ok_def)
next
  case (call c i t oper k ctx tx r)
  have "store_ok (tx_state (ot_Repos t))" using config_okD(2) [OF call(4,1)] by (simp add: open_ok_def)
  then have "store_ok (tx_state tx)"
    using exec_op_ok repositories_exec_state [of ctx oper "ot_Repos t"] call(3) by simp
  then show ?case using config_okD(2) [OF call(4,1)] call(4) by (intro config_ok_open) (simp_all add: open_ok_def)
next
  case (inspect c i t k)
  then show ?case using config_okD(2) [OF inspect(3,1)] by (intro config_ok_open) (simp_all add: open_ok_def)
next
  case (commit c i t st)
  have "config_ok \<lparr>cf_Store = st, cf_Open = note_write (cf_Open c)\<rparr>"
    using tx_commit_dirty [OF commit(3,4)] config_okD(2) [OF commit(5,1)] commit(5)
    by (intro config_ok_write) (simp_all add: open_ok_def)
  then show ?case using config_ok_close [of "\<lparr>cf_Store = st, cf_Open = note_write (cf_Open c)\<rparr>" i] by simp
qed (simp_all add: config_ok_close)

lemma reachable_ok: "store_reachable c \<Longrightarrow> config_ok c"
proof (induction rule: store_reachable.induct)
  case initial
  then show ?case by (simp add: config_ok_def NewMemoryStore_def store_ok_new)
qed (rule store_step_ok)

lemma of_nat_word64: "n < 2 ^ 64 \<Longrightarrow> v + of_nat n = (v :: 64 word) \<longleftrightarrow> n = 0"
  using of_nat_inverse [of n "of_nat n :: 64 word"] by (auto simp: word_of_nat_eq_0_iff)

section \<open>Properties\<close>

text \<open>C1 reachable_store_ok: in every reachable configuration of methods and interleaved transactions, the
  store and the private copy of every open transaction are well formed: records are stored under their
  own IDs, children belong to existing parents, IDs are unique and the ID indexes exact, snapshots are in
  strict sequence order.\<close>

theorem reachable_store_ok:
  assumes "store_reachable c"
  shows "store_ok (state (cf_Store c)) \<and> (\<forall>i. case cf_Open c i of None \<Rightarrow> True | Some t \<Rightarrow> store_ok (tx_state (ot_Repos t)))"
  using reachable_ok [OF assms] by (auto simp: config_ok_def open_ok_def split: option.split)


text \<open>C4 transaction_no_lost_update: when a transaction is about to commit writes in a reachable
  configuration, with fewer than 2^64 version increments since it began, the commit succeeds exactly when
  there was none, and then everything a caller can see is still the state the transaction was copied from.\<close>

theorem transaction_no_lost_update:
  assumes "store_reachable c" "cf_Open c i = Some t" "dirty (ot_Repos t)" "ot_Writes t < 2 ^ 64"
  shows "case tx_commit (ot_Version t) (ot_Repos t) (cf_Store c) of
      (st, None) \<Rightarrow> ot_Writes t = 0 \<and> visible (state (cf_Store c)) = visible (ot_Base t) \<and> state st = tx_state (ot_Repos t)
    | (st, Some e) \<Rightarrow> 0 < ot_Writes t \<and> e = ErrConflict \<and> st = cf_Store c"
  using config_okD(2) [OF reachable_ok [OF assms(1)] assms(2)] of_nat_word64 [OF assms(4), of "ot_Version t"] assms(3)
  by (simp add: tx_commit_def open_ok_def)

text \<open>A run in which a transaction creates a thread while a method creates another one.\<close>

definition sample_fn :: tx_prog where
  "sample_fn = Call (Repo (CreateThread (sample_thread\<lparr>th_ID := ''t2''\<rparr>))) (\<lambda>r. Return r)"

definition sample_open :: open_tx where
  "sample_open = (open_at sample_fn NewMemoryStore)
     \<lparr>ot_Repos := fst (repositories_exec background (Repo (CreateThread (sample_thread\<lparr>th_ID := ''t2''\<rparr>))) (tx_begin NewMemoryStore)),
      ot_Prog := Return None\<rparr>"

definition sample_config :: store_config where
  "sample_config = \<lparr>cf_Store = fst (MemoryStore_exec background (Repo (CreateThread sample_thread)) NewMemoryStore),
     cf_Open = note_write ((\<lambda>_. None)(0 \<mapsto> sample_open))\<rparr>"

lemma sample_open_reachable: "store_reachable \<lparr>cf_Store = NewMemoryStore, cf_Open = (\<lambda>_. None)(0 \<mapsto> sample_open)\<rparr>"
proof -
  let ?c0 = "\<lparr>cf_Store = NewMemoryStore, cf_Open = (\<lambda>_. None)\<rparr>"
  let ?c1 = "?c0\<lparr>cf_Open := (\<lambda>_. None)(0 \<mapsto> open_at sample_fn NewMemoryStore)\<rparr>"
  have "store_step ?c0 ?c1"
    using begin_tx [of background ?c0 0 sample_fn] by (simp add: background_def)
  then have "store_reachable ?c1" by (rule reach [OF initial])
  moreover have "store_step ?c1 \<lparr>cf_Store = NewMemoryStore, cf_Open = (\<lambda>_. None)(0 \<mapsto> sample_open)\<rparr>"
  proof -
    have ok: "snd (repositories_exec background (Repo (CreateThread (sample_thread\<lparr>th_ID := ''t2''\<rparr>))) (tx_begin NewMemoryStore)) = None"
      by code_simp
    show ?thesis
      using call [of ?c1 0 "open_at sample_fn NewMemoryStore" _ "\<lambda>r. Return r" background, OF _ _ surjective_pairing] ok
      by (simp add: sample_fn_def sample_open_def open_at_def)
  qed
  ultimately show ?thesis by (rule reach)
qed

lemma sample_config_reachable: "store_reachable sample_config"
proof (rule reach [OF sample_open_reachable])
  have "snd (MemoryStore_exec background (Repo (CreateThread sample_thread)) NewMemoryStore) = None" by code_simp
  then show "store_step \<lparr>cf_Store = NewMemoryStore, cf_Open = (\<lambda>_. None)(0 \<mapsto> sample_open)\<rparr> sample_config"
    using method_ok [of background "Repo (CreateThread sample_thread)" "\<lparr>cf_Store = NewMemoryStore, cf_Open = (\<lambda>_. None)(0 \<mapsto> sample_open)\<rparr>"]
    by (simp add: sample_config_def) (metis prod.collapse)
qed

theorem reachable_store_ok_witness: "store_ok (state (cf_Store sample_config))"
  using reachable_store_ok [OF sample_config_reachable] by simp

theorem transaction_no_lost_update_witness:
  "snd (tx_commit 0 (ot_Repos sample_open) (cf_Store sample_config)) = Some ErrConflict"
proof -
  let ?t = "sample_open\<lparr>ot_Writes := 1\<rparr>"
  have v: "ot_Version ?t = 0" "ot_Repos ?t = ot_Repos sample_open" "ot_Writes ?t < 2 ^ 64"
    by (simp_all add: sample_open_def open_at_def NewMemoryStore_def)
  have "cf_Open sample_config 0 = Some ?t"
    by (simp add: sample_config_def note_write_def sample_open_def open_at_def)
  moreover have "dirty (ot_Repos ?t)" by code_simp
  ultimately show ?thesis
    using transaction_no_lost_update [OF sample_config_reachable _ _ v(3), of 0] v
    by (auto split: prod.splits option.splits)
qed

end
