(* ===== verification/Dedup.thy ===== *)
theory Dedup
  imports Memory_Store
begin

text \<open>
  Message deduplication, \<^verbatim>\<open>channels/dedup.go\<close>: the bounded in-process deduplicator and the one that records each
  processed key as a marker thread of a store. The locale \<open>deduplicator\<close> is the contract of the interface; both
  implementations provide it. Concurrent deliveries to the store deduplicator are a step relation whose steps are the
  single store calls of \<^verbatim>\<open>Seen\<close>. \<^verbatim>\<open>sha256.Sum256\<close> is a parameter, and so is the clock.
\<close>

section \<open>The in-process deduplicator\<close>

record MemoryDeduplicator =
  md_capacity :: int
  md_order :: "string list"
  md_seen :: "(string, string) gomap"

definition NewMemoryDeduplicator :: "int \<Rightarrow> MemoryDeduplicator" where
  "NewMemoryDeduplicator capacity = \<lparr>md_capacity = (if capacity < 1 then 1 else capacity), md_order = [], md_seen = []\<rparr>"

text \<open>The eviction loop.\<close>

fun evict :: "int \<Rightarrow> string list \<Rightarrow> (string, string) gomap \<Rightarrow> string list \<times> (string, string) gomap" where
  "evict capacity [] seen = ([], seen)"
| "evict capacity (oldest # order) seen = (if capacity < int (length (oldest # order))
     then evict capacity order (mdel oldest seen) else (oldest # order, seen))"

definition Memory_Seen :: "string \<Rightarrow> MemoryDeduplicator \<Rightarrow> bool \<times> MemoryDeduplicator" where
  "Memory_Seen key d = (if mget (md_seen d) key \<noteq> None then (True, d)
     else case evict (md_capacity d) (md_order d @ [key]) (mset_at key key (md_seen d)) of
       (order, seen) \<Rightarrow> (False, d\<lparr>md_order := order, md_seen := seen\<rparr>))"

section \<open>Markers\<close>

definition lengthPrefixed :: "string list \<Rightarrow> string" where
  "lengthPrefixed fs = concat (map (\<lambda>field. itoa (int (length field)) @ '':'' @ field) fs)"

definition hex_digit :: "nat \<Rightarrow> char" where
  "hex_digit n = (if n < 10 then char_of (48 + n) else char_of (87 + n))"

definition hex_encode :: "string \<Rightarrow> string" where
  "hex_encode bytes = concat (map (\<lambda>c. [hex_digit (of_char c div 16), hex_digit (of_char c mod 16)]) bytes)"

record StoreDeduplicator =
  sd_sha256 :: "string \<Rightarrow> string"
  sd_namespace :: string

definition markerID :: "StoreDeduplicator \<Rightarrow> string \<Rightarrow> string" where
  "markerID d key = ''chdedup-'' @ hex_encode (sd_sha256 d (lengthPrefixed [sd_namespace d, key]))"

definition marker :: "StoreDeduplicator \<Rightarrow> string \<Rightarrow> Time \<Rightarrow> ThreadRecord" where
  "marker d key now = \<lparr>th_ID = markerID d key, th_Namespace = sd_namespace d, th_OwnerID = [], th_Metadata = None,
     th_CreatedAt = now, th_UpdatedAt = now\<rparr>"

section \<open>The store deduplicator\<close>

text \<open>A call of \<^verbatim>\<open>Seen\<close> is at one of its store calls, or has returned.\<close>

datatype phase = Check | Create | Recheck go_error | Returned "bool result"

definition dedup_error :: "string \<Rightarrow> go_error \<Rightarrow> go_error" where
  "dedup_error key e = Wrapf ''lebro/channels: deduplicate %q: %w'' [key] e"

fun seen_step :: "StoreDeduplicator \<Rightarrow> Context \<Rightarrow> Time \<Rightarrow> string \<Rightarrow> phase \<Rightarrow> memoryState \<Rightarrow> memoryState \<times> phase" where
  "seen_step d ctx now key Check s = (s, case getThread ctx s (markerID d key) of Inr _ \<Rightarrow> Returned (Inr True)
     | Inl e \<Rightarrow> if errors_Is e ErrNotFound then Create else Returned (Inl (dedup_error key e)))"
| "seen_step d ctx now key Create s = (case createThread ctx s (marker d key now) of
     (s', None) \<Rightarrow> (s', Returned (Inr False)) | (s', Some e) \<Rightarrow> (s', Recheck e))"
| "seen_step d ctx now key (Recheck err) s = (s, case getThread ctx s (markerID d key) of Inr _ \<Rightarrow> Returned (Inr True)
     | Inl _ \<Rightarrow> Returned (Inl (dedup_error key err)))"
| "seen_step d ctx now key (Returned r) s = (s, Returned r)"

text \<open>A call that nothing interleaves with.\<close>

definition Store_Seen :: "StoreDeduplicator \<Rightarrow> Context \<Rightarrow> Time \<Rightarrow> string \<Rightarrow> memoryState \<Rightarrow> memoryState \<times> phase" where
  "Store_Seen d ctx now key s = (case seen_step d ctx now key Check s of (s1, p1) \<Rightarrow>
     case seen_step d ctx now key p1 s1 of (s2, p2) \<Rightarrow> seen_step d ctx now key p2 s2)"

record delivery =
  dl_key :: string
  dl_phase :: phase

text \<open>Deliveries in flight and every other use of the store: its methods, and transactions that commit.\<close>

inductive dedup_step :: "StoreDeduplicator \<Rightarrow> memoryState \<times> delivery list \<Rightarrow> memoryState \<times> delivery list \<Rightarrow> bool" for d where
  arrive: "dedup_step d (s, ds) (s, ds @ [\<lparr>dl_key = key, dl_phase = Check\<rparr>])"
| advance: "i < length ds \<Longrightarrow> seen_step d ctx now (dl_key (ds ! i)) (dl_phase (ds ! i)) s = (s', p)
    \<Longrightarrow> dedup_step d (s, ds) (s', ds[i := (ds ! i)\<lparr>dl_phase := p\<rparr>])"
| other: "exec_op ctx oper s = (s', r) \<Longrightarrow> dedup_step d (s, ds) (s', ds)"
| other_tx: "run_tx fn ctx \<lparr>tx_state = cloneMemoryState s, dirty = False\<rparr> = (tx, None) \<Longrightarrow> dedup_step d (s, ds) (tx_state tx, ds)"

inductive dedup_reachable :: "StoreDeduplicator \<Rightarrow> memoryState \<times> delivery list \<Rightarrow> bool" for d where
  start: "store_ok s \<Longrightarrow> dedup_reachable d (s, [])"
| further: "dedup_reachable d c \<Longrightarrow> dedup_step d c c' \<Longrightarrow> dedup_reachable d c'"

section \<open>The contract\<close>

locale deduplicator =
  fixes seen :: "string \<Rightarrow> 's \<Rightarrow> bool \<times> 's"
    and known :: "'s \<Rightarrow> string \<Rightarrow> bool"
    and inv :: "'s \<Rightarrow> bool"
  assumes seen_known: "inv s \<Longrightarrow> fst (seen k s) = known s k"
    and seen_records: "inv s \<Longrightarrow> known (snd (seen k s)) k"
    and seen_inv: "inv s \<Longrightarrow> inv (snd (seen k s))"
    and seen_duplicate: "inv s \<Longrightarrow> known s k \<Longrightarrow> snd (seen k s) = s"
begin

lemma redelivered: "inv s \<Longrightarrow> fst (seen k (snd (seen k s)))"
  using seen_known seen_records seen_inv by simp

lemma seen_idem: "inv s \<Longrightarrow> snd (seen k (snd (seen k s))) = snd (seen k s)"
  using seen_duplicate seen_records seen_inv by simp

end

section \<open>The window\<close>

definition memory_ok :: "MemoryDeduplicator \<Rightarrow> bool" where
  "memory_ok d \<longleftrightarrow> 1 \<le> md_capacity d \<and> int (length (md_order d)) \<le> md_capacity d \<and> distinct (md_order d)
     \<and> (\<forall>k. mget (md_seen d) k \<noteq> None \<longleftrightarrow> k \<in> set (md_order d))"

lemma evict_ok:
  assumes "distinct order" "\<forall>k. mget seen k \<noteq> None \<longleftrightarrow> k \<in> set order" "evict capacity order seen = (order', seen')" "0 \<le> capacity"
  shows "order' = drop (length order - nat capacity) order \<and> (\<forall>k. mget seen' k \<noteq> None \<longleftrightarrow> k \<in> set order')"
  using assms
proof (induction capacity order seen rule: evict.induct)
  case (2 capacity oldest order seen)
  show ?case
  proof (cases "capacity < int (length (oldest # order))")
    case True
    have "\<forall>k. mget (mdel oldest seen) k \<noteq> None \<longleftrightarrow> k \<in> set order" using 2(2,3) by auto
    with 2(1) [OF True] 2(2,4,5) True have "order' = drop (length order - nat capacity) order
        \<and> (\<forall>k. mget seen' k \<noteq> None \<longleftrightarrow> k \<in> set order')" by simp
    moreover have "length (oldest # order) - nat capacity = Suc (length order - nat capacity)" using True 2(5) by (simp add: Suc_diff_le)
    ultimately show ?thesis by simp
  qed (use 2 in auto)
qed simp

lemma Memory_Seen_new:
  assumes "memory_ok d" "mget (md_seen d) key = None"
  shows "fst (Memory_Seen key d) = False" "memory_ok (snd (Memory_Seen key d))"
    "md_capacity (snd (Memory_Seen key d)) = md_capacity d"
    "md_order (snd (Memory_Seen key d)) = drop (Suc (length (md_order d)) - nat (md_capacity d)) (md_order d @ [key])"
proof -
  let ?order = "md_order d @ [key]" and ?seen = "mset_at key key (md_seen d)"
  obtain order' seen' where e: "evict (md_capacity d) ?order ?seen = (order', seen')" by fastforce
  have new: "distinct ?order" "\<forall>k. mget ?seen k \<noteq> None \<longleftrightarrow> k \<in> set ?order" "0 \<le> md_capacity d"
  proof -
    have "key \<notin> set (md_order d)" using assms unfolding memory_ok_def by blast
    then show "distinct ?order" "\<forall>k. mget ?seen k \<noteq> None \<longleftrightarrow> k \<in> set ?order" "0 \<le> md_capacity d"
      using assms(1) by (auto simp: memory_ok_def)
  qed
  from evict_ok [OF new(1,2) e new(3)] have o: "order' = drop (Suc (length (md_order d)) - nat (md_capacity d)) ?order"
    "\<forall>k. mget seen' k \<noteq> None \<longleftrightarrow> k \<in> set order'" by simp_all
  show "fst (Memory_Seen key d) = False" "md_capacity (snd (Memory_Seen key d)) = md_capacity d"
    "md_order (snd (Memory_Seen key d)) = drop (Suc (length (md_order d)) - nat (md_capacity d)) ?order"
    using assms(2) e o(1) by (simp_all add: Memory_Seen_def)
  show "memory_ok (snd (Memory_Seen key d))"
    using assms e o new(1) by (auto simp: memory_ok_def Memory_Seen_def dest: in_set_dropD)
qed

lemma Memory_Seen_old: "mget (md_seen d) key \<noteq> None \<Longrightarrow> Memory_Seen key d = (True, d)"
  by (simp add: Memory_Seen_def)

lemma Memory_Seen_kept: "memory_ok d \<Longrightarrow> memory_ok (snd (Memory_Seen key d))"
  using Memory_Seen_new(2) Memory_Seen_old by (metis snd_conv)

interpretation mem_dedup: deduplicator Memory_Seen "\<lambda>d k. mget (md_seen d) k \<noteq> None" memory_ok
proof
  fix d k assume ok: "memory_ok d"
  show "fst (Memory_Seen k d) = (mget (md_seen d) k \<noteq> None)"
    using Memory_Seen_new(1) [OF ok] Memory_Seen_old by (cases "mget (md_seen d) k = None") auto
  show "memory_ok (snd (Memory_Seen k d))" by (rule Memory_Seen_kept [OF ok])
  show "mget (md_seen (snd (Memory_Seen k d))) k \<noteq> None"
  proof (cases "mget (md_seen d) k = None")
    case True
    have "1 \<le> nat (md_capacity d)" using ok by (auto simp: memory_ok_def)
    then have "k \<in> set (md_order (snd (Memory_Seen k d)))" by (simp add: Memory_Seen_new(4) [OF ok True])
    then show ?thesis using Memory_Seen_new(2) [OF ok True] by (simp add: memory_ok_def)
  qed (simp add: Memory_Seen_old)
  show "snd (Memory_Seen k d) = d" if "mget (md_seen d) k \<noteq> None" using that by (simp add: Memory_Seen_old)
qed

definition deliver :: "MemoryDeduplicator \<Rightarrow> string list \<Rightarrow> MemoryDeduplicator" where
  "deliver = foldl (\<lambda>d k. snd (Memory_Seen k d))"

text \<open>A key stays remembered while fewer newer keys than the capacity follow it in the order.\<close>

definition newer_than :: "string \<Rightarrow> MemoryDeduplicator \<Rightarrow> nat \<Rightarrow> bool" where
  "newer_than key d n \<longleftrightarrow> (\<exists>xs ys. md_order d = xs @ key # ys \<and> length ys \<le> n)"

lemma newer_step:
  assumes "memory_ok d" "newer_than key d n" "int (Suc n) < md_capacity d"
  shows "newer_than key (snd (Memory_Seen k d)) (Suc n)"
proof (cases "mget (md_seen d) k = None")
  case True
  obtain xs ys where o: "md_order d = xs @ key # ys" "length ys \<le> n" using assms(2) by (auto simp: newer_than_def)
  let ?m = "Suc (length (md_order d)) - nat (md_capacity d)"
  have "?m \<le> length xs" using o assms(3) by simp
  then have "drop ?m (md_order d @ [k]) = drop ?m xs @ key # (ys @ [k])" by (simp add: o(1))
  then have "md_order (snd (Memory_Seen k d)) = drop ?m xs @ key # (ys @ [k])" by (simp only: Memory_Seen_new(4) [OF assms(1) True])
  moreover have "length (ys @ [k]) \<le> Suc n" using o(2) by simp
  ultimately show ?thesis unfolding newer_than_def by blast
next
  case False
  then show ?thesis using assms(2) unfolding newer_than_def by (metis Memory_Seen_old le_SucI snd_conv)
qed

lemma newer_deliver:
  "memory_ok d \<Longrightarrow> newer_than key d n \<Longrightarrow> int (n + length ks) < md_capacity d \<Longrightarrow>
    memory_ok (deliver d ks) \<and> newer_than key (deliver d ks) (n + length ks)"
proof (induction ks arbitrary: d n)
  case (Cons k ks)
  have "md_capacity (snd (Memory_Seen k d)) = md_capacity d"
    using Memory_Seen_new(3) [OF Cons.prems(1)] Memory_Seen_old by (cases "mget (md_seen d) k = None") auto
  with Cons.IH [of "snd (Memory_Seen k d)" "Suc n"] Cons.prems newer_step [OF Cons.prems(1,2), of k]
    Memory_Seen_kept [OF Cons.prems(1)] show ?case by (simp add: deliver_def)
qed (simp add: deliver_def)

section \<open>Marker identity\<close>

lemma digits_colon_inj:
  assumes "list_all is_digit a" "list_all is_digit b" "a @ CHR '':'' # x = b @ CHR '':'' # y"
  shows "a = b \<and> x = y"
proof -
  have "\<not> is_digit (CHR '':'')" by (simp add: is_digit_def)
  with assms(1,2) have "CHR '':'' \<notin> set a" "CHR '':'' \<notin> set b" by (auto simp: list_all_iff)
  with cut_at_inj [OF _ _ assms(3)] show ?thesis by simp
qed

lemma length_prefix_inj:
  assumes "itoa (int (length f)) @ '':'' @ f @ x = itoa (int (length g)) @ '':'' @ g @ y"
  shows "f = g \<and> x = y"
proof -
  have "list_all is_digit (itoa (int n))" for n by (simp add: itoa_def show_nat_digits)
  from digits_colon_inj [OF this this, of "length f" "f @ x" "length g" "g @ y"] assms have
    "itoa (int (length f)) = itoa (int (length g))" "f @ x = g @ y" by simp_all
  then show ?thesis by (simp add: itoa_inj)
qed

lemma lengthPrefixed_inj: "lengthPrefixed fs = lengthPrefixed gs \<Longrightarrow> fs = gs"
proof (induction fs arbitrary: gs)
  case Nil
  then show ?case by (cases gs) (auto simp: lengthPrefixed_def itoa_nonempty)
next
  case (Cons f fs)
  show ?case
  proof (cases gs)
    case Nil
    with Cons.prems show ?thesis by (simp add: lengthPrefixed_def itoa_nonempty)
  next
    case (Cons g gs')
    with length_prefix_inj [of f "lengthPrefixed fs" g "lengthPrefixed gs'"] Cons.prems
    have "f = g \<and> lengthPrefixed fs = lengthPrefixed gs'" by (simp add: lengthPrefixed_def)
    with Cons.IH Cons show ?thesis by simp
  qed
qed

lemma hex_digit_inj: "m < 16 \<Longrightarrow> n < 16 \<Longrightarrow> hex_digit m = hex_digit n \<Longrightarrow> m = n"
  by (auto simp: hex_digit_def split: if_splits dest!: arg_cong [of _ _ "of_char :: char \<Rightarrow> nat"])

lemma hex_encode_inj: "hex_encode a = hex_encode b \<Longrightarrow> a = b"
proof (induction a arbitrary: b)
  case Nil
  then show ?case by (cases b) (simp_all add: hex_encode_def)
next
  case (Cons x a)
  then obtain y b' where b: "b = y # b'" by (cases b) (simp_all add: hex_encode_def)
  have "of_char c div 16 < (16 :: nat)" for c :: char using nat_of_char_less_256 [of c] by (simp add: less_mult_imp_div_less)
  then have "of_char x div 16 = (of_char y div 16 :: nat)" "of_char x mod 16 = (of_char y mod 16 :: nat)"
    using Cons.prems b hex_digit_inj by (auto simp: hex_encode_def)
  then have "of_char x = (of_char y :: nat)" by (metis div_mult_mod_eq)
  moreover have "hex_encode a = hex_encode b'" using Cons.prems b by (simp add: hex_encode_def)
  ultimately show ?case using Cons.IH b by simp
qed

lemma markerID_inj:
  assumes "inj_on sha {lengthPrefixed [ns, k], lengthPrefixed [ns', k']}"
    "markerID \<lparr>sd_sha256 = sha, sd_namespace = ns\<rparr> k = markerID \<lparr>sd_sha256 = sha, sd_namespace = ns'\<rparr> k'"
  shows "ns = ns' \<and> k = k'"
proof -
  have "sha (lengthPrefixed [ns, k]) = sha (lengthPrefixed [ns', k'])"
    using assms(2) hex_encode_inj by (simp add: markerID_def)
  from inj_onD [OF assms(1) this] have "[ns, k] = [ns', k']" by (intro lengthPrefixed_inj) simp
  then show ?thesis by simp
qed

section \<open>Threads persist\<close>

definition has_thread :: "memoryState \<Rightarrow> string \<Rightarrow> bool" where
  "has_thread s k \<longleftrightarrow> mget (threads s) k \<noteq> None"

lemma commit_if_threads: "threads s' = threads s \<Longrightarrow> threads (fst (commit_if c s s')) = threads s"
  by (cases c) simp_all

lemma transcript_threads:
  "threads (fst (appendMessages ctx s vs)) = threads s" "threads (fst (updateMessages ctx s vs)) = threads s"
  "threads (fst (deleteMessages ctx s k ids)) = threads s"
  by (simp_all add: appendMessages_def updateMessages_def deleteMessages_def commit_if_threads split: option.split)

lemma workflow_threads:
  "threads (fst (saveWorkflowRun ctx s run)) = threads s" "threads (fst (saveWorkflowSnapshot ctx s snap)) = threads s"
  by (simp_all add: saveWorkflowRun_def saveWorkflowSnapshot_def insert_snapshot_def commit_if_threads Let_def split: option.split)

lemma schedule_threads:
  "threads (fst (saveSchedule ctx s sched)) = threads s" "threads (fst (deleteSchedule ctx s k)) = threads s"
  "threads (fst (saveScheduleExecution ctx s ex)) = threads s"
  by (simp_all add: saveSchedule_def deleteSchedule_def saveScheduleExecution_def insert_execution_def commit_if_threads Let_def
      split: option.split)

lemma memory_threads:
  "threads (fst (upsertWorkingMemoryFact ctx s w e)) = threads s"
  "threads (fst (deleteWorkingMemoryFact ctx s ns ow k e)) = threads s" "threads (fst (clearWorkingMemory ctx s ns ow)) = threads s"
  by (simp_all add: upsertWorkingMemoryFact_def deleteWorkingMemoryFact_def clearWorkingMemory_def commit_if_threads Let_def
      split: option.split sum.split)

lemma log_threads:
  "threads (fst (appendRunEvents ctx s es)) = threads s" "threads (fst (saveModelAttempts ctx s as)) = threads s"
  "threads (fst (saveToolExecutions ctx s ts)) = threads s"
  by (simp_all add: appendRunEvents_def saveModelAttempts_def saveToolExecutions_def log_append_def commit_if_threads split: prod.split)

lemma has_thread_cong: "threads s' = threads s \<Longrightarrow> has_thread s' k = has_thread s k"
  by (simp add: has_thread_def)

lemmas other_threads = transcript_threads [THEN has_thread_cong] workflow_threads [THEN has_thread_cong]
  schedule_threads [THEN has_thread_cong] memory_threads [THEN has_thread_cong] log_threads [THEN has_thread_cong]

lemma thread_ops:
  "has_thread s k \<Longrightarrow> has_thread (fst (createThread ctx s v)) k" "has_thread s k \<Longrightarrow> has_thread (fst (updateThread ctx s v)) k"
  by (auto simp: has_thread_def createThread_def updateThread_def commit_if_def split: option.split)

lemma exec_op_threads: "has_thread s k \<Longrightarrow> has_thread (fst (exec_op ctx oper s)) k"
proof (cases oper)
  case (Repo rop)
  assume "has_thread s k"
  then show ?thesis unfolding Repo
    by (cases rop) (simp_all add: thread_ops other_threads result_err_def)
next
  case (Obs oop)
  assume "has_thread s k"
  then show ?thesis unfolding Obs by (cases oop) (simp_all add: other_threads)
qed

lemma run_tx_threads: "has_thread (tx_state tx) k \<Longrightarrow> has_thread (tx_state (fst (run_tx fn ctx tx))) k"
proof (induction fn arbitrary: tx)
  case (Call oper f)
  obtain tx' r where e: "repositories_exec ctx oper tx = (tx', r)" by fastforce
  then have "has_thread (tx_state tx') k"
    using exec_op_threads [OF Call.prems] repositories_exec_state [of ctx oper tx] by simp
  then show ?case using Call.IH e by (simp add: range_eqI)
next
  case (Inspect f)
  then show ?case by (simp add: range_eqI)
qed simp

section \<open>Concurrent deliveries\<close>

definition dedup_ok :: "StoreDeduplicator \<Rightarrow> memoryState \<times> delivery list \<Rightarrow> bool" where
  "dedup_ok d c \<longleftrightarrow> (case c of (s, ds) \<Rightarrow>
     (\<forall>i < length ds. \<forall>b. dl_phase (ds ! i) = Returned (Inr b) \<longrightarrow> has_thread s (markerID d (dl_key (ds ! i))))
   \<and> (\<forall>i < length ds. \<forall>j < length ds. i \<noteq> j \<and> dl_phase (ds ! i) = Returned (Inr False) \<and> dl_phase (ds ! j) = Returned (Inr False)
        \<longrightarrow> markerID d (dl_key (ds ! i)) \<noteq> markerID d (dl_key (ds ! j))))"

lemma dedup_ok_store:
  assumes "dedup_ok d (s, ds)" "\<And>k. has_thread s k \<Longrightarrow> has_thread s' k"
  shows "dedup_ok d (s', ds)"
  using assms unfolding dedup_ok_def by blast

lemma seen_step_keeps: "seen_step d ctx now key p s = (s', p') \<Longrightarrow> has_thread s k \<Longrightarrow> has_thread s' k"
  using thread_ops(1) [of s k ctx "marker d key now"] by (cases p) (auto split: prod.splits option.splits)

lemma seen_step_returns:
  assumes "seen_step d ctx now key p s = (s', Returned (Inr b))"
  shows "p = Returned (Inr b) \<or> (has_thread s' (markerID d key) \<and> (\<not> b \<longrightarrow> \<not> has_thread s (markerID d key)))"
  using assms
  by (cases p) (auto simp: has_thread_def getThread_def createThread_def commit_if_def marker_def chk_def
      split: prod.splits option.splits sum.splits if_splits)

lemma dedup_step_ok:
  assumes "dedup_step d c c'" "dedup_ok d c"
  shows "dedup_ok d c'"
  using assms
proof cases
  case (arrive s ds key)
  with assms(2) show ?thesis by (auto simp: dedup_ok_def nth_append less_Suc_eq)
next
  case (advance i ds ctx now s s' p)
  let ?id = "\<lambda>j. markerID d (dl_key (ds ! j))" and ?phase = "\<lambda>j. dl_phase (ds ! j)"
  have ok: "has_thread s (?id j)" if "j < length ds" "?phase j = Returned (Inr b)" for j b
    using assms(2) that advance(1) by (auto simp: dedup_ok_def)
  have once: "?id j \<noteq> ?id j'" if "j < length ds" "j' < length ds" "j \<noteq> j'" "?phase j = Returned (Inr False)" "?phase j' = Returned (Inr False)" for j j'
    using assms(2) that advance(1) by (auto simp: dedup_ok_def)
  note keep = seen_step_keeps [OF advance(4)]
  have new: "?phase i = Returned (Inr b) \<or> has_thread s' (?id i) \<and> (\<not> b \<longrightarrow> \<not> has_thread s (?id i))" if "p = Returned (Inr b)" for b
    using seen_step_returns advance(4) that by blast
  have "has_thread s' (?id j)" if "j < length ds" "(if j = i then p else ?phase j) = Returned (Inr b)" for j b
    using that ok keep new by (cases "j = i") auto
  moreover have "?id i \<noteq> ?id j" if "j < length ds" "j \<noteq> i" "p = Returned (Inr False)" "?phase j = Returned (Inr False)" for j
    using that ok [of j False] new [of False] once [of i j] advance(3) by metis
  ultimately show ?thesis
    using advance(1,2,3) once by (auto simp: dedup_ok_def nth_list_update) metis+
next
  case (other ctx oper s s' r ds)
  with assms(2) show ?thesis using exec_op_threads [of s _ ctx oper] by (auto intro: dedup_ok_store)
next
  case (other_tx fn ctx s tx ds)
  have "has_thread (tx_state tx) k" if "has_thread s k" for k
    using run_tx_threads [of "\<lparr>tx_state = cloneMemoryState s, dirty = False\<rparr>" k fn ctx] that other_tx(3)
    by (auto simp: has_thread_def cloneMemoryState_def)
  with assms(2) other_tx show ?thesis by (auto intro: dedup_ok_store)
qed

lemma dedup_reachable_ok: "dedup_reachable d c \<Longrightarrow> dedup_ok d c"
proof (induction rule: dedup_reachable.induct)
  case (start s)
  then show ?case by (simp add: dedup_ok_def)
next
  case (further c c')
  then show ?case using dedup_step_ok by blast
qed

text \<open>The uninterrupted call provides the contract when the clock's time can be stored.\<close>

definition store_seen :: "StoreDeduplicator \<Rightarrow> Time \<Rightarrow> string \<Rightarrow> memoryState \<Rightarrow> bool \<times> memoryState" where
  "store_seen d now key s = (case Store_Seen d background now key s of (s', p) \<Rightarrow> (p = Returned (Inr True), s'))"

lemma Store_Seen_known: "has_thread s (markerID d key) \<Longrightarrow> Store_Seen d background now key s = (s, Returned (Inr True))"
  by (auto simp: Store_Seen_def has_thread_def getThread_def background_def)

lemma Store_Seen_new:
  assumes "\<not> has_thread s (markerID d key)" "time_marshal_ok now"
  shows "Store_Seen d background now key s
    = (s\<lparr>threads := mset_at (markerID d key) (cloneThreadRecord (marker d key now)) (threads s)\<rparr>, Returned (Inr False))"
proof -
  have m: "th_ID (marker d key now) = markerID d key" "markerID d key \<noteq> []" "th_Metadata (marker d key now) = None"
    "thread_marshals (marker d key now)"
    using assms(2) by (simp_all add: marker_def markerID_def thread_marshals_def raw_omitempty_ok_def)
  have "createThread background s (marker d key now)
      = (s\<lparr>threads := mset_at (markerID d key) (cloneThreadRecord (marker d key now)) (threads s)\<rparr>, None)"
    unfolding createThread_def using assms(1) m
    by (simp add: has_thread_def background_def validateJSON_def validateRecord_def commit_if_None)
  then show ?thesis using assms(1) by (simp add: Store_Seen_def has_thread_def getThread_def) (simp add: background_def)
qed

interpretation store_dedup: deduplicator "store_seen d now" "\<lambda>s k. has_thread s (markerID d k)" "\<lambda>_. time_marshal_ok now"
  for d now
proof
  fix s k assume t: "time_marshal_ok now"
  show "fst (store_seen d now k s) = has_thread s (markerID d k)"
    using Store_Seen_known Store_Seen_new [OF _ t] by (cases "has_thread s (markerID d k)") (simp_all add: store_seen_def)
  show "has_thread (snd (store_seen d now k s)) (markerID d k)"
    using Store_Seen_known Store_Seen_new [OF _ t]
    by (cases "has_thread s (markerID d k)") (simp_all add: store_seen_def has_thread_def [of "_\<lparr>threads := _\<rparr>"])
  show "snd (store_seen d now k s) = s" if "has_thread s (markerID d k)"
    using that Store_Seen_known by (simp add: store_seen_def)
qed

section \<open>Properties\<close>



text \<open>C12 store_dedup_once: however concurrent deliveries of the same message interleave with each other and with any other
  use of the store, at most one of them is told that the message is new.\<close>

theorem store_dedup_once:
  assumes "dedup_reachable d (s, ds)" "i < length ds" "j < length ds" "dl_key (ds ! i) = dl_key (ds ! j)"
    "dl_phase (ds ! i) = Returned (Inr False)" "dl_phase (ds ! j) = Returned (Inr False)"
  shows "i = j"
  using dedup_reachable_ok [OF assms(1)] assms(2-6) by (fastforce simp: dedup_ok_def)

text \<open>C31 store_dedup_contract: an uninterrupted call answers whether the marker of the key was there, leaves it there, and
  a second call is told so and changes nothing; keys or namespaces that differ have different markers unless the
  hash collides on them.\<close>

theorem store_dedup_contract:
  assumes "time_marshal_ok now"
  shows "fst (store_seen d now key s) = has_thread s (markerID d key)
    \<and> store_seen d now' key (snd (store_seen d now key s)) = (True, snd (store_seen d now key s))
    \<and> (inj_on (sd_sha256 d) {lengthPrefixed [sd_namespace d, key], lengthPrefixed [ns, key']}
        \<and> markerID d key = markerID (d\<lparr>sd_namespace := ns\<rparr>) key' \<longrightarrow> sd_namespace d = ns \<and> key = key')"
proof -
  have "store_seen d now' key (snd (store_seen d now key s)) = (True, snd (store_seen d now key s))"
    using Store_Seen_known store_dedup.seen_records [OF assms, of d key s] by (simp add: store_seen_def)
  moreover have "sd_namespace d = ns \<and> key = key'"
    if "inj_on (sd_sha256 d) {lengthPrefixed [sd_namespace d, key], lengthPrefixed [ns, key']}"
      "markerID d key = markerID (d\<lparr>sd_namespace := ns\<rparr>) key'"
    using markerID_inj [OF that(1)] that(2) by (cases d) simp
  ultimately show ?thesis using store_dedup.seen_known [OF assms] by blast
qed

definition sample_dedup :: StoreDeduplicator where
  "sample_dedup = \<lparr>sd_sha256 = id, sd_namespace = ''bot''\<rparr>"

theorem store_dedup_contract_witness:
  "store_seen sample_dedup 0 ''m1'' (snd (store_seen sample_dedup 0 ''m1'' newMemoryState))
     = (True, snd (store_seen sample_dedup 0 ''m1'' newMemoryState))"
proof -
  have "time_marshal_ok 0" by code_simp
  from store_dedup_contract [OF this] show ?thesis by blast
qed

theorem store_dedup_once_witness:
  "\<exists>s ds. dedup_reachable sample_dedup (s, ds) \<and> length ds = 2 \<and> dl_key (ds ! 0) = dl_key (ds ! 1)
     \<and> dl_phase (ds ! 0) = Returned (Inr False) \<and> dl_phase (ds ! 1) \<noteq> Returned (Inr False)"
proof -
  let ?d = sample_dedup
  define dl where "dl p = \<lparr>dl_key = ''m1'', dl_phase = p\<rparr>" for p
  have at: "dedup_step ?d (s, ds) (s', ds[i := dl p])" if "i < length ds" "ds ! i = dl q"
    "seen_step ?d background 0 ''m1'' q s = (s', p)" for i ds q s s' p
    using advance [of i ds ?d background 0 s s' p] that by (simp add: dl_def)
  define s1 where "s1 = fst (seen_step ?d background 0 ''m1'' Create newMemoryState)"
  have c1: "seen_step ?d background 0 ''m1'' Check newMemoryState = (newMemoryState, Create)" by code_simp
  have c2: "seen_step ?d background 0 ''m1'' Create newMemoryState = (s1, Returned (Inr False))" unfolding s1_def by code_simp
  have "dedup_reachable ?d (newMemoryState, [dl Check, dl Check])"
    using further [OF further [OF start [OF store_ok_new] arrive] arrive, of ?d "''m1''" "''m1''"] by (simp add: dl_def)
  from further [OF this at [of 0 _ Check, OF _ _ c1]] have "dedup_reachable ?d (newMemoryState, [dl Create, dl Check])" by simp
  from further [OF this at [of 1 _ Check, OF _ _ c1]] have "dedup_reachable ?d (newMemoryState, [dl Create, dl Create])" by simp
  from further [OF this at [of 0 _ Create, OF _ _ c2]] have r: "dedup_reachable ?d (s1, [dl (Returned (Inr False)), dl Create])" by simp
  let ?p = "snd (seen_step ?d background 0 ''m1'' Create s1)" and ?s = "fst (seen_step ?d background 0 ''m1'' Create s1)"
  from further [OF r at [of 1 _ Create s1 ?s ?p]] have r2: "dedup_reachable ?d (?s, [dl (Returned (Inr False)), dl ?p])" by simp
  have "?p \<noteq> Returned (Inr False)"
    using store_dedup_once [OF r2, of 0 1] by (auto simp: dl_def)
  with r2 show ?thesis by (intro exI [of _ ?s] exI [of _ "[dl (Returned (Inr False)), dl ?p]"]) (simp add: dl_def)
qed

end
