(* ===== verification/Router.thy ===== *)
theory Router
  imports Authz
begin

text \<open>
  Routing of model requests: the provider registry (\<^verbatim>\<open>provider_registry.go\<close>), the retry classes of model errors
  (\<^verbatim>\<open>model_error.go\<close>), the fallback policy (\<^verbatim>\<open>fallback.go\<close>) and the router (\<^verbatim>\<open>model_router.go\<close>).

  A provider is a function on the request and the world \<open>'w\<close>, which stands for everything a call can depend on or
  change; the state of the context is read from it. Generating and streaming run the same walk with a different
  call, so the walk takes the call as an argument. The observer's notifications are a list of events. Of a request
  only the fields routing reads are named; the rest is the record's extension. The text of an error is a parameter.
\<close>

section \<open>Errors and attempts\<close>

record ModelError =
  me_Kind :: string
  me_Provider :: string
  me_Code :: string
  me_StatusCode :: int
  me_RetryAfter :: int
  me_Message :: string
  me_Extension :: RawMessage
  me_Err :: "go_error option"

text \<open>An error of a call, with what \<^verbatim>\<open>errors.As\<close> finds in its chain.\<close>

record call_error =
  ce_Err :: go_error
  ce_As :: "ModelError option"

definition modelErrorPolicyFor :: "string \<Rightarrow> go_error \<times> bool" where
  "modelErrorPolicyFor kind =
    (if kind = ''invalid_request'' then (Errorf ''lebro: model invalid request'' [], False)
     else if kind = ''authentication'' then (Errorf ''lebro: model authentication failed'' [], False)
     else if kind = ''permission_denied'' then (Errorf ''lebro: model permission denied'' [], False)
     else if kind = ''not_found'' then (Errorf ''lebro: model resource not found'' [], False)
     else if kind = ''rate_limited'' then (Errorf ''lebro: model rate limited'' [], True)
     else if kind = ''timeout'' then (Errorf ''lebro: model request timed out'' [], True)
     else if kind = ''unavailable'' then (Errorf ''lebro: model unavailable'' [], True)
     else if kind = ''transport'' then (Errorf ''lebro: model transport failure'' [], True)
     else if kind = ''malformed_response'' then (Errorf ''lebro: malformed model response'' [], False)
     else (Errorf ''lebro: unknown model failure'' [], False))"

definition ModelError_Is :: "ModelError option \<Rightarrow> go_error \<Rightarrow> bool" where
  "ModelError_Is e target = (case e of None \<Rightarrow> False | Some m \<Rightarrow> target = fst (modelErrorPolicyFor (me_Kind m)))"

definition ModelError_Retryable :: "ModelError option \<Rightarrow> bool" where
  "ModelError_Retryable e = (case e of None \<Rightarrow> False | Some m \<Rightarrow> snd (modelErrorPolicyFor (me_Kind m)))"

definition ModelError_Error :: "(go_error \<Rightarrow> string) \<Rightarrow> ModelError option \<Rightarrow> string" where
  "ModelError_Error text_of e = (case e of None \<Rightarrow> ''lebro: model failure''
     | Some m \<Rightarrow>
         let kind = (if me_Kind m = [] then ''unknown'' else me_Kind m);
           detail = (if me_Message m = [] then (case me_Err m of None \<Rightarrow> [] | Some c \<Rightarrow> text_of c) else me_Message m);
           provider = (if me_Provider m \<noteq> [] then '' from '' @ me_Provider m else [])
         in if detail = [] then ''lebro: model '' @ kind @ provider
            else ''lebro: model '' @ kind @ provider @ '': '' @ detail)"

record ModelAttempt =
  ma_Provider :: string
  ma_Model :: string
  ma_Status :: string
  ma_Error :: "ModelError option"

definition ModelAttemptSuccess :: string where "ModelAttemptSuccess = ''success''"
definition ModelAttemptFallback :: string where "ModelAttemptFallback = ''fallback''"
definition ModelAttemptFailed :: string where "ModelAttemptFailed = ''failed''"

definition toModelError :: "(go_error \<Rightarrow> string) \<Rightarrow> call_error \<Rightarrow> ModelError" where
  "toModelError text_of e = (case ce_As e of Some m \<Rightarrow> m
     | None \<Rightarrow> \<lparr>me_Kind = ''unknown'', me_Provider = [], me_Code = [], me_StatusCode = 0, me_RetryAfter = 0,
         me_Message = text_of (ce_Err e), me_Extension = None, me_Err = Some (ce_Err e)\<rparr>)"

section \<open>The registry\<close>

record ProviderCapabilities =
  pc_SupportsTools :: bool
  pc_SupportsStructuredOutput :: bool
  pc_SupportsStreaming :: bool

definition Satisfies :: "ProviderCapabilities \<Rightarrow> ProviderCapabilities \<Rightarrow> bool" where
  "Satisfies caps req = (if pc_SupportsTools req \<and> \<not> pc_SupportsTools caps then False
     else if pc_SupportsStructuredOutput req \<and> \<not> pc_SupportsStructuredOutput caps then False
     else if pc_SupportsStreaming req \<and> \<not> pc_SupportsStreaming caps then False
     else True)"

text \<open>The adapter is absent when the interface is nil.\<close>

record 'm ProviderEntry =
  pe_ID :: string
  pe_Model :: "'m option"
  pe_Capabilities :: ProviderCapabilities

definition ProviderEntry_Validate :: "'m ProviderEntry \<Rightarrow> go_error option" where
  "ProviderEntry_Validate e = first_err [
     chk (pe_ID e = []) (Errorf ''lebro: provider entry requires an ID'' []),
     chk (pe_Model e = None) (Errorf ''lebro: provider %q requires a model adapter'' [pe_ID e])]"

record 'm ProviderRegistry =
  rg_providers :: "(string, 'm ProviderEntry) gomap"
  rg_order :: "string list"

definition NewProviderRegistry :: "'m ProviderRegistry" where
  "NewProviderRegistry = \<lparr>rg_providers = [], rg_order = []\<rparr>"

definition ErrProviderNotFound :: go_error where "ErrProviderNotFound = Errorf ''lebro: provider not found'' []"
definition ErrProviderAlreadyExists :: go_error where "ErrProviderAlreadyExists = Errorf ''lebro: provider already registered'' []"

definition Register :: "'m ProviderEntry \<Rightarrow> 'm ProviderRegistry \<Rightarrow> 'm ProviderRegistry \<times> go_error option" where
  "Register e r = (case ProviderEntry_Validate e of Some err \<Rightarrow> (r, Some err)
     | None \<Rightarrow> if mget (rg_providers r) (pe_ID e) \<noteq> None then (r, Some (Wrapf ''%w: %q'' [pe_ID e] ErrProviderAlreadyExists))
         else (\<lparr>rg_providers = mset_at (pe_ID e) e (rg_providers r), rg_order = rg_order r @ [pe_ID e]\<rparr>, None))"

definition registry_Get :: "'m ProviderRegistry option \<Rightarrow> string \<Rightarrow> 'm ProviderEntry result" where
  "registry_Get r ident = (case r of None \<Rightarrow> Inl (Wrapf ''%w: %q'' [ident] ErrProviderNotFound)
     | Some r \<Rightarrow> (case mget (rg_providers r) ident of None \<Rightarrow> Inl (Wrapf ''%w: %q'' [ident] ErrProviderNotFound) | Some e \<Rightarrow> Inr e))"

definition registry_IDs :: "'m ProviderRegistry option \<Rightarrow> string list" where
  "registry_IDs r = (case r of None \<Rightarrow> [] | Some r \<Rightarrow> rg_order r)"

definition registry_List :: "'m ProviderRegistry option \<Rightarrow> 'm ProviderEntry list" where
  "registry_List r = (case r of None \<Rightarrow> [] | Some r \<Rightarrow> List.map_filter (mget (rg_providers r)) (rg_order r))"

definition registry_Len :: "'m ProviderRegistry option \<Rightarrow> nat" where
  "registry_Len r = (case r of None \<Rightarrow> 0 | Some r \<Rightarrow> length (rg_providers r))"

section \<open>Requests\<close>

record ModelRequest =
  mq_Model :: string
  mq_Tools :: "string list"
  mq_OutputSchema :: "string option"

definition requestRequirements :: "'q ModelRequest_scheme \<Rightarrow> ProviderCapabilities" where
  "requestRequirements req = \<lparr>pc_SupportsTools = (mq_Tools req \<noteq> []),
     pc_SupportsStructuredOutput = (mq_OutputSchema req \<noteq> None), pc_SupportsStreaming = False\<rparr>"

section \<open>The fallback policy\<close>

record FallbackPolicy =
  fp_Chain :: "string list"
  fp_Retryable :: "(ModelError \<Rightarrow> bool) option"

fun chain_err :: "string list \<Rightarrow> string list \<Rightarrow> go_error option" where
  "chain_err seen [] = None"
| "chain_err seen (ident # ids) = (if ident = [] then Some (Errorf ''lebro: fallback chain entry must not be empty'' [])
     else if ident \<in> set seen then Some (Errorf ''lebro: fallback chain contains duplicate provider %q'' [ident])
     else chain_err (ident # seen) ids)"

definition FallbackPolicy_Validate :: "FallbackPolicy option \<Rightarrow> go_error option" where
  "FallbackPolicy_Validate f = (case f of None \<Rightarrow> Some (Errorf ''lebro: fallback policy is nil'' [])
     | Some f \<Rightarrow> if fp_Chain f = [] then Some (Errorf ''lebro: fallback chain must not be empty'' []) else chain_err [] (fp_Chain f))"

definition IsRetryable :: "FallbackPolicy option \<Rightarrow> ModelError \<Rightarrow> bool" where
  "IsRetryable f e = (case f of None \<Rightarrow> ModelError_Retryable (Some e)
     | Some f \<Rightarrow> (case fp_Retryable f of None \<Rightarrow> ModelError_Retryable (Some e) | Some p \<Rightarrow> p e))"

datatype attempt_event = Started string string | Finished ModelAttempt

text \<open>What a walk leaves: the attempts so far, the notifications, the world.\<close>

record 'w walk =
  wk_Attempts :: "ModelAttempt list"
  wk_Events :: "attempt_event list"
  wk_World :: 'w

type_synonym ('m, 'q, 'r, 'w) provider_call = "'m \<Rightarrow> 'q ModelRequest_scheme \<Rightarrow> 'w \<Rightarrow> (call_error + 'r) \<times> 'w"

definition record_attempt :: "string \<Rightarrow> string \<Rightarrow> string \<Rightarrow> ModelError option \<Rightarrow> 'w \<Rightarrow> 'w walk \<Rightarrow> 'w walk" where
  "record_attempt provider model status err w wk = (let attempt = \<lparr>ma_Provider = provider, ma_Model = model, ma_Status = status, ma_Error = err\<rparr> in
     \<lparr>wk_Attempts = wk_Attempts wk @ [attempt], wk_Events = wk_Events wk @ [Started provider model, Finished attempt], wk_World = w\<rparr>)"

record ('m, 'q, 'r, 'w) walk_env =
  we_Call :: "('m, 'q, 'r, 'w) provider_call"
  we_CtxErr :: "'w \<Rightarrow> go_error option"
  we_Text :: "go_error \<Rightarrow> string"

text \<open>One provider of the chain that is not skipped: \<open>None\<close> goes on with the next, with the last error.\<close>

fun walk_chain :: "('m, 'q, 'r, 'w) walk_env \<Rightarrow> FallbackPolicy \<Rightarrow> 'q ModelRequest_scheme \<Rightarrow> string \<Rightarrow> 'm ProviderRegistry option
    \<Rightarrow> ProviderCapabilities \<Rightarrow> string list \<Rightarrow> string list \<Rightarrow> go_error option \<Rightarrow> 'w walk \<Rightarrow> (go_error + 'r) \<times> 'w walk" where
  "walk_chain env f req skip registry reqs eligible [] lastErr wk = (Inl (case lastErr of Some e \<Rightarrow> e
     | None \<Rightarrow> Errorf ''lebro: fallback chain exhausted with no eligible providers'' []), wk)"
| "walk_chain env f req skip registry reqs eligible (ident # ids) lastErr wk =
     (if ident = skip \<or> (eligible \<noteq> [] \<and> ident \<notin> set eligible)
      then walk_chain env f req skip registry reqs eligible ids lastErr wk
      else case we_CtxErr env (wk_World wk) of Some e \<Rightarrow> (Inl e, wk)
      | None \<Rightarrow> (case registry_Get registry ident of
          Inl e \<Rightarrow> walk_chain env f req skip registry reqs eligible ids (Some e) wk
        | Inr entry \<Rightarrow> if \<not> Satisfies (pe_Capabilities entry) reqs
            then walk_chain env f req skip registry reqs eligible ids lastErr wk
            else (case we_Call env (the (pe_Model entry)) req (wk_World wk) of
              (Inr resp, w) \<Rightarrow> (Inr resp, record_attempt ident (mq_Model req) ModelAttemptSuccess None w wk)
            | (Inl e, w) \<Rightarrow> (case ce_As e of
                None \<Rightarrow> (Inl (ce_Err e), record_attempt ident (mq_Model req) ModelAttemptFailed (Some (toModelError (we_Text env) e)) w wk)
              | Some m \<Rightarrow> if \<not> IsRetryable (Some f) m
                  then (Inl (ce_Err e), record_attempt ident (mq_Model req) ModelAttemptFailed (Some m) w wk)
                  else walk_chain env f req skip registry reqs eligible ids (Some (ce_Err e))
                    (record_attempt ident (mq_Model req) ModelAttemptFallback (Some m) w wk)))))"

definition walkWithAttempts :: "('m, 'q, 'r, 'w) walk_env \<Rightarrow> FallbackPolicy option \<Rightarrow> 'q ModelRequest_scheme \<Rightarrow> string
    \<Rightarrow> 'm ProviderRegistry option \<Rightarrow> ProviderCapabilities \<Rightarrow> string list \<Rightarrow> 'w walk \<Rightarrow> (go_error + 'r) \<times> 'w walk" where
  "walkWithAttempts env f req skip registry reqs eligible wk = (case f of
     None \<Rightarrow> (Inl (Errorf ''lebro: fallback policy is nil'' []), wk\<lparr>wk_Attempts := []\<rparr>)
   | Some f \<Rightarrow> walk_chain env f req skip registry reqs eligible (fp_Chain f) None wk)"

section \<open>The router\<close>

record ('m, 'q) RoutingPolicy =
  rp_Primary :: string
  rp_Eligible :: "string list"
  rp_Predicate :: "('q ModelRequest_scheme \<Rightarrow> string) option"

record ('m, 'q) ModelRouter =
  mr_registry :: "'m ProviderRegistry"
  mr_policy :: "('m, 'q) RoutingPolicy"
  mr_fallback :: "FallbackPolicy option"

definition NewModelRouter :: "'m ProviderRegistry option \<Rightarrow> ('m, 'q) RoutingPolicy \<Rightarrow> FallbackPolicy option \<Rightarrow> ('m, 'q) ModelRouter result" where
  "NewModelRouter registry policy fallback = (case registry of
     None \<Rightarrow> Inl (Errorf ''lebro: model router requires a provider registry'' [])
   | Some r \<Rightarrow> if registry_Len registry = 0 then Inl (Errorf ''lebro: model router registry is empty'' [])
       else (case (if fallback = None then None else FallbackPolicy_Validate fallback) of
         Some e \<Rightarrow> Inl (Wrapf ''lebro: model router fallback: %w'' [] e)
       | None \<Rightarrow> Inr \<lparr>mr_registry = r, mr_policy = policy, mr_fallback = fallback\<rparr>))"

fun first_capable :: "'m ProviderRegistry \<Rightarrow> ProviderCapabilities \<Rightarrow> string list \<Rightarrow> (string \<times> 'm ProviderEntry) result" where
  "first_capable r reqs [] = Inl (Errorf ''lebro: no eligible provider satisfies request requirements'' [])"
| "first_capable r reqs (ident # ids) = (case registry_Get (Some r) ident of Inl _ \<Rightarrow> first_capable r reqs ids
     | Inr entry \<Rightarrow> if Satisfies (pe_Capabilities entry) reqs then Inr (ident, entry) else first_capable r reqs ids)"

definition resolveTargetWithEntry :: "('m, 'q) ModelRouter \<Rightarrow> 'q ModelRequest_scheme \<Rightarrow> ProviderCapabilities \<Rightarrow> (string \<times> 'm ProviderEntry) result" where
  "resolveTargetWithEntry r req reqs = (let reg = mr_registry r; p = mr_policy r;
       eligible = (if rp_Eligible p = [] then registry_IDs (Some reg) else rp_Eligible p);
       chosen = (case rp_Predicate p of None \<Rightarrow> [] | Some f \<Rightarrow> f req) in
     if chosen \<noteq> [] then
       (if chosen \<notin> set eligible then Inl (Errorf ''lebro: predicate returned provider %q not in eligible set'' [chosen])
        else case registry_Get (Some reg) chosen of Inl e \<Rightarrow> Inl e
          | Inr entry \<Rightarrow> if \<not> Satisfies (pe_Capabilities entry) reqs
              then Inl (Errorf ''lebro: provider %q lacks required capabilities'' [chosen]) else Inr (chosen, entry))
     else if rp_Primary p \<noteq> [] \<and> rp_Primary p \<in> set eligible then
       (case registry_Get (Some reg) (rp_Primary p) of Inl e \<Rightarrow> Inl e
        | Inr entry \<Rightarrow> if Satisfies (pe_Capabilities entry) reqs then Inr (rp_Primary p, entry) else first_capable reg reqs eligible)
     else first_capable reg reqs eligible)"

definition routeWithAttempts :: "('m, 'q, 'r, 'w) walk_env \<Rightarrow> ('m, 'q) ModelRouter option \<Rightarrow> 'q ModelRequest_scheme \<Rightarrow> 'w
    \<Rightarrow> (go_error + 'r) \<times> 'w walk" where
  "routeWithAttempts env r req w = (let wk = \<lparr>wk_Attempts = [], wk_Events = [], wk_World = w\<rparr> in case r of
     None \<Rightarrow> (Inl (Errorf ''lebro: model router is nil'' []), wk)
   | Some r \<Rightarrow> let reqs = requestRequirements req in
       (case resolveTargetWithEntry r req reqs of Inl e \<Rightarrow> (Inl e, wk)
        | Inr (target, entry) \<Rightarrow> (case we_Call env (the (pe_Model entry)) req w of
            (Inr resp, w') \<Rightarrow> (Inr resp, record_attempt target (mq_Model req) ModelAttemptSuccess None w' wk)
          | (Inl e, w') \<Rightarrow>
              (case (mr_fallback r, ce_As e) of
                 (Some f, Some m) \<Rightarrow> if IsRetryable (Some f) m
                   then walkWithAttempts env (Some f) req target (Some (mr_registry r)) reqs (rp_Eligible (mr_policy r))
                     (record_attempt target (mq_Model req) ModelAttemptFallback (Some m) w' wk)
                   else (Inl (ce_Err e), record_attempt target (mq_Model req) ModelAttemptFailed (Some (toModelError (we_Text env) e)) w' wk)
               | _ \<Rightarrow> (Inl (ce_Err e), record_attempt target (mq_Model req) ModelAttemptFailed (Some (toModelError (we_Text env) e)) w' wk)))))"

section \<open>What a walk keeps\<close>

record 'm route_spec =
  rs_Registry :: "'m ProviderRegistry option"
  rs_Reqs :: ProviderCapabilities
  rs_Eligible :: "string list"
  rs_Fallback :: "FallbackPolicy option"

definition capable :: "'m route_spec \<Rightarrow> string \<Rightarrow> bool" where
  "capable sp ident \<longleftrightarrow> (rs_Eligible sp = [] \<or> ident \<in> set (rs_Eligible sp))
     \<and> (case registry_Get (rs_Registry sp) ident of Inl _ \<Rightarrow> False | Inr entry \<Rightarrow> Satisfies (pe_Capabilities entry) (rs_Reqs sp))"

definition fell_back :: "'m route_spec \<Rightarrow> ModelAttempt \<Rightarrow> bool" where
  "fell_back sp a \<longleftrightarrow> ma_Status a = ModelAttemptFallback \<and> (\<exists>m. ma_Error a = Some m \<and> IsRetryable (rs_Fallback sp) m)"

definition logged :: "ModelAttempt list \<Rightarrow> attempt_event list" where
  "logged as = concat (map (\<lambda>a. [Started (ma_Provider a) (ma_Model a), Finished a]) as)"

definition walk_ok :: "'m route_spec \<Rightarrow> 'w walk \<Rightarrow> bool" where
  "walk_ok sp wk \<longleftrightarrow> wk_Events wk = logged (wk_Attempts wk) \<and> distinct (map ma_Provider (wk_Attempts wk))
     \<and> (\<forall>a \<in> set (wk_Attempts wk). capable sp (ma_Provider a))"

definition outcome_ok :: "'m route_spec \<Rightarrow> (go_error + 'r) \<times> 'w walk \<Rightarrow> bool" where
  "outcome_ok sp res \<longleftrightarrow> (case res of (out, wk) \<Rightarrow> walk_ok sp wk
     \<and> (\<forall>a \<in> set (butlast (wk_Attempts wk)). fell_back sp a)
     \<and> (case out of Inr _ \<Rightarrow> wk_Attempts wk \<noteq> [] \<and> ma_Status (last (wk_Attempts wk)) = ModelAttemptSuccess
        | Inl _ \<Rightarrow> \<forall>a \<in> set (wk_Attempts wk). ma_Status a \<noteq> ModelAttemptSuccess))"

lemma status_distinct [simp]:
  "ModelAttemptFallback \<noteq> ModelAttemptSuccess" "ModelAttemptFailed \<noteq> ModelAttemptSuccess"
  by (simp_all add: ModelAttemptFallback_def ModelAttemptSuccess_def ModelAttemptFailed_def)

lemma record_walk_ok:
  assumes "walk_ok sp wk" "ident \<notin> ma_Provider ` set (wk_Attempts wk)" "capable sp ident"
  shows "walk_ok sp (record_attempt ident model status err w wk)"
  using assms by (auto simp: walk_ok_def record_attempt_def logged_def Let_def)

lemma record_attempts [simp]:
  "wk_Attempts (record_attempt ident model status err w wk)
     = wk_Attempts wk @ [\<lparr>ma_Provider = ident, ma_Model = model, ma_Status = status, ma_Error = err\<rparr>]"
  by (simp add: record_attempt_def Let_def)

lemma fell_back_status: "fell_back sp a \<Longrightarrow> ma_Status a \<noteq> ModelAttemptSuccess"
  by (simp add: fell_back_def)

lemma outcome_stop:
  assumes "walk_ok sp wk" "\<forall>a \<in> set (wk_Attempts wk). fell_back sp a"
  shows "outcome_ok sp (Inl e, wk)"
  using assms by (auto simp: outcome_ok_def dest: in_set_butlastD fell_back_status)

lemma outcome_last:
  assumes "walk_ok sp wk" "\<forall>a \<in> set (wk_Attempts wk). fell_back sp a" "ident \<notin> ma_Provider ` set (wk_Attempts wk)" "capable sp ident"
  shows "outcome_ok sp (Inr resp, record_attempt ident model ModelAttemptSuccess err w wk)"
    "outcome_ok sp (Inl e, record_attempt ident model ModelAttemptFailed err w wk)"
  using assms record_walk_ok [OF assms(1,3,4)] by (auto simp: outcome_ok_def dest: fell_back_status)

lemma walk_chain_ok:
  assumes "walk_ok sp wk" "\<forall>a \<in> set (wk_Attempts wk). fell_back sp a" "distinct ids"
    "set ids \<inter> ma_Provider ` set (wk_Attempts wk) \<subseteq> {skip}"
    "rs_Registry sp = registry" "rs_Reqs sp = reqs" "rs_Eligible sp = eligible" "rs_Fallback sp = Some f"
  shows "outcome_ok sp (walk_chain env f req skip registry reqs eligible ids lastErr wk)"
  using assms(1-4)
proof (induction ids arbitrary: lastErr wk)
  case Nil
  then show ?case by (simp add: outcome_stop)
next
  case (Cons ident ids)
  let ?skipped = "ident = skip \<or> (eligible \<noteq> [] \<and> ident \<notin> set eligible)"
  have rest: "distinct ids" "set ids \<inter> ma_Provider ` set (wk_Attempts wk) \<subseteq> {skip}" using Cons.prems(3,4) by auto
  note IH = Cons.IH [OF Cons.prems(1,2) rest]
  show ?case
  proof (cases "?skipped \<or> we_CtxErr env (wk_World wk) \<noteq> None")
    case True
    then show ?thesis using IH outcome_stop [OF Cons.prems(1,2)] by auto
  next
    case False
    then have go: "\<not> ?skipped" "we_CtxErr env (wk_World wk) = None" by auto
    have new: "ident \<notin> ma_Provider ` set (wk_Attempts wk)" using Cons.prems(4) go(1) by auto
    show ?thesis
    proof (cases "registry_Get registry ident")
      case (Inl e)
      then show ?thesis using go IH by auto
    next
      case (Inr entry)
      show ?thesis
      proof (cases "Satisfies (pe_Capabilities entry) reqs")
        case False
        then show ?thesis using go Inr IH by auto
      next
        case True
        have cap: "capable sp ident" using go(1) Inr True assms(5-7) by (auto simp: capable_def)
        note last = outcome_last [OF Cons.prems(1,2) new cap]
        obtain res w where call: "we_Call env (the (pe_Model entry)) req (wk_World wk) = (res, w)" by fastforce
        show ?thesis
        proof (cases res)
          case (Inr resp)
          then show ?thesis using go \<open>registry_Get registry ident = Inr entry\<close> True call last(1) by auto
        next
          case (Inl e)
          show ?thesis
          proof (cases "\<exists>m. ce_As e = Some m \<and> IsRetryable (Some f) m")
            case False
            then show ?thesis using go \<open>registry_Get registry ident = Inr entry\<close> True call Inl last(2) by (auto split: option.split)
          next
            case retry: True
            then obtain m where m: "ce_As e = Some m" "IsRetryable (Some f) m" by blast
            let ?wk = "record_attempt ident (mq_Model req) ModelAttemptFallback (Some m) w wk"
            have "walk_ok sp ?wk" by (rule record_walk_ok [OF Cons.prems(1) new cap])
            moreover have "\<forall>a \<in> set (wk_Attempts ?wk). fell_back sp a" using Cons.prems(2) m(2) assms(8) by (auto simp: fell_back_def)
            moreover have "set ids \<inter> ma_Provider ` set (wk_Attempts ?wk) \<subseteq> {skip}" using rest(2) Cons.prems(3) by auto
            ultimately have "outcome_ok sp (walk_chain env f req skip registry reqs eligible ids (Some (ce_Err e)) ?wk)"
              using Cons.IH rest(1) by blast
            then show ?thesis using go \<open>registry_Get registry ident = Inr entry\<close> True call Inl m by auto
          qed
        qed
      qed
    qed
  qed
qed

lemma chain_err_distinct: "chain_err seen ids = None \<Longrightarrow> distinct ids \<and> set ids \<inter> set seen = {}"
  by (induction seen ids rule: chain_err.induct) (auto split: if_splits)

lemma first_capable_ok:
  "first_capable r reqs ids = Inr (ident, entry) \<Longrightarrow> ident \<in> set ids \<and> registry_Get (Some r) ident = Inr entry
    \<and> Satisfies (pe_Capabilities entry) reqs"
  by (induction ids) (auto split: sum.splits if_splits)

lemma resolve_ok:
  assumes "resolveTargetWithEntry r req reqs = Inr (target, entry)"
  shows "registry_Get (Some (mr_registry r)) target = Inr entry" "Satisfies (pe_Capabilities entry) reqs"
    "rp_Eligible (mr_policy r) = [] \<or> target \<in> set (rp_Eligible (mr_policy r))"
  using assms by (auto simp: resolveTargetWithEntry_def Let_def dest: first_capable_ok split: if_splits sum.splits)

definition spec_of :: "('m, 'q) ModelRouter \<Rightarrow> 'q ModelRequest_scheme \<Rightarrow> 'm route_spec" where
  "spec_of r req = \<lparr>rs_Registry = Some (mr_registry r), rs_Reqs = requestRequirements req,
     rs_Eligible = rp_Eligible (mr_policy r), rs_Fallback = mr_fallback r\<rparr>"

lemma route_ok:
  assumes "\<forall>f. mr_fallback r = Some f \<longrightarrow> distinct (fp_Chain f)"
  shows "outcome_ok (spec_of r req) (routeWithAttempts env (Some r) req w)"
proof (cases "resolveTargetWithEntry r req (requestRequirements req)")
  case (Inl e)
  then show ?thesis by (simp add: routeWithAttempts_def Let_def outcome_ok_def walk_ok_def logged_def)
next
  case (Inr te)
  obtain target entry where te: "te = (target, entry)" by (cases te)
  define wk where "wk = \<lparr>wk_Attempts = [], wk_Events = [], wk_World = w\<rparr>"
  have wk: "walk_ok (spec_of r req) wk" "\<forall>a \<in> set (wk_Attempts wk). fell_back (spec_of r req) a"
    "target \<notin> ma_Provider ` set (wk_Attempts wk)"
    by (simp_all add: wk_def walk_ok_def logged_def)
  have cap: "capable (spec_of r req) target"
    using resolve_ok [of r req "requestRequirements req" target entry] Inr te by (auto simp: capable_def spec_of_def)
  note last = outcome_last [OF wk cap]
  obtain res w' where call: "we_Call env (the (pe_Model entry)) req w = (res, w')" by fastforce
  show ?thesis
  proof (cases res)
    case (Inr resp)
    then show ?thesis using \<open>_ = Inr te\<close> te call last(1) by (simp add: routeWithAttempts_def Let_def flip: wk_def)
  next
    case (Inl e)
    show ?thesis
    proof (cases "\<exists>f m. mr_fallback r = Some f \<and> ce_As e = Some m \<and> IsRetryable (Some f) m")
      case False
      then have "routeWithAttempts env (Some r) req w = (Inl (ce_Err e),
          record_attempt target (mq_Model req) ModelAttemptFailed (Some (toModelError (we_Text env) e)) w' wk)"
        using \<open>_ = Inr te\<close> te call Inl
        by (auto simp: routeWithAttempts_def Let_def simp flip: wk_def split: option.split)
      then show ?thesis using last(2) by simp
    next
      case True
      then obtain f m where fm: "mr_fallback r = Some f" "ce_As e = Some m" "IsRetryable (Some f) m" by blast
      define wk' where "wk' = record_attempt target (mq_Model req) ModelAttemptFallback (Some m) w' wk"
      have "routeWithAttempts env (Some r) req w = walk_chain env f req target (Some (mr_registry r)) (requestRequirements req)
          (rp_Eligible (mr_policy r)) (fp_Chain f) None wk'"
        using \<open>_ = Inr te\<close> te call Inl fm
        by (simp add: routeWithAttempts_def walkWithAttempts_def Let_def flip: wk_def wk'_def)
      moreover have "walk_ok (spec_of r req) wk'" unfolding wk'_def by (rule record_walk_ok [OF wk(1,3) cap])
      moreover have "\<forall>a \<in> set (wk_Attempts wk'). fell_back (spec_of r req) a" "ma_Provider ` set (wk_Attempts wk') \<subseteq> {target}"
        using fm by (simp_all add: wk'_def wk_def fell_back_def spec_of_def)
      ultimately show ?thesis using assms fm(1) by (auto simp: spec_of_def intro!: walk_chain_ok)
    qed
  qed
qed

section \<open>The registry's invariant\<close>

definition registry_ok :: "'m ProviderRegistry \<Rightarrow> bool" where
  "registry_ok r \<longleftrightarrow> gm_ok (rg_providers r) \<and> distinct (rg_order r) \<and> (\<forall>k. k \<in> set (rg_order r) \<longleftrightarrow> mget (rg_providers r) k \<noteq> None)
     \<and> (\<forall>k e. mget (rg_providers r) k = Some e \<longrightarrow> pe_ID e = k \<and> k \<noteq> [] \<and> pe_Model e \<noteq> None)"

inductive registered :: "'m ProviderRegistry \<Rightarrow> bool" where
  fresh: "registered NewProviderRegistry"
| register: "registered r \<Longrightarrow> registered (fst (Register e r))"

lemma Register_None:
  assumes "snd (Register e r) = None"
  shows "fst (Register e r) = \<lparr>rg_providers = mset_at (pe_ID e) e (rg_providers r), rg_order = rg_order r @ [pe_ID e]\<rparr>"
    "mget (rg_providers r) (pe_ID e) = None" "pe_ID e \<noteq> []" "pe_Model e \<noteq> None"
  using assms by (auto simp: Register_def ProviderEntry_Validate_def split: option.splits if_splits)

lemma Register_Some: "snd (Register e r) = Some err \<Longrightarrow> fst (Register e r) = r"
  by (auto simp: Register_def split: option.splits if_splits)

lemma Register_ok:
  assumes "registry_ok r"
  shows "registry_ok (fst (Register e r))"
proof (cases "snd (Register e r)")
  case None
  note e = Register_None [OF None]
  have "pe_ID e \<notin> set (rg_order r)" using assms e(2) unfolding registry_ok_def by blast
  then show ?thesis using assms e by (auto simp: registry_ok_def split: if_splits)
next
  case (Some err)
  then show ?thesis using assms by (simp add: Register_Some)
qed

lemma registered_ok: "registered r \<Longrightarrow> registry_ok r"
proof (induction rule: registered.induct)
  case fresh
  then show ?case by (simp add: registry_ok_def NewProviderRegistry_def)
next
  case (register r e)
  show ?case by (rule Register_ok [OF register.IH])
qed

lemma registry_ok_lists:
  assumes "registry_ok r"
  shows "map pe_ID (registry_List (Some r)) = registry_IDs (Some r)" "registry_Len (Some r) = length (rg_order r)"
proof -
  have m: "mget (rg_providers r) k \<noteq> None" "pe_ID (the (mget (rg_providers r) k)) = k" if "k \<in> set (rg_order r)" for k
    using assms that by (auto simp: registry_ok_def)
  have "map pe_ID (List.map_filter (mget (rg_providers r)) ks) = ks" if "set ks \<subseteq> set (rg_order r)" for ks
    using that
  proof (induction ks)
    case (Cons k ks)
    then show ?case using m [of k] by (auto simp: List.map_filter_simps)
  qed (simp add: List.map_filter_simps)
  then show "map pe_ID (registry_List (Some r)) = registry_IDs (Some r)" by (simp add: registry_List_def registry_IDs_def)
  have "set (rg_order r) = set (mkeys (rg_providers r))" using assms by (auto simp: registry_ok_def mkeys_mget)
  moreover have "distinct (mkeys (rg_providers r))" "distinct (rg_order r)" using assms by (simp_all add: registry_ok_def distinct_mkeys)
  ultimately have "length (mkeys (rg_providers r)) = length (rg_order r)" by (metis distinct_card)
  then show "registry_Len (Some r) = length (rg_order r)" by (simp add: registry_Len_def mkeys_def)
qed

section \<open>Responses as streams\<close>

record StreamContentPart =
  sp_Kind :: string
  sp_Text :: string
  sp_ReasoningDetails :: string

record StreamDelta =
  dt_Parts :: "StreamContentPart list"
  dt_Text :: string
  dt_Reasoning :: ModelReasoning
  dt_ToolCall :: "ModelToolCall option"
  dt_StructuredOutput :: string
  dt_FinishReason :: string
  dt_Usage :: ModelUsage
  dt_Accounting :: ModelAccounting
  dt_Err :: "go_error option"

record ModelResponse =
  mp_Message :: Message
  mp_Usage :: ModelUsage
  mp_Accounting :: ModelAccounting
  mp_FinishReason :: string
  mp_Extension :: RawMessage

definition zero_delta :: StreamDelta where
  "zero_delta = \<lparr>dt_Parts = [], dt_Text = [], dt_Reasoning = \<lparr>re_Text = [], re_Details = []\<rparr>, dt_ToolCall = None,
     dt_StructuredOutput = [], dt_FinishReason = [], dt_Usage = zero_usage,
     dt_Accounting = \<lparr>ac_ProviderRequestID = [], ac_ServiceTier = [], ac_Region = [], ac_Costs = []\<rparr>, dt_Err = None\<rparr>"

definition IsTerminal :: "StreamDelta \<Rightarrow> bool" where
  "IsTerminal d \<longleftrightarrow> dt_FinishReason d \<noteq> [] \<or> dt_Err d \<noteq> None"

definition FinishReasonUnspecified :: string where "FinishReasonUnspecified = ''unspecified''"

text \<open>The deltas of \<^verbatim>\<open>responseToStreamReader\<close>.\<close>

definition response_deltas :: "ModelResponse \<Rightarrow> StreamDelta list" where
  "response_deltas resp = (let m = mp_Message resp in
     map (\<lambda>call. zero_delta\<lparr>dt_ToolCall := Some call\<rparr>) (m_ToolCalls m)
     @ (if m_StructuredOutput m \<noteq> [] then [zero_delta\<lparr>dt_StructuredOutput := m_StructuredOutput m\<rparr>]
        else if m_Content m \<noteq> [] then [zero_delta\<lparr>dt_Text := m_Content m\<rparr>] else [])
     @ [zero_delta\<lparr>dt_FinishReason := (if mp_FinishReason resp = [] then FinishReasonUnspecified else mp_FinishReason resp),
          dt_Usage := mp_Usage resp, dt_Accounting := Accounting_Clone (mp_Accounting resp)\<rparr>])"

text \<open>A reader: what is left of the deltas, and the latch of \<^verbatim>\<open>StreamReaderFunc\<close>. \<open>None\<close> is \<^verbatim>\<open>io.EOF\<close>.\<close>

record StreamReader =
  sr_Deltas :: "StreamDelta list"
  sr_Terminal :: bool

definition responseToStreamReader :: "ModelResponse \<Rightarrow> StreamReader" where
  "responseToStreamReader resp = \<lparr>sr_Deltas = response_deltas resp, sr_Terminal = False\<rparr>"

definition reader_Next :: "StreamReader \<Rightarrow> StreamDelta option \<times> StreamReader" where
  "reader_Next r = (if sr_Terminal r then (None, r) else (case sr_Deltas r of
     [] \<Rightarrow> (None, r\<lparr>sr_Terminal := True\<rparr>)
   | d # ds \<Rightarrow> (Some d, \<lparr>sr_Deltas = ds, sr_Terminal = IsTerminal d\<rparr>)))"

fun drain :: "nat \<Rightarrow> StreamReader \<Rightarrow> StreamDelta option list" where
  "drain 0 r = []"
| "drain (Suc n) r = (case reader_Next r of (d, r') \<Rightarrow> d # drain n r')"

lemma drain_terminal: "sr_Terminal r \<Longrightarrow> drain n r = replicate n None"
  by (induction n) (simp_all add: reader_Next_def)

lemma drain_eq:
  "list_all (\<lambda>d. \<not> IsTerminal d) ds \<Longrightarrow> IsTerminal t \<Longrightarrow>
    drain (Suc (length ds) + n) \<lparr>sr_Deltas = ds @ [t], sr_Terminal = False\<rparr> = map Some (ds @ [t]) @ replicate n None"
  by (induction ds) (simp_all add: reader_Next_def drain_terminal)

lemma zero_delta_open: "\<not> IsTerminal (zero_delta\<lparr>dt_ToolCall := c\<rparr>)" "\<not> IsTerminal (zero_delta\<lparr>dt_StructuredOutput := t\<rparr>)"
  "\<not> IsTerminal (zero_delta\<lparr>dt_Text := t\<rparr>)"
  by (simp_all add: IsTerminal_def zero_delta_def)

section \<open>Generating and streaming\<close>

text \<open>A provider: generating, and streaming when it supports it. The reader of a provider that streams is its own; a
  provider that only generates gets the reader of \<^verbatim>\<open>responseToStreamReader\<close>.\<close>

record ('q, 'x, 'w) adapter =
  ad_Generate :: "'q ModelRequest_scheme \<Rightarrow> 'w \<Rightarrow> (call_error + ModelResponse) \<times> 'w"
  ad_Stream :: "('q ModelRequest_scheme \<Rightarrow> 'w \<Rightarrow> (call_error + 'x) \<times> 'w) option"

definition generate_call :: "(('q, 'x, 'w) adapter, 'q, ModelResponse, 'w) provider_call" where
  "generate_call ad = ad_Generate ad"

definition stream_call :: "(('q, 'x, 'w) adapter, 'q, 'x + StreamReader, 'w) provider_call" where
  "stream_call ad req w = (case ad_Stream ad of
     Some f \<Rightarrow> (case f req w of (res, w') \<Rightarrow> (map_sum id Inl res, w'))
   | None \<Rightarrow> (case ad_Generate ad req w of (res, w') \<Rightarrow> (map_sum id (\<lambda>resp. Inr (responseToStreamReader resp)) res, w')))"

definition generateWithAttempts :: "('w \<Rightarrow> go_error option) \<Rightarrow> (go_error \<Rightarrow> string) \<Rightarrow> (('q, 'x, 'w) adapter, 'q) ModelRouter option
    \<Rightarrow> 'q ModelRequest_scheme \<Rightarrow> 'w \<Rightarrow> (go_error + ModelResponse) \<times> 'w walk" where
  "generateWithAttempts ctx_err text_of = routeWithAttempts \<lparr>we_Call = generate_call, we_CtxErr = ctx_err, we_Text = text_of\<rparr>"

definition streamWithAttempts :: "('w \<Rightarrow> go_error option) \<Rightarrow> (go_error \<Rightarrow> string) \<Rightarrow> (('q, 'x, 'w) adapter, 'q) ModelRouter option
    \<Rightarrow> 'q ModelRequest_scheme \<Rightarrow> 'w \<Rightarrow> (go_error + ('x + StreamReader)) \<times> 'w walk" where
  "streamWithAttempts ctx_err text_of = routeWithAttempts \<lparr>we_Call = stream_call, we_CtxErr = ctx_err, we_Text = text_of\<rparr>"

section \<open>Properties\<close>


text \<open>Two providers, of which the first is always rate limited.\<close>

definition demo_response :: ModelResponse where
  "demo_response = \<lparr>mp_Message = \<lparr>m_Role = RoleAssistant, m_Content = ''hi'', m_ContentParts = [], m_Name = [], m_ToolCallID = [],
       m_ToolCalls = [], m_StructuredOutput = [], m_Reasoning = \<lparr>re_Text = [], re_Details = []\<rparr>\<rparr>,
     mp_Usage = zero_usage, mp_Accounting = \<lparr>ac_ProviderRequestID = [], ac_ServiceTier = [], ac_Region = [], ac_Costs = []\<rparr>,
     mp_FinishReason = ''stop'', mp_Extension = None\<rparr>"

definition rate_limited :: ModelError where
  "rate_limited = \<lparr>me_Kind = ''rate_limited'', me_Provider = ''a'', me_Code = [], me_StatusCode = 429, me_RetryAfter = 0,
     me_Message = ''slow down'', me_Extension = None, me_Err = None\<rparr>"

definition demo_entry :: "string \<Rightarrow> call_error + ModelResponse \<Rightarrow> (unit, unit, nat) adapter ProviderEntry" where
  "demo_entry ident res = \<lparr>pe_ID = ident, pe_Model = Some \<lparr>ad_Generate = \<lambda>_ n. (res, Suc n), ad_Stream = None\<rparr>,
     pe_Capabilities = \<lparr>pc_SupportsTools = False, pc_SupportsStructuredOutput = False, pc_SupportsStreaming = False\<rparr>\<rparr>"

definition demo_registry :: "(unit, unit, nat) adapter ProviderRegistry" where
  "demo_registry = fst (Register (demo_entry ''b'' (Inr demo_response))
     (fst (Register (demo_entry ''a'' (Inl \<lparr>ce_Err = Errorf ''slow down'' [], ce_As = Some rate_limited\<rparr>)) NewProviderRegistry)))"

definition demo_router :: "((unit, unit, nat) adapter, unit) ModelRouter" where
  "demo_router = \<lparr>mr_registry = demo_registry, mr_policy = \<lparr>rp_Primary = ''a'', rp_Eligible = [], rp_Predicate = None\<rparr>,
     mr_fallback = Some \<lparr>fp_Chain = [''a'', ''b''], fp_Retryable = None\<rparr>\<rparr>"

lemmas demo_defs = mget_def mset_at_def demo_router_def demo_registry_def demo_entry_def Register_def NewProviderRegistry_def ProviderEntry_Validate_def

lemma demo_router_new: "NewModelRouter (Some demo_registry) (mr_policy demo_router) (mr_fallback demo_router) = Inr demo_router"
  by (simp add: NewModelRouter_def demo_defs registry_Len_def FallbackPolicy_Validate_def)


text \<open>C16 registry_well_formed: in every registry built by registrations, each entry that \<^verbatim>\<open>Get\<close> returns carries the ID it is
  found under and an adapter, \<^verbatim>\<open>IDs\<close>, \<^verbatim>\<open>List\<close> and \<^verbatim>\<open>Len\<close> agree and hold each provider once in registration
  order; a refused registration changes nothing.\<close>

theorem registry_well_formed:
  assumes "registered r"
  shows "(\<forall>k e. registry_Get (Some r) k = Inr e \<longrightarrow> pe_ID e = k \<and> pe_Model e \<noteq> None)
    \<and> map pe_ID (registry_List (Some r)) = registry_IDs (Some r) \<and> distinct (registry_IDs (Some r))
    \<and> registry_Len (Some r) = length (registry_IDs (Some r))
    \<and> (case Register e r of (r', None) \<Rightarrow> registry_IDs (Some r') = registry_IDs (Some r) @ [pe_ID e] \<and> registry_Get (Some r') (pe_ID e) = Inr e
       | (r', Some _) \<Rightarrow> r' = r)"
proof -
  note ok = registered_ok [OF assms]
  have "case Register e r of (r', None) \<Rightarrow> registry_IDs (Some r') = registry_IDs (Some r) @ [pe_ID e] \<and> registry_Get (Some r') (pe_ID e) = Inr e
       | (r', Some _) \<Rightarrow> r' = r"
    using Register_None(1) [of e r] Register_Some [of e r]
    by (cases "Register e r"; cases "snd (Register e r)") (auto simp: registry_IDs_def registry_Get_def)
  with ok registry_ok_lists [OF ok] show ?thesis
    by (auto simp: registry_ok_def registry_IDs_def registry_Get_def split: option.splits)
qed

theorem registry_well_formed_witness:
  "registry_IDs (Some demo_registry) = [''a'', ''b''] \<and> registry_Len (Some demo_registry) = 2
   \<and> snd (Register (demo_entry ''a'' (Inr demo_response)) demo_registry) \<noteq> None
   \<and> fst (Register (demo_entry ''a'' (Inr demo_response)) demo_registry) = demo_registry"
proof -
  have r: "registered demo_registry" unfolding demo_registry_def by (intro registered.intros)
  have ids: "registry_IDs (Some demo_registry) = [''a'', ''b'']" by (simp add: demo_defs registry_IDs_def)
  have dup: "snd (Register (demo_entry ''a'' (Inr demo_response)) demo_registry) \<noteq> None" by (simp add: demo_defs)
  show ?thesis using registry_well_formed [OF r, of "demo_entry ''a'' (Inr demo_response)"] ids dup
    by (auto split: prod.splits option.splits)
qed


text \<open>A response may carry text and structured output together, but of those the reader yields the structured output only,
  and never the reasoning.\<close>

lemma stream_reader_drops:
  "m_StructuredOutput (mp_Message resp) \<noteq> [] \<Longrightarrow> \<forall>d \<in> set (response_deltas resp). dt_Text d = []"
  "\<forall>d \<in> set (response_deltas resp). ModelReasoning_IsZero (dt_Reasoning d)"
  by (auto simp: response_deltas_def Let_def zero_delta_def ModelReasoning_IsZero_def)

text \<open>The predicate's choice is refused outside the eligible set.\<close>

lemma predicate_bound_by_eligible:
  "rp_Predicate (mr_policy r) = Some f \<Longrightarrow> f req \<noteq> [] \<Longrightarrow> rp_Eligible (mr_policy r) \<noteq> [] \<Longrightarrow> f req \<notin> set (rp_Eligible (mr_policy r))
    \<Longrightarrow> resolveTargetWithEntry r req reqs = Inl (Errorf ''lebro: predicate returned provider %q not in eligible set'' [f req])"
  by (simp add: resolveTargetWithEntry_def Let_def)

end
