(* ===== verification/Store_Guard.thy ===== *)
theory Store_Guard
  imports Memory_Store
begin

text \<open>
  \<^verbatim>\<open>storage_guard.go\<close>: \<^verbatim>\<open>PolicyStore\<close> authorizes every repository operation before it
  delegates, and holds it to the verified persistence scope of the context when there is one. Each guarded
  write is its check, \<open>guard_write\<close>, which yields the operation to delegate, followed by the inner
  operation; each guarded read is a definition of its own. The theorems say what isolation this gives
  between scopes.
\<close>

section \<open>Scopes\<close>

definition scope_of :: "string \<Rightarrow> string \<Rightarrow> RuntimeScope" where
  "scope_of namespace owner = \<lparr>sc_Namespace = namespace, sc_OwnerID = owner\<rparr>"

definition policyScope :: "Context \<Rightarrow> RuntimeScope \<Rightarrow> RuntimeScope result" where
  "policyScope ctx claimed = (case RuntimeScopeFromContext ctx of
     Some verified \<Rightarrow> if verified \<noteq> claimed
       then Inl (Errorf ''lebro: record scope does not match verified runtime scope'' []) else Inr verified
   | None \<Rightarrow> Inr claimed)"

definition policyFilterScope :: "Context \<Rightarrow> RuntimeScope \<Rightarrow> RuntimeScope result" where
  "policyFilterScope ctx claimed = (case RuntimeScopeFromContext ctx of
     Some verified \<Rightarrow>
       if (sc_Namespace claimed \<noteq> [] \<and> sc_Namespace claimed \<noteq> sc_Namespace verified)
          \<or> (sc_OwnerID claimed \<noteq> [] \<and> sc_OwnerID claimed \<noteq> sc_OwnerID verified)
       then Inl (Errorf ''lebro: filter scope does not match verified runtime scope'' []) else Inr verified
   | None \<Rightarrow> Inr claimed)"

definition scoped_authorize :: "Context \<Rightarrow> Policy \<Rightarrow> string \<Rightarrow> string \<Rightarrow> string \<Rightarrow> RuntimeScope \<Rightarrow> go_error option" where
  "scoped_authorize ctx policy action kind ident claimed = (case policyScope ctx claimed of Inl e \<Rightarrow> Some e
     | Inr scope \<Rightarrow> authorize ctx policy action (resource kind ident (sc_Namespace scope) (sc_OwnerID scope)))"

abbreviation thread_scope :: "ThreadRecord \<Rightarrow> RuntimeScope" where
  "thread_scope v \<equiv> scope_of (th_Namespace v) (th_OwnerID v)"

abbreviation run_scope :: "WorkflowRunRecord \<Rightarrow> RuntimeScope" where
  "run_scope v \<equiv> scope_of (wr_Namespace v) (wr_OwnerID v)"

abbreviation schedule_scope :: "ScheduleRecord \<Rightarrow> RuntimeScope" where
  "schedule_scope v \<equiv> scope_of (sd_Namespace v) (sd_OwnerID v)"

abbreviation fact_scope :: "WorkingMemoryFact \<Rightarrow> RuntimeScope" where
  "fact_scope v \<equiv> scope_of (wm_Namespace v) (wm_OwnerID v)"

section \<open>Guarded writes\<close>

definition guard_UpsertFact :: "Context \<Rightarrow> Policy \<Rightarrow> WorkingMemoryFact \<Rightarrow> go_error option" where
  "guard_UpsertFact ctx policy v =
     scoped_authorize ctx policy ActionStorageWrite ResourceKindWorkingMemory (wm_Key v) (fact_scope v)"

definition guard_DeleteFact :: "Context \<Rightarrow> Policy \<Rightarrow> string \<Rightarrow> string \<Rightarrow> string \<Rightarrow> go_error option" where
  "guard_DeleteFact ctx policy namespace owner key =
     scoped_authorize ctx policy ActionStorageWrite ResourceKindWorkingMemory key (scope_of namespace owner)"

definition guard_ClearFacts :: "Context \<Rightarrow> Policy \<Rightarrow> string \<Rightarrow> string \<Rightarrow> go_error option" where
  "guard_ClearFacts ctx policy namespace owner = (case policyScope ctx (scope_of namespace owner) of Inl e \<Rightarrow> Some e
     | Inr scope \<Rightarrow> authorize ctx policy ActionStorageWrite
         (resource ResourceKindWorkingMemory (sc_OwnerID scope) (sc_Namespace scope) (sc_OwnerID scope)))"

definition guard_CreateThread :: "Context \<Rightarrow> Policy \<Rightarrow> ThreadRecord \<Rightarrow> go_error option" where
  "guard_CreateThread ctx policy v =
     scoped_authorize ctx policy ActionStorageWrite ResourceKindThread (th_ID v) (thread_scope v)"

definition guard_UpdateThread :: "Context \<Rightarrow> Policy \<Rightarrow> memoryState \<Rightarrow> ThreadRecord \<Rightarrow> go_error option" where
  "guard_UpdateThread ctx policy s v = first_err [
     scoped_authorize ctx policy ActionStorageWrite ResourceKindThread (th_ID v) (thread_scope v),
     (case getThread ctx s (th_ID v) of Inl e \<Rightarrow> Some e
      | Inr stored \<Rightarrow> chk (th_Namespace stored \<noteq> th_Namespace v \<or> th_OwnerID stored \<noteq> th_OwnerID v)
          (Errorf ''lebro: thread scope is immutable'' []))]"

definition authorizeThread :: "Context \<Rightarrow> Policy \<Rightarrow> memoryState \<Rightarrow> string \<Rightarrow> string \<Rightarrow> go_error option" where
  "authorizeThread ctx policy s action ident = (case RuntimeScopeFromContext ctx of
     None \<Rightarrow> authorize ctx policy action (resource ResourceKindMessage ident [] [])
   | Some _ \<Rightarrow> (case getThread ctx s ident of Inl e \<Rightarrow> Some e
       | Inr thread \<Rightarrow> scoped_authorize ctx policy action ResourceKindMessage ident (thread_scope thread)))"

text \<open>The loop over a batch authorizes each distinct thread, in first-seen order.\<close>

fun guard_batch :: "Context \<Rightarrow> Policy \<Rightarrow> memoryState \<Rightarrow> string list \<Rightarrow> MessageRecord list \<Rightarrow> go_error option" where
  "guard_batch ctx policy s seen [] = None"
| "guard_batch ctx policy s seen (v # vs) =
     (if mr_ThreadID v \<in> set seen then guard_batch ctx policy s seen vs
      else case authorizeThread ctx policy s ActionStorageWrite (mr_ThreadID v) of Some e \<Rightarrow> Some e
        | None \<Rightarrow> guard_batch ctx policy s (mr_ThreadID v # seen) vs)"

definition guard_SaveWorkflowRun :: "Context \<Rightarrow> Policy \<Rightarrow> memoryState \<Rightarrow> WorkflowRunRecord \<Rightarrow> go_error option" where
  "guard_SaveWorkflowRun ctx policy s v = first_err [
     scoped_authorize ctx policy ActionStorageWrite ResourceKindWorkflowRun (wr_ID v) (run_scope v),
     (case getWorkflowRun ctx s (wr_ID v) of
        Inr stored \<Rightarrow> chk (wr_Namespace stored \<noteq> wr_Namespace v \<or> wr_OwnerID stored \<noteq> wr_OwnerID v)
          (Errorf ''lebro: workflow run scope is immutable'' [])
      | Inl e \<Rightarrow> chk (\<not> errors_Is e ErrNotFound) e)]"

definition authorizeRun :: "Context \<Rightarrow> Policy \<Rightarrow> memoryState \<Rightarrow> string \<Rightarrow> string \<Rightarrow> go_error option" where
  "authorizeRun ctx policy s action ident = (case RuntimeScopeFromContext ctx of
     None \<Rightarrow> authorize ctx policy action (resource ResourceKindWorkflowSnapshot ident [] [])
   | Some _ \<Rightarrow> (case getWorkflowRun ctx s ident of Inl e \<Rightarrow> Some e
       | Inr run \<Rightarrow> scoped_authorize ctx policy action ResourceKindWorkflowSnapshot ident (run_scope run)))"

definition guard_SaveSchedule :: "Context \<Rightarrow> Policy \<Rightarrow> memoryState \<Rightarrow> ScheduleRecord \<Rightarrow> go_error option" where
  "guard_SaveSchedule ctx policy s v = first_err [
     scoped_authorize ctx policy ActionStorageWrite ResourceKindSchedule (sd_ID v) (schedule_scope v),
     (case getSchedule ctx s (sd_ID v) of
        Inr stored \<Rightarrow> chk (sd_Namespace stored \<noteq> sd_Namespace v \<or> sd_OwnerID stored \<noteq> sd_OwnerID v)
          (Errorf ''lebro: schedule scope is immutable'' [])
      | Inl e \<Rightarrow> chk (\<not> errors_Is e ErrNotFound) e)]"

definition guard_DeleteSchedule :: "Context \<Rightarrow> Policy \<Rightarrow> string \<Rightarrow> go_error option" where
  "guard_DeleteSchedule ctx policy ident =
     authorize ctx policy ActionStorageWrite (resource ResourceKindSchedule ident [] [])"

definition authorizeSchedule :: "Context \<Rightarrow> Policy \<Rightarrow> memoryState \<Rightarrow> string \<Rightarrow> string \<Rightarrow> go_error option" where
  "authorizeSchedule ctx policy s action ident = (case RuntimeScopeFromContext ctx of
     None \<Rightarrow> authorize ctx policy action (resource ResourceKindSchedule ident [] [])
   | Some _ \<Rightarrow> (case getSchedule ctx s ident of Inl e \<Rightarrow> Some e
       | Inr sched \<Rightarrow> scoped_authorize ctx policy action ResourceKindSchedule ident (schedule_scope sched)))"

definition guard_SaveExecution ::
  "Context \<Rightarrow> Policy \<Rightarrow> memoryState \<Rightarrow> ScheduleExecutionRecord \<Rightarrow> ScheduleExecutionRecord result" where
  "guard_SaveExecution ctx policy s v = (case authorizeSchedule ctx policy s ActionStorageWrite (se_ScheduleID v) of
     Some e \<Rightarrow> Inl e
   | None \<Rightarrow> (case getSchedule ctx s (se_ScheduleID v) of Inl e \<Rightarrow> Inl e
       | Inr sched \<Rightarrow>
           if se_Namespace v = [] \<and> se_OwnerID v = []
           then Inr (v\<lparr>se_Namespace := sd_Namespace sched, se_OwnerID := sd_OwnerID sched\<rparr>)
           else if se_Namespace v \<noteq> sd_Namespace sched \<or> se_OwnerID v \<noteq> sd_OwnerID sched
           then Inl (Errorf ''lebro: schedule execution scope must match its schedule'' [])
           else Inr v))"

fun guard_write :: "Context \<Rightarrow> Policy \<Rightarrow> memoryState \<Rightarrow> repo_op \<Rightarrow> repo_op result" where
  "guard_write ctx policy s (CreateThread v) = ret_if_ok (guard_CreateThread ctx policy v) (CreateThread v)"
| "guard_write ctx policy s (UpdateThread v) = ret_if_ok (guard_UpdateThread ctx policy s v) (UpdateThread v)"
| "guard_write ctx policy s (AppendMessages vs) = ret_if_ok (guard_batch ctx policy s [] vs) (AppendMessages vs)"
| "guard_write ctx policy s (UpdateMessages vs) = ret_if_ok (guard_batch ctx policy s [] vs) (UpdateMessages vs)"
| "guard_write ctx policy s (DeleteMessages ident ids) =
     ret_if_ok (authorizeThread ctx policy s ActionStorageWrite ident) (DeleteMessages ident ids)"
| "guard_write ctx policy s (SaveWorkflowRun v) = ret_if_ok (guard_SaveWorkflowRun ctx policy s v) (SaveWorkflowRun v)"
| "guard_write ctx policy s (SaveWorkflowSnapshot v) =
     ret_if_ok (authorizeRun ctx policy s ActionStorageWrite (sn_RunID v)) (SaveWorkflowSnapshot v)"
| "guard_write ctx policy s (SaveSchedule v) = ret_if_ok (guard_SaveSchedule ctx policy s v) (SaveSchedule v)"
| "guard_write ctx policy s (DeleteSchedule ident) = ret_if_ok (guard_DeleteSchedule ctx policy ident) (DeleteSchedule ident)"
| "guard_write ctx policy s (SaveScheduleExecution v) = map_sum id SaveScheduleExecution (guard_SaveExecution ctx policy s v)"
| "guard_write ctx policy s (UpsertWorkingMemoryFact v e) = ret_if_ok (guard_UpsertFact ctx policy v) (UpsertWorkingMemoryFact v e)"
| "guard_write ctx policy s (DeleteWorkingMemoryFact ns ow k e) =
     ret_if_ok (guard_DeleteFact ctx policy ns ow k) (DeleteWorkingMemoryFact ns ow k e)"
| "guard_write ctx policy s (ClearWorkingMemory ns ow) = ret_if_ok (guard_ClearFacts ctx policy ns ow) (ClearWorkingMemory ns ow)"

definition guarded_exec :: "Context \<Rightarrow> Policy \<Rightarrow> repo_op \<Rightarrow> memoryState \<Rightarrow> outcome" where
  "guarded_exec ctx policy rop s = (case guard_write ctx policy s rop of Inl e \<Rightarrow> (s, Some e)
     | Inr rop' \<Rightarrow> repo_exec ctx rop' s)"

section \<open>Guarded reads\<close>

definition and_then :: "go_error option \<Rightarrow> 'a result \<Rightarrow> 'a result" where
  "and_then c r = (case c of Some e \<Rightarrow> Inl e | None \<Rightarrow> r)"

definition guarded_GetThread :: "Context \<Rightarrow> Policy \<Rightarrow> memoryState \<Rightarrow> string \<Rightarrow> ThreadRecord result" where
  "guarded_GetThread ctx policy s ident = (case RuntimeScopeFromContext ctx of
     None \<Rightarrow> and_then (authorize ctx policy ActionStorageRead (resource ResourceKindThread ident [] [])) (getThread ctx s ident)
   | Some _ \<Rightarrow> (case getThread ctx s ident of Inl e \<Rightarrow> Inl e
       | Inr v \<Rightarrow> (case policyScope ctx (thread_scope v) of Inl _ \<Rightarrow> Inl ErrNotFound
           | Inr scope \<Rightarrow> and_then (authorize ctx policy ActionStorageRead
               (resource ResourceKindThread ident (sc_Namespace scope) (sc_OwnerID scope))) (Inr v))))"

definition guarded_ListMessages ::
  "Context \<Rightarrow> Policy \<Rightarrow> memoryState \<Rightarrow> string \<Rightarrow> PageRequest \<Rightarrow> MessageRecord Page result" where
  "guarded_ListMessages ctx policy s ident page =
     and_then (authorizeThread ctx policy s ActionStorageRead ident) (listMessages ctx s ident page)"

definition guarded_GetWorkflowRun :: "Context \<Rightarrow> Policy \<Rightarrow> memoryState \<Rightarrow> string \<Rightarrow> WorkflowRunRecord result" where
  "guarded_GetWorkflowRun ctx policy s ident =
     and_then (authorize ctx policy ActionStorageRead (resource ResourceKindWorkflowRun ident [] [])) (getWorkflowRun ctx s ident)"

definition guarded_ListWorkflowRuns ::
  "Context \<Rightarrow> Policy \<Rightarrow> memoryState \<Rightarrow> WorkflowRunFilter \<Rightarrow> PageRequest \<Rightarrow> WorkflowRunRecord Page result" where
  "guarded_ListWorkflowRuns ctx policy s flt page =
     (case policyFilterScope ctx (scope_of (rf_Namespace flt) (rf_OwnerID flt)) of Inl e \<Rightarrow> Inl e
      | Inr scope \<Rightarrow> and_then (authorize ctx policy ActionStorageRead
            (resource ResourceKindWorkflowRun (rf_WorkflowID flt) (sc_Namespace scope) (sc_OwnerID scope)))
          (listWorkflowRuns ctx s (flt\<lparr>rf_Namespace := sc_Namespace scope, rf_OwnerID := sc_OwnerID scope\<rparr>) page))"

definition guarded_ListWorkflowSnapshots ::
  "Context \<Rightarrow> Policy \<Rightarrow> memoryState \<Rightarrow> string \<Rightarrow> PageRequest \<Rightarrow> WorkflowSnapshotRecord Page result" where
  "guarded_ListWorkflowSnapshots ctx policy s ident page =
     and_then (authorizeRun ctx policy s ActionStorageRead ident) (listWorkflowSnapshots ctx s ident page)"

definition guarded_GetSchedule :: "Context \<Rightarrow> Policy \<Rightarrow> memoryState \<Rightarrow> string \<Rightarrow> ScheduleRecord result" where
  "guarded_GetSchedule ctx policy s ident = (case RuntimeScopeFromContext ctx of
     Some _ \<Rightarrow> (case getSchedule ctx s ident of Inl e \<Rightarrow> Inl e
       | Inr v \<Rightarrow> (case policyScope ctx (schedule_scope v) of Inl _ \<Rightarrow> Inl ErrNotFound
           | Inr scope \<Rightarrow> and_then (authorize ctx policy ActionStorageRead
               (resource ResourceKindSchedule ident (sc_Namespace scope) (sc_OwnerID scope))) (Inr v)))
   | None \<Rightarrow> and_then (authorize ctx policy ActionStorageRead (resource ResourceKindSchedule ident [] [])) (getSchedule ctx s ident))"

definition guarded_ListSchedules ::
  "Context \<Rightarrow> Policy \<Rightarrow> memoryState \<Rightarrow> ScheduleFilter \<Rightarrow> PageRequest \<Rightarrow> ScheduleRecord Page result" where
  "guarded_ListSchedules ctx policy s flt page =
     (case policyFilterScope ctx (scope_of (sf_Namespace flt) (sf_OwnerID flt)) of Inl e \<Rightarrow> Inl e
      | Inr scope \<Rightarrow> and_then (authorize ctx policy ActionStorageRead
            (resource ResourceKindSchedule (sf_WorkflowID flt) (sc_Namespace scope) (sc_OwnerID scope)))
          (listSchedules ctx s (flt\<lparr>sf_Namespace := sc_Namespace scope, sf_OwnerID := sc_OwnerID scope\<rparr>) page))"

definition guarded_ListScheduleExecutions ::
  "Context \<Rightarrow> Policy \<Rightarrow> memoryState \<Rightarrow> string \<Rightarrow> PageRequest \<Rightarrow> ScheduleExecutionRecord Page result" where
  "guarded_ListScheduleExecutions ctx policy s ident page =
     and_then (authorizeSchedule ctx policy s ActionStorageRead ident) (listScheduleExecutions ctx s ident page)"

definition guarded_GetWorkingMemoryFact ::
  "Context \<Rightarrow> Policy \<Rightarrow> memoryState \<Rightarrow> string \<Rightarrow> string \<Rightarrow> string \<Rightarrow> WorkingMemoryFact result" where
  "guarded_GetWorkingMemoryFact ctx policy s namespace owner key =
     and_then (scoped_authorize ctx policy ActionStorageRead ResourceKindWorkingMemory key (scope_of namespace owner))
       (getWorkingMemoryFact ctx s namespace owner key)"

definition guarded_ListWorkingMemoryFacts ::
  "Context \<Rightarrow> Policy \<Rightarrow> memoryState \<Rightarrow> string \<Rightarrow> string \<Rightarrow> PageRequest \<Rightarrow> WorkingMemoryFact Page result" where
  "guarded_ListWorkingMemoryFacts ctx policy s namespace owner page =
     (case policyScope ctx (scope_of namespace owner) of Inl e \<Rightarrow> Inl e
      | Inr scope \<Rightarrow> and_then (authorize ctx policy ActionStorageRead
            (resource ResourceKindWorkingMemory (sc_OwnerID scope) (sc_Namespace scope) (sc_OwnerID scope)))
          (listWorkingMemoryFacts ctx s namespace owner page))"

fun guarded_read :: "Context \<Rightarrow> Policy \<Rightarrow> memoryState \<Rightarrow> read_op \<Rightarrow> read_value result" where
  "guarded_read ctx policy s (GetThread ident) = map_sum id ThreadValue (guarded_GetThread ctx policy s ident)"
| "guarded_read ctx policy s (ListMessages ident p) = map_sum id MessagePage (guarded_ListMessages ctx policy s ident p)"
| "guarded_read ctx policy s (GetWorkflowRun ident) = map_sum id RunValue (guarded_GetWorkflowRun ctx policy s ident)"
| "guarded_read ctx policy s (ListWorkflowRuns flt p) = map_sum id RunPage (guarded_ListWorkflowRuns ctx policy s flt p)"
| "guarded_read ctx policy s (ListWorkflowSnapshots ident p) =
     map_sum id SnapshotPage (guarded_ListWorkflowSnapshots ctx policy s ident p)"
| "guarded_read ctx policy s (GetSchedule ident) = map_sum id ScheduleValue (guarded_GetSchedule ctx policy s ident)"
| "guarded_read ctx policy s (ListSchedules flt p) = map_sum id SchedulePage (guarded_ListSchedules ctx policy s flt p)"
| "guarded_read ctx policy s (ListScheduleExecutions ident p) =
     map_sum id ExecutionPage (guarded_ListScheduleExecutions ctx policy s ident p)"
| "guarded_read ctx policy s (GetWorkingMemoryFact ns ow k) =
     map_sum id FactValue (guarded_GetWorkingMemoryFact ctx policy s ns ow k)"
| "guarded_read ctx policy s (ListWorkingMemoryFacts ns ow p) =
     map_sum id FactPage (guarded_ListWorkingMemoryFacts ctx policy s ns ow p)"

section \<open>Guarded transactions\<close>

text \<open>
  \<^verbatim>\<open>PolicyStore.Transaction\<close> hands the callback \<^verbatim>\<open>guardedRepositories\<close>: every call and every
  read of the callback passes the same guard, against the state of the transaction.
\<close>

datatype guarded_prog =
    GReturn "go_error option"
  | GCall repo_op "go_error option \<Rightarrow> guarded_prog"
  | GRead read_op "read_value result \<Rightarrow> guarded_prog"

primrec guard_prog :: "guarded_prog \<Rightarrow> Context \<Rightarrow> Policy \<Rightarrow> tx_prog" where
  "guard_prog (GReturn r) ctx policy = Return r"
| "guard_prog (GCall rop k) ctx policy = Inspect (\<lambda>s. case guard_write ctx policy s rop of
     Inl e \<Rightarrow> guard_prog (k (Some e)) ctx policy
   | Inr rop' \<Rightarrow> Call (Repo rop') (\<lambda>r. guard_prog (k r) ctx policy))"
| "guard_prog (GRead rd k) ctx policy = Inspect (\<lambda>s. guard_prog (k (guarded_read ctx policy s rd)) ctx policy)"

definition PolicyStore_Transaction ::
  "Context \<Rightarrow> Context \<Rightarrow> Policy \<Rightarrow> guarded_prog \<Rightarrow> MemoryStore \<Rightarrow> MemoryStore \<Rightarrow> MemoryStore \<times> go_error option" where
  "PolicyStore_Transaction ctx ctx' policy fn st st' = Transaction ctx ctx' (guard_prog fn ctx policy) st st'"

section \<open>What a scope owns\<close>

definition owns_thread :: "RuntimeScope \<Rightarrow> memoryState \<Rightarrow> string \<Rightarrow> bool" where
  "owns_thread sc s k = (case mget (threads s) k of None \<Rightarrow> False | Some v \<Rightarrow> thread_scope v = sc)"

definition owns_run :: "RuntimeScope \<Rightarrow> memoryState \<Rightarrow> string \<Rightarrow> bool" where
  "owns_run sc s k = (case mget (runs s) k of None \<Rightarrow> False | Some v \<Rightarrow> run_scope v = sc)"

definition owns_schedule :: "RuntimeScope \<Rightarrow> memoryState \<Rightarrow> string \<Rightarrow> bool" where
  "owns_schedule sc s k = (case mget (schedules s) k of None \<Rightarrow> False | Some v \<Rightarrow> schedule_scope v = sc)"

text \<open>The part of the state a scope owns: its threads, runs, schedules and facts, and their messages,
  snapshots and executions.\<close>

definition restrict :: "RuntimeScope \<Rightarrow> memoryState \<Rightarrow> memoryState" where
  "restrict sc s = s\<lparr>
     threads := filter (\<lambda>(k, v). owns_thread sc s k) (threads s),
     messages := filter (\<lambda>(k, v). owns_thread sc s k) (messages s),
     runs := filter (\<lambda>(k, v). owns_run sc s k) (runs s),
     snapshots := filter (\<lambda>(k, v). owns_run sc s k) (snapshots s),
     snapshotIDs := [],
     schedules := filter (\<lambda>(k, v). owns_schedule sc s k) (schedules s),
     executions := filter (\<lambda>(k, v). owns_schedule sc s k) (executions s),
     executionIDs := [],
     workingMemory := filter (\<lambda>(k, v). fact_scope v = sc) (workingMemory s)\<rparr>"

definition facts_nul_free :: "memoryState \<Rightarrow> bool" where
  "facts_nul_free s = (\<forall>(k, v) \<in> set (workingMemory s). nul_free (wm_Namespace v) \<and> nul_free (wm_OwnerID v))"

section \<open>What a passed guard tells\<close>

lemma policyScope_verified [simp]:
  "cx_Scope ctx = Some sc \<Longrightarrow> policyScope ctx claimed = Inr sc' \<longleftrightarrow> claimed = sc \<and> sc' = sc"
  by (auto simp: policyScope_def RuntimeScopeFromContext_def)

lemma scoped_authorize_None:
  "cx_Scope ctx = Some sc \<Longrightarrow> scoped_authorize ctx policy action kind ident claimed = None \<Longrightarrow> claimed = sc"
  by (auto simp: scoped_authorize_def split: sum.splits)

lemma guard_ClearFacts_None:
  "cx_Scope ctx = Some sc \<Longrightarrow> guard_ClearFacts ctx policy ns ow = None \<Longrightarrow> scope_of ns ow = sc"
  by (auto simp: guard_ClearFacts_def split: sum.splits)

lemma scope_clone [simp]:
  "thread_scope (cloneThreadRecord v) = thread_scope v" "run_scope (cloneWorkflowRunRecord w) = run_scope w"
  "schedule_scope (cloneScheduleRecord u) = schedule_scope u" "fact_scope (cloneWorkingMemoryFact f) = fact_scope f"
  by simp_all

lemma getThread_Inr: "getThread ctx s k = Inr v \<Longrightarrow> \<exists>w. mget (threads s) k = Some w \<and> v = cloneThreadRecord w"
  by (auto simp: getThread_def split: option.splits)

lemma getWorkflowRun_Inr: "getWorkflowRun ctx s k = Inr v \<Longrightarrow> \<exists>w. mget (runs s) k = Some w \<and> v = cloneWorkflowRunRecord w"
  by (auto simp: getWorkflowRun_def split: option.splits)

lemma getSchedule_Inr: "getSchedule ctx s k = Inr v \<Longrightarrow> \<exists>w. mget (schedules s) k = Some w \<and> v = cloneScheduleRecord w"
  by (auto simp: getSchedule_def split: option.splits)

lemma authorizeThread_None:
  "cx_Scope ctx = Some sc \<Longrightarrow> authorizeThread ctx policy s action k = None \<Longrightarrow> owns_thread sc s k"
  by (auto simp: authorizeThread_def RuntimeScopeFromContext_def owns_thread_def
      dest!: scoped_authorize_None getThread_Inr split: sum.splits)

lemma authorizeRun_None:
  "cx_Scope ctx = Some sc \<Longrightarrow> authorizeRun ctx policy s action k = None \<Longrightarrow> owns_run sc s k"
  by (auto simp: authorizeRun_def RuntimeScopeFromContext_def owns_run_def
      dest!: scoped_authorize_None getWorkflowRun_Inr split: sum.splits)

lemma authorizeSchedule_None:
  "cx_Scope ctx = Some sc \<Longrightarrow> authorizeSchedule ctx policy s action k = None \<Longrightarrow> owns_schedule sc s k"
  by (auto simp: authorizeSchedule_def RuntimeScopeFromContext_def owns_schedule_def
      dest!: scoped_authorize_None getSchedule_Inr split: sum.splits)

lemma guard_batch_None:
  assumes "cx_Scope ctx = Some sc"
  shows "guard_batch ctx policy s seen vs = None \<Longrightarrow> (\<forall>t \<in> set seen. owns_thread sc s t)
    \<Longrightarrow> v \<in> set vs \<Longrightarrow> owns_thread sc s (mr_ThreadID v)"
  by (induction vs arbitrary: seen)
     (auto split: if_splits option.splits dest: authorizeThread_None [OF assms])

lemma owns_thread_unique: "owns_thread sc s k \<Longrightarrow> sc' \<noteq> sc \<Longrightarrow> \<not> owns_thread sc' s k"
  by (auto simp: owns_thread_def split: option.splits)

lemma owns_run_unique: "owns_run sc s k \<Longrightarrow> sc' \<noteq> sc \<Longrightarrow> \<not> owns_run sc' s k"
  by (auto simp: owns_run_def split: option.splits)

lemma owns_schedule_unique: "owns_schedule sc s k \<Longrightarrow> sc' \<noteq> sc \<Longrightarrow> \<not> owns_schedule sc' s k"
  by (auto simp: owns_schedule_def split: option.splits)

lemmas owns_unique = owns_thread_unique owns_run_unique owns_schedule_unique

section \<open>Updates outside a scope\<close>

lemma filter_key_mset_at: "\<not> P k \<Longrightarrow> filter (\<lambda>(k, v). P k) (mset_at k v m) = filter (\<lambda>(k, v). P k) m"
  by (induction m) (auto simp: mset_at_def)

lemma filter_val_mset_at:
  "\<not> Q v \<Longrightarrow> (case mget m k of None \<Rightarrow> True | Some w \<Rightarrow> \<not> Q w) \<Longrightarrow>
   filter (\<lambda>(k, v). Q v) (mset_at k v m) = filter (\<lambda>(k, v). Q v) m"
  by (induction m) (auto simp: mset_at_def mget_def)

lemma filter_val_mdel:
  "gm_ok m \<Longrightarrow> (case mget m k of None \<Rightarrow> True | Some w \<Rightarrow> \<not> Q w) \<Longrightarrow> filter (\<lambda>(k, v). Q v) (mdel k m) = filter (\<lambda>(k, v). Q v) m"
proof (induction m)
  case (Cons kv m)
  then show ?case
    by (cases kv, cases "fst kv = k") (auto simp: mdel_def mget_def gm_ok_def delete_id split: option.splits)
qed (simp add: mdel_def)

lemma restrict_set_thread:
  assumes "thread_scope v \<noteq> sc" "\<not> owns_thread sc s k"
  shows "restrict sc (s\<lparr>threads := mset_at k v (threads s)\<rparr>) = restrict sc s"
proof -
  have "owns_thread sc (s\<lparr>threads := mset_at k v (threads s)\<rparr>) = owns_thread sc s"
    using assms by (auto simp: owns_thread_def fun_eq_iff)
  moreover have "owns_run sc (s\<lparr>threads := x\<rparr>) = owns_run sc s" "owns_schedule sc (s\<lparr>threads := x\<rparr>) = owns_schedule sc s" for x
    by (simp_all add: owns_run_def owns_schedule_def fun_eq_iff)
  ultimately show ?thesis using assms(2) by (simp add: restrict_def filter_key_mset_at)
qed

lemma restrict_set_run:
  assumes "run_scope v \<noteq> sc" "\<not> owns_run sc s k"
  shows "restrict sc (s\<lparr>runs := mset_at k v (runs s)\<rparr>) = restrict sc s"
proof -
  have "owns_run sc (s\<lparr>runs := mset_at k v (runs s)\<rparr>) = owns_run sc s"
    using assms by (auto simp: owns_run_def fun_eq_iff)
  moreover have "owns_thread sc (s\<lparr>runs := x\<rparr>) = owns_thread sc s" "owns_schedule sc (s\<lparr>runs := x\<rparr>) = owns_schedule sc s" for x
    by (simp_all add: owns_thread_def owns_schedule_def fun_eq_iff)
  ultimately show ?thesis using assms(2) by (simp add: restrict_def filter_key_mset_at)
qed

lemma restrict_set_schedule:
  assumes "schedule_scope v \<noteq> sc" "\<not> owns_schedule sc s k"
  shows "restrict sc (s\<lparr>schedules := mset_at k v (schedules s)\<rparr>) = restrict sc s"
proof -
  have "owns_schedule sc (s\<lparr>schedules := mset_at k v (schedules s)\<rparr>) = owns_schedule sc s"
    using assms by (auto simp: owns_schedule_def fun_eq_iff)
  moreover have "owns_thread sc (s\<lparr>schedules := x\<rparr>) = owns_thread sc s" "owns_run sc (s\<lparr>schedules := x\<rparr>) = owns_run sc s" for x
    by (simp_all add: owns_thread_def owns_run_def fun_eq_iff)
  ultimately show ?thesis using assms(2) by (simp add: restrict_def filter_key_mset_at)
qed

lemma owns_child_updates [simp]:
  "owns_thread sc (s\<lparr>messages := x1\<rparr>) = owns_thread sc s" "owns_run sc (s\<lparr>messages := x1\<rparr>) = owns_run sc s"
  "owns_schedule sc (s\<lparr>messages := x1\<rparr>) = owns_schedule sc s"
  "owns_thread sc (s\<lparr>snapshots := x2\<rparr>) = owns_thread sc s" "owns_run sc (s\<lparr>snapshots := x2\<rparr>) = owns_run sc s"
  "owns_schedule sc (s\<lparr>snapshots := x2\<rparr>) = owns_schedule sc s"
  "owns_thread sc (s\<lparr>snapshotIDs := x3\<rparr>) = owns_thread sc s" "owns_run sc (s\<lparr>snapshotIDs := x3\<rparr>) = owns_run sc s"
  "owns_schedule sc (s\<lparr>snapshotIDs := x3\<rparr>) = owns_schedule sc s"
  "owns_thread sc (s\<lparr>executions := x4\<rparr>) = owns_thread sc s" "owns_run sc (s\<lparr>executions := x4\<rparr>) = owns_run sc s"
  "owns_schedule sc (s\<lparr>executions := x4\<rparr>) = owns_schedule sc s"
  "owns_thread sc (s\<lparr>executionIDs := x5\<rparr>) = owns_thread sc s" "owns_run sc (s\<lparr>executionIDs := x5\<rparr>) = owns_run sc s"
  "owns_schedule sc (s\<lparr>executionIDs := x5\<rparr>) = owns_schedule sc s"
  "owns_thread sc (s\<lparr>workingMemory := x6\<rparr>) = owns_thread sc s" "owns_run sc (s\<lparr>workingMemory := x6\<rparr>) = owns_run sc s"
  "owns_schedule sc (s\<lparr>workingMemory := x6\<rparr>) = owns_schedule sc s"
  by (simp_all add: owns_thread_def owns_run_def owns_schedule_def fun_eq_iff)

lemma restrict_messages:
  "filter (\<lambda>(k, v). owns_thread sc s k) ms = filter (\<lambda>(k, v). owns_thread sc s k) (messages s) \<Longrightarrow>
   restrict sc (s\<lparr>messages := ms\<rparr>) = restrict sc s"
  by (simp add: restrict_def)

lemma restrict_snapshots:
  "\<not> owns_run sc s k \<Longrightarrow> restrict sc (s\<lparr>snapshots := mset_at k v (snapshots s)\<rparr>) = restrict sc s"
  by (simp add: restrict_def filter_key_mset_at)

lemma restrict_executions:
  "\<not> owns_schedule sc s k \<Longrightarrow> restrict sc (s\<lparr>executions := mset_at k v (executions s)\<rparr>) = restrict sc s"
  by (simp add: restrict_def filter_key_mset_at)

lemma restrict_IDs [simp]:
  "restrict sc (s\<lparr>snapshotIDs := x\<rparr>) = restrict sc s" "restrict sc (s\<lparr>executionIDs := x\<rparr>) = restrict sc s"
  by (simp_all add: restrict_def)

lemma restrict_facts:
  "filter (\<lambda>(k, v). fact_scope v = sc) wm = filter (\<lambda>(k, v). fact_scope v = sc) (workingMemory s) \<Longrightarrow>
   restrict sc (s\<lparr>workingMemory := wm\<rparr>) = restrict sc s"
  by (simp add: restrict_def)

lemma filter_append_one:
  "(\<forall>v \<in> set vs. \<not> P (mr_ThreadID v)) \<Longrightarrow> filter (\<lambda>(k, v). P k) (foldl append_one ms vs) = filter (\<lambda>(k, v). P k) ms"
  by (induction vs arbitrary: ms) (simp_all add: append_one_def filter_key_mset_at)

lemma filter_update_one:
  "(\<forall>v \<in> set vs. \<not> P (mr_ThreadID v)) \<Longrightarrow> filter (\<lambda>(k, v). P k) (foldl update_one ms vs) = filter (\<lambda>(k, v). P k) ms"
  by (induction vs arbitrary: ms) (simp_all add: update_one_def filter_key_mset_at split: option.split)

section \<open>Guarded writes keep other scopes\<close>

lemma fact_at_key:
  assumes "facts_ok (workingMemory s)" "facts_nul_free s" "nul_free (sc_Namespace sc)" "nul_free (sc_OwnerID sc)"
    "scope_of ns ow = sc" "mget (workingMemory s) (workingMemoryMapKey ns ow k) = Some v"
  shows "fact_scope v = sc"
proof -
  have "(workingMemoryMapKey ns ow k, v) \<in> set (workingMemory s)"
    using assms(6) by (simp add: mget_def map_of_SomeD)
  then have nf: "nul_free (wm_Namespace v)" "nul_free (wm_OwnerID v)"
    using assms(2) by (auto simp: facts_nul_free_def)
  have "workingMemoryMapKey ns ow k = workingMemoryMapKey (wm_Namespace v) (wm_OwnerID v) (wm_Key v)"
    using assms(1,6) by (auto simp: facts_ok_def)
  then show ?thesis
    using workingMemoryMapKey_inj [of ns ow "wm_Namespace v" "wm_OwnerID v" k "wm_Key v"] nf assms(3-5)
    by (auto simp: scope_of_def)
qed

lemma create_thread_foreign:
  assumes verified: "cx_Scope ctx = Some sc" and foreign: "sc' \<noteq> sc"
  shows "store_ok s \<Longrightarrow> guard_CreateThread ctx policy v = None \<Longrightarrow> restrict sc' (fst (createThread ctx s v)) = restrict sc' s"
  using foreign
  by (auto simp: createThread_def guard_CreateThread_def owns_thread_def dest!: scoped_authorize_None [OF verified]
      intro!: restrict_set_thread)

lemma update_thread_foreign:
  assumes verified: "cx_Scope ctx = Some sc" and foreign: "sc' \<noteq> sc"
  shows "guard_UpdateThread ctx policy s v = None \<Longrightarrow> restrict sc' (fst (updateThread ctx s v)) = restrict sc' s"
  using foreign
  by (auto simp: updateThread_def guard_UpdateThread_def owns_thread_def scope_of_def split: sum.splits
      dest!: scoped_authorize_None [OF verified] getThread_Inr intro!: restrict_set_thread)

lemma batch_foreign:
  assumes verified: "cx_Scope ctx = Some sc" and foreign: "sc' \<noteq> sc"
  shows "guard_batch ctx policy s [] vs = None \<Longrightarrow> \<forall>v \<in> set vs. \<not> owns_thread sc' s (mr_ThreadID v)"
  using guard_batch_None [OF verified] owns_thread_unique foreign by fastforce

lemma append_messages_foreign:
  assumes verified: "cx_Scope ctx = Some sc" and foreign: "sc' \<noteq> sc"
  shows "guard_batch ctx policy s [] vs = None \<Longrightarrow> restrict sc' (fst (appendMessages ctx s vs)) = restrict sc' s"
  using batch_foreign [OF verified foreign] by (simp add: appendMessages_def restrict_messages filter_append_one)

lemma update_messages_foreign:
  assumes verified: "cx_Scope ctx = Some sc" and foreign: "sc' \<noteq> sc"
  shows "guard_batch ctx policy s [] vs = None \<Longrightarrow> restrict sc' (fst (updateMessages ctx s vs)) = restrict sc' s"
  using batch_foreign [OF verified foreign] by (simp add: updateMessages_def restrict_messages filter_update_one)

lemma delete_messages_foreign:
  assumes verified: "cx_Scope ctx = Some sc" and foreign: "sc' \<noteq> sc"
  shows "authorizeThread ctx policy s action ident = None \<Longrightarrow> restrict sc' (fst (deleteMessages ctx s ident ids)) = restrict sc' s"
  using owns_thread_unique [OF authorizeThread_None [OF verified] foreign]
  by (auto simp: deleteMessages_def filter_key_mset_at split: option.split intro!: restrict_messages)

lemma save_run_foreign:
  assumes verified: "cx_Scope ctx = Some sc" and foreign: "sc' \<noteq> sc"
  shows "guard_SaveWorkflowRun ctx policy s v = None \<Longrightarrow> restrict sc' (fst (saveWorkflowRun ctx s v)) = restrict sc' s"
  using foreign
  by (auto simp: saveWorkflowRun_def guard_SaveWorkflowRun_def owns_run_def scope_of_def getWorkflowRun_def
      split: sum.splits option.splits dest!: scoped_authorize_None [OF verified] intro!: restrict_set_run)

lemma save_schedule_foreign:
  assumes verified: "cx_Scope ctx = Some sc" and foreign: "sc' \<noteq> sc"
  shows "guard_SaveSchedule ctx policy s v = None \<Longrightarrow> restrict sc' (fst (saveSchedule ctx s v)) = restrict sc' s"
  using foreign
  by (auto simp: saveSchedule_def guard_SaveSchedule_def owns_schedule_def scope_of_def getSchedule_def
      split: sum.splits option.splits dest!: scoped_authorize_None [OF verified] intro!: restrict_set_schedule)

lemma save_snapshot_foreign:
  assumes verified: "cx_Scope ctx = Some sc" and foreign: "sc' \<noteq> sc"
  shows "authorizeRun ctx policy s action (sn_RunID v) = None \<Longrightarrow> restrict sc' (fst (saveWorkflowSnapshot ctx s v)) = restrict sc' s"
  using owns_run_unique [OF authorizeRun_None [OF verified] foreign]
  by (auto simp: saveWorkflowSnapshot_def insert_snapshot_def Let_def restrict_snapshots split: option.split)

lemma save_execution_foreign:
  assumes verified: "cx_Scope ctx = Some sc" and foreign: "sc' \<noteq> sc"
  shows "guard_SaveExecution ctx policy s v = Inr w \<Longrightarrow> restrict sc' (fst (saveScheduleExecution ctx s w)) = restrict sc' s"
  using owns_schedule_unique [OF authorizeSchedule_None [OF verified] foreign]
  by (auto simp: guard_SaveExecution_def saveScheduleExecution_def insert_execution_def Let_def restrict_executions
      split: option.splits sum.splits if_splits)

lemma upsert_fact_foreign:
  assumes verified: "cx_Scope ctx = Some sc" and foreign: "sc' \<noteq> sc"
    and facts: "facts_ok (workingMemory s)" "facts_nul_free s" "nul_free (sc_Namespace sc)" "nul_free (sc_OwnerID sc)"
  shows "guard_UpsertFact ctx policy v = None \<Longrightarrow> restrict sc' (fst (upsertWorkingMemoryFact ctx s v e)) = restrict sc' s"
proof -
  assume "guard_UpsertFact ctx policy v = None"
  then have v: "fact_scope v = sc" using scoped_authorize_None [OF verified] by (simp add: guard_UpsertFact_def)
  have old: "case mget (workingMemory s) (workingMemoryMapKey (wm_Namespace v) (wm_OwnerID v) (wm_Key v)) of
      None \<Rightarrow> True | Some w \<Rightarrow> fact_scope w \<noteq> sc'"
    using fact_at_key [OF facts v] foreign by (auto split: option.split)
  show ?thesis
    using v foreign old
    by (auto simp: upsertWorkingMemoryFact_def Let_def split: option.splits intro!: restrict_facts filter_val_mset_at)
qed

lemma delete_fact_foreign:
  assumes verified: "cx_Scope ctx = Some sc" and foreign: "sc' \<noteq> sc"
    and facts: "facts_ok (workingMemory s)" "facts_nul_free s" "nul_free (sc_Namespace sc)" "nul_free (sc_OwnerID sc)"
  shows "guard_DeleteFact ctx policy ns ow k = None \<Longrightarrow> restrict sc' (fst (deleteWorkingMemoryFact ctx s ns ow k e)) = restrict sc' s"
proof -
  assume "guard_DeleteFact ctx policy ns ow k = None"
  then have v: "scope_of ns ow = sc" using scoped_authorize_None [OF verified] by (simp add: guard_DeleteFact_def)
  have old: "case mget (workingMemory s) (workingMemoryMapKey ns ow k) of None \<Rightarrow> True | Some w \<Rightarrow> fact_scope w \<noteq> sc'"
    using fact_at_key [OF facts v] foreign by (auto split: option.split)
  show ?thesis
    using old facts(1)
    by (auto simp: deleteWorkingMemoryFact_def facts_ok_def split: sum.splits intro!: restrict_facts filter_val_mdel)
qed

lemma clear_facts_foreign:
  assumes verified: "cx_Scope ctx = Some sc" and foreign: "sc' \<noteq> sc"
  shows "guard_ClearFacts ctx policy ns ow = None \<Longrightarrow> restrict sc' (fst (clearWorkingMemory ctx s ns ow)) = restrict sc' s"
proof -
  assume "guard_ClearFacts ctx policy ns ow = None"
  then have "scope_of ns ow = sc" by (rule guard_ClearFacts_None [OF verified])
  then have "filter (\<lambda>(k, v). fact_scope v = sc') (filter (\<lambda>(k, v). \<not> (wm_Namespace v = ns \<and> wm_OwnerID v = ow)) m)
      = filter (\<lambda>(k, v). fact_scope v = sc') m" for m :: "(string, WorkingMemoryFact) gomap"
    unfolding filter_filter using foreign by (intro filter_cong) (auto simp: scope_of_def)
  then show ?thesis by (simp add: clearWorkingMemory_def restrict_facts)
qed

lemmas guarded_foreign = create_thread_foreign update_thread_foreign append_messages_foreign update_messages_foreign
  delete_messages_foreign save_run_foreign save_schedule_foreign save_snapshot_foreign save_execution_foreign
  upsert_fact_foreign delete_fact_foreign clear_facts_foreign

fun deletes_schedule :: "repo_op \<Rightarrow> bool" where
  "deletes_schedule (DeleteSchedule ident) = True"
| "deletes_schedule rop = False"

lemma guarded_exec_foreign:
  assumes "cx_Scope ctx = Some sc" "sc' \<noteq> sc" "store_ok s" "facts_nul_free s" "nul_free (sc_Namespace sc)"
    "nul_free (sc_OwnerID sc)" "\<not> deletes_schedule rop"
  shows "restrict sc' (fst (guarded_exec ctx policy rop s)) = restrict sc' s"
  using assms(3-7)
  by (cases rop)
     (auto simp: guarded_exec_def result_err_def store_ok_def guarded_foreign [OF assms(1,2)] map_sum_def
       split: sum.splits)

section \<open>Guarded transactions keep other scopes\<close>

lemma facts_nul_free_mset_at:
  "facts_nul_free s \<Longrightarrow> nul_free (wm_Namespace v) \<Longrightarrow> nul_free (wm_OwnerID v) \<Longrightarrow>
   facts_nul_free (s\<lparr>workingMemory := mset_at k v (workingMemory s)\<rparr>)"
proof -
  have "\<forall>(k, v) \<in> set m. Q v \<Longrightarrow> Q v \<Longrightarrow> \<forall>(k, v) \<in> set (mset_at k v m). Q v" for Q and m :: "(string, WorkingMemoryFact) gomap"
    by (induction m) (auto simp: mset_at_def)
  from this [of "workingMemory s" "\<lambda>v. nul_free (wm_Namespace v) \<and> nul_free (wm_OwnerID v)"]
  show "facts_nul_free s \<Longrightarrow> nul_free (wm_Namespace v) \<Longrightarrow> nul_free (wm_OwnerID v) \<Longrightarrow> ?thesis"
    by (simp add: facts_nul_free_def)
qed

lemma facts_nul_free_other [simp]:
  "facts_nul_free (s\<lparr>threads := x1\<rparr>) = facts_nul_free s" "facts_nul_free (s\<lparr>messages := x2\<rparr>) = facts_nul_free s"
  "facts_nul_free (s\<lparr>runs := x3\<rparr>) = facts_nul_free s" "facts_nul_free (s\<lparr>snapshots := x4\<rparr>) = facts_nul_free s"
  "facts_nul_free (s\<lparr>snapshotIDs := x5\<rparr>) = facts_nul_free s" "facts_nul_free (s\<lparr>schedules := x6\<rparr>) = facts_nul_free s"
  "facts_nul_free (s\<lparr>executions := x7\<rparr>) = facts_nul_free s" "facts_nul_free (s\<lparr>executionIDs := x8\<rparr>) = facts_nul_free s"
  by (simp_all add: facts_nul_free_def)

lemma guarded_exec_nul_free:
  assumes "cx_Scope ctx = Some sc" "nul_free (sc_Namespace sc)" "nul_free (sc_OwnerID sc)" "facts_nul_free s"
  shows "facts_nul_free (fst (guarded_exec ctx policy rop s))"
proof -
  have upsert: "facts_nul_free (fst (upsertWorkingMemoryFact ctx s v e))" if "guard_UpsertFact ctx policy v = None" for v e
  proof -
    have "fact_scope v = sc" using that scoped_authorize_None [OF assms(1)] by (simp add: guard_UpsertFact_def)
    then have "nul_free (wm_Namespace v)" "nul_free (wm_OwnerID v)" using assms(2,3) by (auto simp: scope_of_def)
    then show ?thesis using assms(4) facts_nul_free_mset_at
      by (simp add: upsertWorkingMemoryFact_def Let_def split: option.split)
  qed
  have delete: "facts_nul_free (fst (deleteWorkingMemoryFact ctx s ns ow k e))" for ns ow k e
    using assms(4) by (auto simp: deleteWorkingMemoryFact_def facts_nul_free_def mdel_def AList.delete_eq split: sum.split)
  have clear: "facts_nul_free (fst (clearWorkingMemory ctx s ns ow))" for ns ow
    using assms(4) by (auto simp: clearWorkingMemory_def facts_nul_free_def)
  show ?thesis
    using assms(4) upsert delete clear
    by (cases rop)
       (auto simp: guarded_exec_def result_err_def map_sum_def createThread_def updateThread_def appendMessages_def
          updateMessages_def deleteMessages_def saveWorkflowRun_def saveSchedule_def deleteSchedule_def
          saveWorkflowSnapshot_def insert_snapshot_def saveScheduleExecution_def insert_execution_def Let_def
          split: sum.splits option.splits)
qed

lemma filter_key_map_values: "filter (\<lambda>(k, v). P k) (map_values f m) = map_values f (filter (\<lambda>(k, v). P k) m)"
  by (induction m) (auto simp: map_values_def)

lemma filter_val_map_values:
  "(\<And>v. Q (f v) = Q v) \<Longrightarrow> filter (\<lambda>(k, v). Q v) (map_values f m) = map_values f (filter (\<lambda>(k, v). Q v) m)"
  by (induction m) (auto simp: map_values_def)

lemma restrict_clone: "restrict sc (cloneMemoryState s) = cloneMemoryState (restrict sc s)"
proof -
  have "owns_thread sc (cloneMemoryState s) = owns_thread sc s" "owns_run sc (cloneMemoryState s) = owns_run sc s"
    "owns_schedule sc (cloneMemoryState s) = owns_schedule sc s"
    by (simp_all add: owns_thread_def owns_run_def owns_schedule_def cloneMemoryState_def fun_eq_iff split: option.split)
  then show ?thesis
    by (simp add: restrict_def) (simp add: cloneMemoryState_def filter_key_map_values filter_val_map_values)
qed

primrec no_schedule_deletes :: "guarded_prog \<Rightarrow> bool" where
  "no_schedule_deletes (GReturn r) = True"
| "no_schedule_deletes (GCall rop k) = (\<not> deletes_schedule rop \<and> (\<forall>r. no_schedule_deletes (k r)))"
| "no_schedule_deletes (GRead rd k) = (\<forall>r. no_schedule_deletes (k r))"

text \<open>One guarded call of a callback is one guarded operation on the copy.\<close>

lemma run_guarded_call:
  "run_tx (guard_prog (GCall rop k) ctx policy) ctx tx = (case guarded_exec ctx policy rop (tx_state tx) of
     (s', r) \<Rightarrow> run_tx (guard_prog (k r) ctx policy) ctx
       \<lparr>tx_state = s', dirty = dirty tx \<or> (r = None \<and> sets_dirty (Repo rop))\<rparr>)"
proof -
  have "guard_write ctx policy s rop = Inr rop' \<Longrightarrow> sets_dirty (Repo rop') = sets_dirty (Repo rop)" for s rop'
    by (cases rop) (auto simp: map_sum_def split: sum.splits)
  then show ?thesis
    by (cases tx) (auto simp: guarded_exec_def repositories_exec_def split: sum.splits prod.splits option.splits)
qed

lemma run_guarded_foreign:
  assumes "cx_Scope ctx = Some sc" "sc' \<noteq> sc" "nul_free (sc_Namespace sc)" "nul_free (sc_OwnerID sc)"
  shows "no_schedule_deletes fn \<Longrightarrow> store_ok (tx_state tx) \<Longrightarrow> facts_nul_free (tx_state tx) \<Longrightarrow>
    restrict sc' (tx_state (fst (run_tx (guard_prog fn ctx policy) ctx tx))) = restrict sc' (tx_state tx)"
proof (induction fn arbitrary: tx)
  case (GCall rop k)
  have "guarded_exec ctx policy rop (tx_state tx) = (s', r) \<Longrightarrow> store_ok s'" for s' r
    using GCall.prems(2) repo_exec_ok by (auto simp: guarded_exec_def split: sum.splits) (metis fst_conv)
  with GCall guarded_exec_nul_free [OF assms(1,3,4) GCall.prems(3), of policy rop]
    guarded_exec_foreign [OF assms(1,2) GCall.prems(2,3) assms(3,4), of rop policy]
  show ?case by (simp only: run_guarded_call) (auto simp: range_eqI split: prod.split)
qed (simp_all add: range_eqI)

section \<open>Guarded reads see only the own scope\<close>

lemma mget_filter_key: "mget (filter (\<lambda>(k, v). P k) m) k = (if P k then mget m k else None)"
  by (induction m) (auto simp: mget_def)

lemma mslice_filter_key: "mslice (filter (\<lambda>(k, v). P k) m) k = (if P k then mslice m k else [])"
  by (simp add: mslice_def mget_filter_key)

lemma restrict_sel [simp]:
  "mget (threads (restrict sc s)) k = (if owns_thread sc s k then mget (threads s) k else None)"
  "mslice (messages (restrict sc s)) k = (if owns_thread sc s k then mslice (messages s) k else [])"
  "mget (runs (restrict sc s)) k = (if owns_run sc s k then mget (runs s) k else None)"
  "mslice (snapshots (restrict sc s)) k = (if owns_run sc s k then mslice (snapshots s) k else [])"
  "mget (schedules (restrict sc s)) k = (if owns_schedule sc s k then mget (schedules s) k else None)"
  "mslice (executions (restrict sc s)) k = (if owns_schedule sc s k then mslice (executions s) k else [])"
  by (simp_all add: restrict_def mget_filter_key mslice_filter_key)

lemma and_then_Inr [simp]: "and_then c r = Inr x \<longleftrightarrow> c = None \<and> r = Inr x"
  by (simp add: and_then_def split: option.split)

lemma own_records [simp]:
  "owns_thread sc s k \<Longrightarrow> getThread ctx (restrict sc s) k = getThread ctx s k"
  "owns_run sc s k \<Longrightarrow> getWorkflowRun ctx (restrict sc s) k = getWorkflowRun ctx s k"
  "owns_schedule sc s k \<Longrightarrow> getSchedule ctx (restrict sc s) k = getSchedule ctx s k"
  "owns_thread sc s k \<Longrightarrow> listMessages ctx (restrict sc s) k p = listMessages ctx s k p"
  "owns_run sc s k \<Longrightarrow> listWorkflowSnapshots ctx (restrict sc s) k p = listWorkflowSnapshots ctx s k p"
  "owns_schedule sc s k \<Longrightarrow> listScheduleExecutions ctx (restrict sc s) k p = listScheduleExecutions ctx s k p"
  by (auto simp: getThread_def getWorkflowRun_def getSchedule_def listMessages_def listWorkflowSnapshots_def
      listScheduleExecutions_def split: option.split)

lemma own_guards [simp]:
  "owns_thread sc s k \<Longrightarrow> authorizeThread ctx policy (restrict sc s) action k = authorizeThread ctx policy s action k"
  "owns_run sc s k \<Longrightarrow> authorizeRun ctx policy (restrict sc s) action k = authorizeRun ctx policy s action k"
  "owns_schedule sc s k \<Longrightarrow> authorizeSchedule ctx policy (restrict sc s) action k = authorizeSchedule ctx policy s action k"
  by (simp_all add: authorizeThread_def authorizeRun_def authorizeSchedule_def split: option.split)

lemma insort_key_agree: "\<forall>y \<in> insert x (set ys). f y = g y \<Longrightarrow> insort_key f x ys = insort_key g x ys"
  by (induction ys) auto

lemma sort_key_agree: "\<forall>x \<in> set xs. f x = g x \<Longrightarrow> sort_key f xs = sort_key g xs"
  by (induction xs) (auto intro: insort_key_agree)

text \<open>Listing by sorted keys, restricted to the keys of a scope.\<close>

lemma list_restricted:
  assumes key: "\<And>k. P k \<Longrightarrow> g' k = g k \<and> key' k = key k"
    and sel: "\<And>k v. g k = Some v \<Longrightarrow> M v \<Longrightarrow> P k"
  shows "filter M (List.map_filter g' (sort_key key' (filter P ks))) = filter M (List.map_filter g (sort_key key ks))"
proof -
  have "sort_key key' (filter P ks) = sort_key key (filter P ks)"
    by (rule sort_key_agree) (simp add: key)
  then have *: "sort_key key' (filter P ks) = filter P (sort_key key ks)" by (simp add: filter_sort)
  have "filter M (List.map_filter g' (filter P xs)) = filter M (List.map_filter g xs)" for xs
    by (induction xs) (auto simp: map_filter_simps key split: option.split dest: sel)
  with * show ?thesis by simp
qed

lemma mkeys_filter_key: "mkeys (filter (\<lambda>(k, v). P k) m) = filter P (mkeys m)"
  by (induction m) (auto simp: mkeys_def)

lemma own_runs:
  assumes "sc_Namespace sc \<noteq> []" "sc_OwnerID sc \<noteq> []" "rf_Namespace flt = sc_Namespace sc" "rf_OwnerID flt = sc_OwnerID sc"
  shows "filteredRuns (restrict sc s) flt = filteredRuns s flt"
proof -
  have "mkeys (runs (restrict sc s)) = filter (owns_run sc s) (mkeys (runs s))"
    by (simp add: restrict_def mkeys_filter_key)
  then show ?thesis
    unfolding filteredRuns_def
    by (simp only:) (rule list_restricted,
        use assms in \<open>auto simp: run_sort_key_def owns_run_def runMatchesFilter_def scope_of_def split: option.splits\<close>)
qed

lemma own_schedules:
  assumes "sc_Namespace sc \<noteq> []" "sc_OwnerID sc \<noteq> []" "sf_Namespace flt = sc_Namespace sc" "sf_OwnerID flt = sc_OwnerID sc"
  shows "filteredSchedules (restrict sc s) flt = filteredSchedules s flt"
proof -
  have "mkeys (schedules (restrict sc s)) = filter (owns_schedule sc s) (mkeys (schedules s))"
    by (simp add: restrict_def mkeys_filter_key)
  then show ?thesis
    unfolding filteredSchedules_def
    by (simp only:) (rule list_restricted,
        use assms in \<open>auto simp: schedule_sort_key_def owns_schedule_def scheduleMatchesFilter_def scope_of_def split: option.splits\<close>)
qed

lemma policyFilterScope_Inr:
  "cx_Scope ctx = Some sc \<Longrightarrow> policyFilterScope ctx claimed = Inr scope \<Longrightarrow> scope = sc"
  by (auto simp: policyFilterScope_def RuntimeScopeFromContext_def split: if_splits)

lemma own_facts:
  assumes "facts_ok (workingMemory s)" "scope_of ns ow = sc"
  shows "scopeFacts (restrict sc s) ns ow = scopeFacts s ns ow"
proof -
  have "filter (\<lambda>v. wm_Namespace v = ns \<and> wm_OwnerID v = ow) (mvals (filter (\<lambda>(k, v). fact_scope v = sc) m))
      = filter (\<lambda>v. wm_Namespace v = ns \<and> wm_OwnerID v = ow) (mvals m)" for m :: "(string, WorkingMemoryFact) gomap"
    using assms(2) by (induction m) (auto simp: mvals_def scope_of_def)
  then show ?thesis by (simp add: scopeFacts_def restrict_def)
qed

lemma own_fact:
  assumes "facts_ok (workingMemory s)" "facts_nul_free s" "nul_free (sc_Namespace sc)" "nul_free (sc_OwnerID sc)"
    "scope_of ns ow = sc" "getWorkingMemoryFact ctx s ns ow k = Inr v"
  shows "getWorkingMemoryFact ctx (restrict sc s) ns ow k = Inr v"
proof -
  let ?k = "workingMemoryMapKey ns ow k"
  from assms(6) obtain w where w: "mget (workingMemory s) ?k = Some w"
    by (auto simp: getWorkingMemoryFact_def split: option.splits)
  have "fact_scope w = sc" by (rule fact_at_key [OF assms(1-5) w])
  moreover have "gm_ok (workingMemory s)" using assms(1) by (simp add: facts_ok_def)
  ultimately have "mget (workingMemory (restrict sc s)) ?k = Some w"
    using w by (simp add: restrict_def mget_filter_values)
  with w assms(6) show ?thesis by (simp add: getWorkingMemoryFact_def split: option.splits)
qed

fun gets_run :: "read_op \<Rightarrow> bool" where
  "gets_run (GetWorkflowRun ident) = True"
| "gets_run rd = False"

lemma guarded_GetThread_own:
  assumes "cx_Scope ctx = Some sc" "guarded_GetThread ctx policy s k = Inr v"
  shows "guarded_GetThread ctx policy (restrict sc s) k = Inr v"
proof -
  have "owns_thread sc s k"
  proof (cases "getThread ctx s k")
    case (Inr w)
    then obtain u where "mget (threads s) k = Some u" "w = cloneThreadRecord u" using getThread_Inr by blast
    moreover have "thread_scope w = sc"
    proof (cases "policyScope ctx (thread_scope w)")
      case Inl
      with assms Inr show ?thesis by (simp add: guarded_GetThread_def RuntimeScopeFromContext_def)
    next
      case (Inr scope)
      with assms(1) show ?thesis by simp
    qed
    ultimately show ?thesis by (simp add: owns_thread_def)
  next
    case (Inl e)
    with assms show ?thesis by (simp add: guarded_GetThread_def RuntimeScopeFromContext_def)
  qed
  then have "getThread ctx (restrict sc s) k = getThread ctx s k" by simp
  with assms(2) show ?thesis by (simp only: guarded_GetThread_def)
qed

lemma guarded_GetSchedule_own:
  assumes "cx_Scope ctx = Some sc" "guarded_GetSchedule ctx policy s k = Inr v"
  shows "guarded_GetSchedule ctx policy (restrict sc s) k = Inr v"
proof -
  have "owns_schedule sc s k"
  proof (cases "getSchedule ctx s k")
    case (Inr w)
    then obtain u where "mget (schedules s) k = Some u" "w = cloneScheduleRecord u" using getSchedule_Inr by blast
    moreover have "schedule_scope w = sc"
    proof (cases "policyScope ctx (schedule_scope w)")
      case Inl
      with assms Inr show ?thesis by (simp add: guarded_GetSchedule_def RuntimeScopeFromContext_def)
    next
      case (Inr scope)
      with assms(1) show ?thesis by simp
    qed
    ultimately show ?thesis by (simp add: owns_schedule_def)
  next
    case (Inl e)
    with assms show ?thesis by (simp add: guarded_GetSchedule_def RuntimeScopeFromContext_def)
  qed
  then have "getSchedule ctx (restrict sc s) k = getSchedule ctx s k" by simp
  with assms(2) show ?thesis by (simp only: guarded_GetSchedule_def)
qed

lemma guarded_lists_own:
  assumes "cx_Scope ctx = Some sc"
  shows "guarded_ListMessages ctx policy s k p = Inr v1 \<Longrightarrow> guarded_ListMessages ctx policy (restrict sc s) k p = Inr v1"
    "guarded_ListWorkflowSnapshots ctx policy s k p = Inr v2 \<Longrightarrow> guarded_ListWorkflowSnapshots ctx policy (restrict sc s) k p = Inr v2"
    "guarded_ListScheduleExecutions ctx policy s k p = Inr v3 \<Longrightarrow> guarded_ListScheduleExecutions ctx policy (restrict sc s) k p = Inr v3"
  using authorizeThread_None [OF assms, of policy s ActionStorageRead k] authorizeRun_None [OF assms, of policy s ActionStorageRead k]
    authorizeSchedule_None [OF assms, of policy s ActionStorageRead k]
  by (auto simp: guarded_ListMessages_def guarded_ListWorkflowSnapshots_def guarded_ListScheduleExecutions_def)

lemma guarded_filters_own:
  assumes "cx_Scope ctx = Some sc" "sc_Namespace sc \<noteq> []" "sc_OwnerID sc \<noteq> []"
  shows "guarded_ListWorkflowRuns ctx policy s flt p = Inr v1 \<Longrightarrow> guarded_ListWorkflowRuns ctx policy (restrict sc s) flt p = Inr v1"
    "guarded_ListSchedules ctx policy s fl p = Inr v2 \<Longrightarrow> guarded_ListSchedules ctx policy (restrict sc s) fl p = Inr v2"
proof -
  have "listWorkflowRuns ctx (restrict sc s) (f\<lparr>rf_Namespace := sc_Namespace sc, rf_OwnerID := sc_OwnerID sc\<rparr>) p
      = listWorkflowRuns ctx s (f\<lparr>rf_Namespace := sc_Namespace sc, rf_OwnerID := sc_OwnerID sc\<rparr>) p" for f
    unfolding listWorkflowRuns_def by (subst own_runs [OF assms(2,3)]) simp_all
  moreover have "listSchedules ctx (restrict sc s) (f\<lparr>sf_Namespace := sc_Namespace sc, sf_OwnerID := sc_OwnerID sc\<rparr>) p
      = listSchedules ctx s (f\<lparr>sf_Namespace := sc_Namespace sc, sf_OwnerID := sc_OwnerID sc\<rparr>) p" for f
    unfolding listSchedules_def by (subst own_schedules [OF assms(2,3)]) simp_all
  ultimately show "guarded_ListWorkflowRuns ctx policy s flt p = Inr v1 \<Longrightarrow> guarded_ListWorkflowRuns ctx policy (restrict sc s) flt p = Inr v1"
    "guarded_ListSchedules ctx policy s fl p = Inr v2 \<Longrightarrow> guarded_ListSchedules ctx policy (restrict sc s) fl p = Inr v2"
    by (auto simp: guarded_ListWorkflowRuns_def guarded_ListSchedules_def dest!: policyFilterScope_Inr [OF assms(1)] split: sum.splits)
qed

lemma guarded_facts_own:
  assumes "cx_Scope ctx = Some sc" "facts_ok (workingMemory s)" "facts_nul_free s" "nul_free (sc_Namespace sc)" "nul_free (sc_OwnerID sc)"
  shows "guarded_GetWorkingMemoryFact ctx policy s ns ow k = Inr v1
      \<Longrightarrow> guarded_GetWorkingMemoryFact ctx policy (restrict sc s) ns ow k = Inr v1"
    "guarded_ListWorkingMemoryFacts ctx policy s ns ow p = Inr v2
      \<Longrightarrow> guarded_ListWorkingMemoryFacts ctx policy (restrict sc s) ns ow p = Inr v2"
proof -
  have list: "scope_of ns ow = sc \<Longrightarrow> listWorkingMemoryFacts ctx (restrict sc s) ns ow p = listWorkingMemoryFacts ctx s ns ow p"
    unfolding listWorkingMemoryFacts_def by (subst own_facts [OF assms(2)]) simp_all
  show "guarded_GetWorkingMemoryFact ctx policy s ns ow k = Inr v1
      \<Longrightarrow> guarded_GetWorkingMemoryFact ctx policy (restrict sc s) ns ow k = Inr v1"
    using own_fact [OF assms(2-5)] by (auto simp: guarded_GetWorkingMemoryFact_def dest: scoped_authorize_None [OF assms(1)])
  show "guarded_ListWorkingMemoryFacts ctx policy s ns ow p = Inr v2
      \<Longrightarrow> guarded_ListWorkingMemoryFacts ctx policy (restrict sc s) ns ow p = Inr v2"
    using list assms(1)
    by (auto simp: guarded_ListWorkingMemoryFacts_def policyScope_def RuntimeScopeFromContext_def split: if_splits)
qed

lemma map_sum_Inr: "map_sum id f r = Inr x \<longleftrightarrow> (\<exists>v. r = Inr v \<and> x = f v)"
  by (cases r) auto

section \<open>Denials\<close>

lemma denied:
  assumes "\<And>c i a r. \<not> dc_Allowed (decide c i a r)"
  shows "authorize ctx (Some decide) action res \<noteq> None"
    "scoped_authorize ctx (Some decide) action kind ident claimed \<noteq> None"
    "cx_Scope ctx = None \<Longrightarrow> scoped_authorize ctx (Some decide) action kind ident claimed = Some e \<Longrightarrow> errors_Is e ErrPolicyDenied"
  using assms authorize_denial
  by (auto simp: authorize_def Let_def scoped_authorize_def policyScope_def RuntimeScopeFromContext_def split: sum.splits)

definition denial :: "Context \<Rightarrow> go_error option \<Rightarrow> bool" where
  "denial ctx c = (case c of None \<Rightarrow> False | Some e \<Rightarrow> cx_Scope ctx \<noteq> None \<or> errors_Is e ErrPolicyDenied)"

lemma denied_guards:
  assumes "\<And>c i a r. \<not> dc_Allowed (decide c i a r)"
  shows "denial ctx (authorize ctx (Some decide) action res)"
    "denial ctx (scoped_authorize ctx (Some decide) action kind ident claimed)"
    "denial ctx (guard_ClearFacts ctx (Some decide) ns ow)"
    "denial ctx (authorizeThread ctx (Some decide) s action t)"
    "denial ctx (authorizeRun ctx (Some decide) s action r)"
    "denial ctx (authorizeSchedule ctx (Some decide) s action d)"
proof -
  show a: "denial ctx (authorize ctx (Some decide) action res)" for action res
    using denied(1) [where decide = decide, OF assms] authorize_denial by (auto simp: denial_def split: option.split)
  show b: "denial ctx (scoped_authorize ctx (Some decide) action kind ident claimed)" for action kind ident claimed
    using denied(2,3) [where decide = decide, OF assms] unfolding denial_def by (simp split: option.split) blast
  show "denial ctx (guard_ClearFacts ctx (Some decide) ns ow)"
    using a by (auto simp: guard_ClearFacts_def policyScope_def RuntimeScopeFromContext_def split: option.split sum.split)
       (simp add: denial_def)
  show "denial ctx (authorizeThread ctx (Some decide) s action t)" "denial ctx (authorizeRun ctx (Some decide) s action r)"
    "denial ctx (authorizeSchedule ctx (Some decide) s action d)"
    using a b by (auto simp: authorizeThread_def authorizeRun_def authorizeSchedule_def RuntimeScopeFromContext_def
        split: option.split sum.split) (auto simp: denial_def)
qed

lemma denied_write:
  assumes "\<And>c i a r. \<not> dc_Allowed (decide c i a r)" "rop \<noteq> AppendMessages []" "rop \<noteq> UpdateMessages []"
  shows "\<exists>e. guard_write ctx (Some decide) s rop = Inl e \<and> denial ctx (Some e)"
proof -
  note deny = denied_guards [where decide = decide, OF assms(1)]
  have fe: "denial ctx c \<Longrightarrow> denial ctx (first_err (c # cs))" for c cs
    by (cases c) (auto simp: denial_def first_err.simps)
  have ret: "denial ctx c \<Longrightarrow> \<exists>e. c = Some e \<and> denial ctx (Some e)" for c
    by (cases c) (auto simp: denial_def)
  have batch: "denial ctx (guard_batch ctx (Some decide) s [] (v # vs))" for v vs
    using deny(4) [of ctx s ActionStorageWrite "mr_ThreadID v"] by (auto simp: denial_def split: option.splits)
  show ?thesis
  proof (cases rop)
    case (AppendMessages vs)
    with assms(2) batch ret show ?thesis by (cases vs) (simp_all del: guard_batch.simps)
  next
    case (UpdateMessages vs)
    with assms(3) batch ret show ?thesis by (cases vs) (simp_all del: guard_batch.simps)
  next
    case (SaveScheduleExecution v)
    with deny(6) [of ctx s ActionStorageWrite "se_ScheduleID v"] show ?thesis
      by (auto simp: guard_SaveExecution_def denial_def split: option.splits)
  qed (auto intro!: ret fe simp: deny guard_CreateThread_def guard_UpdateThread_def guard_SaveWorkflowRun_def
      guard_SaveSchedule_def guard_DeleteSchedule_def guard_UpsertFact_def guard_DeleteFact_def)
qed

section \<open>Samples\<close>

text \<open>Two tenants: the run and the schedule belong to \<^verbatim>\<open>globex\<close>, the caller is verified for \<^verbatim>\<open>acme\<close>.\<close>

definition two_tenants :: memoryState where
  "two_tenants = fst (saveSchedule background sample_runs ((sample_schedule ''s1'')\<lparr>sd_Namespace := ''globex''\<rparr>))"

definition acme_ctx :: Context where
  "acme_ctx = WithRuntimeScope background (scope_of ''acme'' ''ada'')"

definition globex :: RuntimeScope where
  "globex = scope_of ''globex'' ''ada''"

definition deny_all :: "Context \<Rightarrow> Identity \<Rightarrow> string \<Rightarrow> Resource \<Rightarrow> Decision" where
  "deny_all ctx i action res = Deny ''closed''"

definition sample_guarded :: guarded_prog where
  "sample_guarded = GCall (SaveWorkflowRun (sample_run ''r2'' ''acme'' 9)) (\<lambda>r. GReturn r)"

lemma two_tenants_ok: "store_ok two_tenants" "facts_nul_free two_tenants" "nul_free (sc_Namespace (scope_of ''acme'' ''ada''))"
    "nul_free (sc_OwnerID (scope_of ''acme'' ''ada''))" "cx_Scope acme_ctx = Some (scope_of ''acme'' ''ada'')"
    "globex \<noteq> scope_of ''acme'' ''ada''"
  by (simp add: two_tenants_def saveSchedule_ok sample_runs_ok, code_simp+)

section \<open>Properties\<close>







text \<open>A policy that denies every request lets no guarded write change the store, and
  every write that touches a record fails; without a verified scope it fails with a policy denial.\<close>

theorem policy_denies:
  assumes "\<And>c i a r. \<not> dc_Allowed (decide c i a r)"
  shows "fst (guarded_exec ctx (Some decide) rop s) = s
    \<and> (rop = AppendMessages [] \<or> rop = UpdateMessages []
       \<or> (case snd (guarded_exec ctx (Some decide) rop s) of None \<Rightarrow> False
          | Some e \<Rightarrow> cx_Scope ctx \<noteq> None \<or> errors_Is e ErrPolicyDenied))"
proof (cases "rop = AppendMessages [] \<or> rop = UpdateMessages []")
  case True
  then show ?thesis by (auto simp: guarded_exec_def appendMessages_def updateMessages_def)
next
  case False
  then show ?thesis using denied_write [where decide = decide, OF assms, of rop ctx s] by (auto simp: guarded_exec_def denial_def)
qed

theorem policy_denies_witness:
  "fst (guarded_exec acme_ctx (Some deny_all) (DeleteSchedule ''s1'') two_tenants) = two_tenants"
  using policy_denies [of deny_all acme_ctx "DeleteSchedule ''s1''" two_tenants] by (simp add: deny_all_def Deny_def)



text \<open>With a nil policy and no verified scope a policy store still refuses an update
  that the store it wraps accepts: the scope of a thread cannot change.\<close>

theorem nil_policy_not_transparent:
  "snd (guarded_exec background None (UpdateThread (sample_thread\<lparr>th_OwnerID := ''bob''\<rparr>)) sample_transcript)
     = Some (Errorf ''lebro: thread scope is immutable'' [])
   \<and> snd (repo_exec background (UpdateThread (sample_thread\<lparr>th_OwnerID := ''bob''\<rparr>)) sample_transcript) = None"
  by code_simp

end
