(* ===== verification/Cron.thy ===== *)
theory Cron
  imports Calendar "HOL-Library.Word"
begin

unbundle bit_operations_syntax

text \<open>
  \<^verbatim>\<open>internal/runtime/cron.go\<close>: the five-field cron expressions and \<^verbatim>\<open>@every\<close> intervals. A field is
  a 64-bit mask. \<^verbatim>\<open>time.ParseDuration\<close>, which computes fractions in floating point, is a parameter of
  the parser.
\<close>

record CronSchedule =
  cs_spec :: string
  cs_every :: int
  cs_minute :: "64 word"
  cs_hour :: "64 word"
  cs_dom :: "64 word"
  cs_month :: "64 word"
  cs_dow :: "64 word"
  cs_domStar :: bool
  cs_dowStar :: bool

definition zero_cron :: CronSchedule where
  "zero_cron = \<lparr>cs_spec = [], cs_every = 0, cs_minute = 0, cs_hour = 0, cs_dom = 0, cs_month = 0, cs_dow = 0,
     cs_domStar = False, cs_dowStar = False\<rparr>"

definition cronSearchLimit :: int where
  "cronSearchLimit = 4 * 366 * 24 * hour_ns"

section \<open>Parsing\<close>

definition set_bit_at :: "64 word \<Rightarrow> int \<Rightarrow> 64 word" where
  "set_bit_at bits v = bits OR push_bit (nat v) 1"

definition has_bit :: "64 word \<Rightarrow> int \<Rightarrow> bool" where
  "has_bit bits v \<longleftrightarrow> bits AND push_bit (nat v) 1 \<noteq> 0"

definition rangeMask :: "int \<Rightarrow> int \<Rightarrow> 64 word" where
  "rangeMask lo hi = foldl set_bit_at 0 [lo..hi]"

definition cronAtoi :: "string \<Rightarrow> int \<Rightarrow> int \<Rightarrow> int result" where
  "cronAtoi s lo hi = (case atoi s of None \<Rightarrow> Inl (Errorf ''invalid value %q'' [s])
     | Some v \<Rightarrow> if v < lo \<or> hi < v then Inl (Errorf ''value %d out of range [%d, %d]'' [itoa v, itoa lo, itoa hi]) else Inr v)"

text \<open>The bounds and the step of one part of a comma list.\<close>

definition cron_bounds :: "string \<Rightarrow> int \<Rightarrow> int \<Rightarrow> (int \<times> int) result" where
  "cron_bounds spec lo hi = (if spec = ''*'' then Inr (lo, hi)
     else case cut_byte (CHR ''-'') spec of (startStr, endStr, isRange) \<Rightarrow>
       (case cronAtoi startStr lo hi of Inl e \<Rightarrow> Inl e
        | Inr a \<Rightarrow> if isRange then map_sum id (\<lambda>b. (a, b)) (cronAtoi endStr lo hi) else Inr (a, a)))"

definition cron_step :: "bool \<Rightarrow> string \<Rightarrow> int result" where
  "cron_step hasStep stepStr = (if \<not> hasStep then Inr 1
     else case atoi stepStr of None \<Rightarrow> Inl (Errorf ''invalid step %q'' [stepStr])
       | Some step \<Rightarrow> if step \<le> 0 then Inl (Errorf ''step must be positive, got %d'' [itoa step]) else Inr step)"

definition cron_part :: "string \<Rightarrow> int \<Rightarrow> int \<Rightarrow> (int \<times> int \<times> int) result" where
  "cron_part part lo hi = (case cut_byte (CHR ''/'') part of (spec, stepStr, hasStep) \<Rightarrow>
     (case cron_bounds spec lo hi of Inl e \<Rightarrow> Inl e
      | Inr (a, b) \<Rightarrow> if b < a then Inl (Errorf ''range start %d is after end %d'' [itoa a, itoa b])
          else map_sum id (\<lambda>step. (a, b, step)) (cron_step hasStep stepStr)))"

text \<open>The loop that sets the bits; the step is positive here.\<close>

function step_mask :: "int \<Rightarrow> int \<Rightarrow> int \<Rightarrow> 64 word \<Rightarrow> 64 word" where
  "step_mask v hi step bits = (if v \<le> hi then
       (let bits' = set_bit_at bits v in
        if step \<le> 0 \<or> hi - v < step then bits' else step_mask (v + step) hi step bits')
     else bits)"
  by pat_completeness auto
termination
  by (relation "measure (\<lambda>(v, hi, step, bits). nat (hi - v + 1))") auto

declare step_mask.simps [simp del]

fun cron_parts :: "string list \<Rightarrow> int \<Rightarrow> int \<Rightarrow> 64 word \<Rightarrow> 64 word result" where
  "cron_parts [] lo hi bits = Inr bits"
| "cron_parts (part # parts) lo hi bits = (case cron_part part lo hi of Inl e \<Rightarrow> Inl e
     | Inr (a, b, step) \<Rightarrow> cron_parts parts lo hi (step_mask a b step bits))"

definition parseCronField :: "string \<Rightarrow> int \<Rightarrow> int \<Rightarrow> (64 word \<times> bool) result" where
  "parseCronField field lo hi = (if field = ''*'' then Inr (rangeMask lo hi, True)
     else map_sum id (\<lambda>bits. (bits, False)) (cron_parts (split_byte (CHR '','') field) lo hi 0))"

definition cron_field :: "string \<Rightarrow> string \<Rightarrow> string \<Rightarrow> int \<Rightarrow> int \<Rightarrow> (64 word \<times> bool) result" where
  "cron_field spec name field lo hi =
     map_sum (Wrapf (''lebro: cron spec %q '' @ name @ '': %w'') [spec]) id (parseCronField field lo hi)"

definition cron_fields :: "string \<Rightarrow> string \<Rightarrow> string list \<Rightarrow> CronSchedule result" where
  "cron_fields spec trimmed flds = (case flds of [f0, f1, f2, f3, f4] \<Rightarrow>
       (case cron_field spec ''minute'' f0 0 59 of Inl e \<Rightarrow> Inl e | Inr (mi, _) \<Rightarrow>
       (case cron_field spec ''hour'' f1 0 23 of Inl e \<Rightarrow> Inl e | Inr (ho, _) \<Rightarrow>
       (case cron_field spec ''day-of-month'' f2 1 31 of Inl e \<Rightarrow> Inl e | Inr (dm, domStar) \<Rightarrow>
       (case cron_field spec ''month'' f3 1 12 of Inl e \<Rightarrow> Inl e | Inr (mo, _) \<Rightarrow>
       (case cron_field spec ''day-of-week'' f4 0 6 of Inl e \<Rightarrow> Inl e | Inr (dow, dowStar) \<Rightarrow>
         Inr \<lparr>cs_spec = trimmed, cs_every = 0, cs_minute = mi, cs_hour = ho, cs_dom = dm, cs_month = mo, cs_dow = dow,
            cs_domStar = domStar, cs_dowStar = dowStar\<rparr>)))))
   | _ \<Rightarrow> Inl (Errorf ''lebro: cron spec %q: expected 5 fields, got %d'' [spec, show_nat (length flds)]))"

definition ParseCronSpec :: "(string \<Rightarrow> int result) \<Rightarrow> string \<Rightarrow> CronSchedule result" where
  "ParseCronSpec ParseDuration spec = (let trimmed = trim_space spec in
     if trimmed = [] then Inl (Errorf ''lebro: cron spec is empty'' [])
     else case strip_prefix ''@every '' trimmed of
       Some rest \<Rightarrow> (case ParseDuration (trim_space rest) of
          Inl e \<Rightarrow> Inl (Wrapf ''lebro: cron spec %q: invalid @every duration: %w'' [spec] e)
        | Inr d \<Rightarrow> if d \<le> 0 then Inl (Errorf ''lebro: cron spec %q: @every duration must be positive'' [spec])
            else Inr (zero_cron\<lparr>cs_spec := trimmed, cs_every := d\<rparr>))
     | None \<Rightarrow> cron_fields spec trimmed (go_fields trimmed))"

section \<open>The next fire time\<close>

definition dayMatches :: "CronSchedule \<Rightarrow> Time \<Rightarrow> bool" where
  "dayMatches c t = (let domHit = has_bit (cs_dom c) (Day t); dowHit = has_bit (cs_dow c) (Weekday t) in
     if cs_domStar c \<and> cs_dowStar c then True
     else if cs_domStar c then dowHit
     else if cs_dowStar c then domHit
     else domHit \<or> dowHit)"

lemma ns_pos [simp]: "0 < minute_ns" "0 < hour_ns" "0 < day_ns"
  by (simp_all add: minute_ns_def hour_ns_def day_ns_def)

lemma hour_start: "go_Date (Year t) (Month t) (Day t) + Hour t * hour_ns = truncate_to hour_ns t"
proof -
  have "t mod day_ns mod hour_ns = t mod hour_ns"
    by (rule mod_mod_cancel) (simp add: day_ns_def hour_ns_def)
  then show ?thesis
    using mult_div_mod_eq [of hour_ns "t mod day_ns"] go_Date_day [of t]
    by (simp add: Hour_def truncate_to_def mult.commute)
qed

function next_loop :: "CronSchedule \<Rightarrow> Time \<Rightarrow> Time \<Rightarrow> Time option" where
  "next_loop c t limit = (if t < limit then
       if \<not> has_bit (cs_month c) (Month t) then next_loop c (go_Date (Year t) (Month t + 1) 1) limit
       else if \<not> dayMatches c t then next_loop c (go_Date (Year t) (Month t) (Day t + 1)) limit
       else if \<not> has_bit (cs_hour c) (Hour t)
         then next_loop c (go_Date (Year t) (Month t) (Day t) + Hour t * hour_ns + hour_ns) limit
       else if \<not> has_bit (cs_minute c) (Minute t) then next_loop c (t + minute_ns) limit
       else Some t
     else None)"
  by pat_completeness auto
termination
proof (relation "measure (\<lambda>(c, t, limit). nat (limit - t))")
  fix c :: CronSchedule and t limit :: Time
  assume "t < limit"
  then show "((c, go_Date (Year t) (Month t + 1) 1, limit), c, t, limit) \<in> measure (\<lambda>(c, t, limit). nat (limit - t))"
    using next_month_after [of t] by simp
  show "((c, go_Date (Year t) (Month t) (Day t + 1), limit), c, t, limit) \<in> measure (\<lambda>(c, t, limit). nat (limit - t))"
    using \<open>t < limit\<close> truncate_bounds(2) [of day_ns t] by (simp add: go_Date_next_day)
  show "((c, go_Date (Year t) (Month t) (Day t) + Hour t * hour_ns + hour_ns, limit), c, t, limit)
      \<in> measure (\<lambda>(c, t, limit). nat (limit - t))"
    using \<open>t < limit\<close> truncate_bounds(2) [of hour_ns t] by (simp add: hour_start)
  show "((c, t + minute_ns, limit), c, t, limit) \<in> measure (\<lambda>(c, t, limit). nat (limit - t))"
    using \<open>t < limit\<close> by simp
qed simp

declare next_loop.simps [simp del]

definition CronSchedule_Next :: "CronSchedule \<Rightarrow> Time \<Rightarrow> Time option" where
  "CronSchedule_Next c after = (if 0 < cs_every c then Some (after + cs_every c)
     else let t = truncate_to minute_ns after + minute_ns in next_loop c t (t + cronSearchLimit))"

section \<open>Masks\<close>

lemma has_bit_iff: "0 \<le> v \<Longrightarrow> v < 64 \<Longrightarrow> has_bit bits v \<longleftrightarrow> bit bits (nat v)"
  by (simp add: has_bit_def push_bit_of_1 and_exp_eq_0_iff_not_bit)

lemma has_bit_set:
  "0 \<le> v \<Longrightarrow> v < 64 \<Longrightarrow> 0 \<le> w \<Longrightarrow> w < 64 \<Longrightarrow> has_bit (set_bit_at bits v) w \<longleftrightarrow> w = v \<or> has_bit bits w"
  by (auto simp: has_bit_iff set_bit_at_def bit_or_iff push_bit_of_1 bit_exp_iff)

lemma has_bit_zero [simp]: "\<not> has_bit 0 v"
  by (simp add: has_bit_def)

lemma has_bit_foldl:
  "(\<forall>v \<in> set vs. 0 \<le> v \<and> v < 64) \<Longrightarrow> 0 \<le> w \<Longrightarrow> w < 64 \<Longrightarrow>
   has_bit (foldl set_bit_at bits vs) w \<longleftrightarrow> w \<in> set vs \<or> has_bit bits w"
  by (induction vs arbitrary: bits) (auto simp: has_bit_set)

lemma rangeMask_bits:
  "0 \<le> lo \<Longrightarrow> hi < 64 \<Longrightarrow> 0 \<le> w \<Longrightarrow> w < 64 \<Longrightarrow> has_bit (rangeMask lo hi) w \<longleftrightarrow> lo \<le> w \<and> w \<le> hi"
  by (simp add: rangeMask_def has_bit_foldl)

lemma step_mask_bits:
  assumes "0 < step" "hi < 64" "0 \<le> w" "w < 64"
  shows "0 \<le> v \<Longrightarrow> has_bit (step_mask v hi step bits) w \<longleftrightarrow> has_bit bits w \<or> (v \<le> w \<and> w \<le> hi \<and> step dvd w - v)"
  using assms
proof (induction v hi step bits rule: step_mask.induct)
  case (1 v hi step bits)
  show ?case
  proof (cases "v \<le> hi")
    case False
    then show ?thesis by (subst step_mask.simps) auto
  next
    case True
    with 1 have set: "has_bit (set_bit_at bits v) w \<longleftrightarrow> w = v \<or> has_bit bits w" by (intro has_bit_set) auto
    show ?thesis
    proof (cases "hi - v < step")
      case True
      have "w = v" if "step dvd w - v" "v \<le> w" "w \<le> hi"
        using that True zdvd_imp_le [of step "w - v"] by (cases "w = v") auto
      with \<open>v \<le> hi\<close> True set show ?thesis by (subst step_mask.simps) (auto simp: Let_def)
    next
      case False
      have "step dvd w - (v + step) \<longleftrightarrow> step dvd w - v"
        using dvd_add_times_triv_right_iff [of step "w - v" "-1"] by (simp add: algebra_simps)
      then have "v + step \<le> w \<and> step dvd w - (v + step) \<or> w = v \<longleftrightarrow> v \<le> w \<and> step dvd w - v"
        using 1(3) zdvd_imp_le [of step "w - v"] by (cases "w = v") auto
      with 1 False True set show ?thesis by (subst step_mask.simps) (auto simp: Let_def)
    qed
  qed
qed

text \<open>What a part of a field denotes, and a whole field.\<close>

definition part_denotes :: "string \<Rightarrow> int \<Rightarrow> int \<Rightarrow> int \<Rightarrow> bool" where
  "part_denotes part lo hi w = (case cron_part part lo hi of Inl e \<Rightarrow> False
     | Inr (a, b, step) \<Rightarrow> a \<le> w \<and> w \<le> b \<and> step dvd w - a)"

definition field_denotes :: "string \<Rightarrow> int \<Rightarrow> int \<Rightarrow> int \<Rightarrow> bool" where
  "field_denotes field lo hi w = (if field = ''*'' then lo \<le> w \<and> w \<le> hi
     else list_ex (\<lambda>part. part_denotes part lo hi w) (split_byte (CHR '','') field))"

lemma cronAtoi_range: "cronAtoi s lo hi = Inr v \<Longrightarrow> lo \<le> v \<and> v \<le> hi"
  by (auto simp: cronAtoi_def split: option.splits if_splits)

lemma cron_bounds_range:
  assumes "cron_bounds spec lo hi = Inr (a, b)"
  shows "lo \<le> a" "b \<le> hi"
  using assms
  by (auto simp: cron_bounds_def map_sum_def dest!: cronAtoi_range split: if_splits prod.splits sum.splits)

lemma cron_part_range:
  assumes "cron_part part lo hi = Inr (a, b, step)"
  shows "lo \<le> a" "a \<le> b" "b \<le> hi" "0 < step"
  using assms
  by (auto simp: cron_part_def cron_step_def map_sum_def dest: cron_bounds_range split: if_splits prod.splits sum.splits option.splits)

lemma cron_parts_bits:
  assumes "0 \<le> lo" "hi < 64" "0 \<le> w" "w < 64"
  shows "cron_parts parts lo hi bits = Inr bits' \<Longrightarrow>
    has_bit bits' w \<longleftrightarrow> has_bit bits w \<or> list_ex (\<lambda>part. part_denotes part lo hi w) parts"
proof (induction parts arbitrary: bits)
  case (Cons part parts)
  then obtain a b step where p: "cron_part part lo hi = Inr (a, b, step)"
    and rest: "cron_parts parts lo hi (step_mask a b step bits) = Inr bits'"
    by (auto split: sum.splits prod.splits)
  note r = cron_part_range [OF p]
  show ?case
    using Cons.IH [OF rest] step_mask_bits [of step b w a bits] r assms p by (auto simp: part_denotes_def)
qed simp

lemma cron_parts_ok:
  "cron_parts parts lo hi bits = Inr bits' \<Longrightarrow> part \<in> set parts \<Longrightarrow> \<exists>a b step. cron_part part lo hi = Inr (a, b, step)"
  by (induction parts arbitrary: bits) (auto split: sum.splits prod.splits)

lemma part_denotes_range: "part_denotes part lo hi w \<Longrightarrow> lo \<le> w \<and> w \<le> hi"
  by (auto simp: part_denotes_def dest: cron_part_range split: sum.splits)

lemma part_denotes_first:
  assumes "cron_part part lo hi = Inr (a, b, step)"
  shows "part_denotes part lo hi a"
  using assms cron_part_range [OF assms] by (simp add: part_denotes_def)

lemma field_denotes_range: "field_denotes field lo hi w \<Longrightarrow> lo \<le> w \<and> w \<le> hi"
  by (auto simp: field_denotes_def list_ex_iff dest: part_denotes_range split: if_splits)

section \<open>The search\<close>

definition fires :: "CronSchedule \<Rightarrow> Time \<Rightarrow> bool" where
  "fires c t \<longleftrightarrow> minute_ns dvd t \<and> has_bit (cs_month c) (Month t) \<and> dayMatches c t
     \<and> has_bit (cs_hour c) (Hour t) \<and> has_bit (cs_minute c) (Minute t)"

lemma ns_dvd: "minute_ns dvd hour_ns" "hour_ns dvd day_ns" "minute_ns dvd day_ns"
  by (simp_all add: minute_ns_def hour_ns_def day_ns_def)

lemma aligned_targets:
  "minute_ns dvd go_Date y m d" "minute_ns dvd truncate_to hour_ns t + hour_ns"
  using ns_dvd truncate_dvd [of hour_ns t] dvd_trans by (auto simp: go_Date_def intro: dvd_mult dvd_add)

lemma same_unit:
  fixes t t' d :: int
  assumes "0 < d" "truncate_to d t \<le> t'" "t' < truncate_to d t + d"
  shows "t' div d = t div d"
proof -
  have "truncate_to d t = t div d * d" by (simp add: truncate_to_def minus_mod_eq_div_mult)
  then show ?thesis
    using assms int_div_pos_eq [of t' d "t div d" "t' - t div d * d"] by (simp add: mult.commute)
qed

lemma Hour_div: "Hour t = t div hour_ns mod 24"
proof -
  have "t mod (hour_ns * 24) = hour_ns * (t div hour_ns mod 24) + t mod hour_ns" by (rule zmod_zmult2_eq) simp
  then show ?thesis by (simp add: Hour_def day_ns_def hour_ns_def)
qed

lemma same_hour: "t \<le> t' \<Longrightarrow> t' < truncate_to hour_ns t + hour_ns \<Longrightarrow> Hour t' = Hour t"
  using same_unit [of hour_ns t t'] truncate_bounds(1) [of hour_ns t] by (simp add: Hour_div)

lemma aligned_next: "minute_ns dvd t \<Longrightarrow> minute_ns dvd t' \<Longrightarrow> t \<le> t' \<Longrightarrow> t' < t + minute_ns \<Longrightarrow> t' = t"
  using zdvd_imp_le [of minute_ns "t' - t"] by (cases "t' = t") (auto simp: dvd_diff)

text \<open>No skip of the search passes a fire time.\<close>

lemma skip_month:
  "\<not> has_bit (cs_month c) (Month t) \<Longrightarrow> t \<le> t' \<Longrightarrow> t' < go_Date (Year t) (Month t + 1) 1 \<Longrightarrow> \<not> fires c t'"
  by (simp add: fires_def same_month)

lemma skip_day:
  assumes "\<not> dayMatches c t" "t \<le> t'" "t' < go_Date (Year t) (Month t) (Day t + 1)"
  shows "\<not> fires c t'"
proof -
  have "day_of t' = day_of t"
    using assms(2,3) truncate_bounds(1) [of day_ns t] by (intro same_day) (simp_all add: go_Date_next_day)
  then have "Day t' = Day t" "Weekday t' = Weekday t" by (simp_all add: Day_def Weekday_def)
  with assms(1) show ?thesis by (simp add: fires_def dayMatches_def)
qed

lemma skip_hour:
  "\<not> has_bit (cs_hour c) (Hour t) \<Longrightarrow> t \<le> t' \<Longrightarrow> t' < truncate_to hour_ns t + hour_ns \<Longrightarrow> \<not> fires c t'"
  by (simp add: fires_def same_hour)

lemma skip_minute:
  "\<not> has_bit (cs_minute c) (Minute t) \<Longrightarrow> minute_ns dvd t \<Longrightarrow> t \<le> t' \<Longrightarrow> t' < t + minute_ns \<Longrightarrow> \<not> fires c t'"
  using aligned_next by (auto simp: fires_def)

definition search_ok :: "CronSchedule \<Rightarrow> Time \<Rightarrow> Time \<Rightarrow> Time option \<Rightarrow> bool" where
  "search_ok c t limit r = (case r of
     Some u \<Rightarrow> t \<le> u \<and> u < limit \<and> fires c u \<and> (\<forall>t'. t \<le> t' \<and> t' < u \<longrightarrow> \<not> fires c t')
   | None \<Rightarrow> (\<forall>t'. t \<le> t' \<and> t' < limit \<longrightarrow> \<not> fires c t'))"

lemma search_ok_skip:
  assumes "search_ok c u limit r" "t \<le> u" "\<And>t'. t \<le> t' \<Longrightarrow> t' < u \<Longrightarrow> \<not> fires c t'"
  shows "search_ok c t limit r"
proof -
  have "\<not> fires c t'" if "t \<le> t'" "u \<le> t' \<Longrightarrow> \<not> fires c t'" for t'
    using that assms(3) by (cases "t' < u") auto
  with assms(1,2) show ?thesis by (auto simp: search_ok_def split: option.splits)
qed

lemma next_loop_ok: "minute_ns dvd t \<Longrightarrow> search_ok c t limit (next_loop c t limit)"
proof (induction c t limit rule: next_loop.induct)
  case (1 c t limit)
  note eq = next_loop.simps [of c t limit]
  have hour: "go_Date (Year t) (Month t) (Day t) + Hour t * hour_ns + hour_ns = truncate_to hour_ns t + hour_ns"
    by (simp add: hour_start)
  consider "\<not> t < limit" | "t < limit" "\<not> has_bit (cs_month c) (Month t)"
    | "t < limit" "has_bit (cs_month c) (Month t)" "\<not> dayMatches c t"
    | "t < limit" "has_bit (cs_month c) (Month t)" "dayMatches c t" "\<not> has_bit (cs_hour c) (Hour t)"
    | "t < limit" "has_bit (cs_month c) (Month t)" "dayMatches c t" "has_bit (cs_hour c) (Hour t)" "\<not> has_bit (cs_minute c) (Minute t)"
    | "t < limit" "has_bit (cs_month c) (Month t)" "dayMatches c t" "has_bit (cs_hour c) (Hour t)" "has_bit (cs_minute c) (Minute t)"
    by blast
  then show ?case
  proof cases
    case 1
    then show ?thesis by (auto simp: eq search_ok_def)
  next
    case 2
    then have "search_ok c (go_Date (Year t) (Month t + 1) 1) limit (next_loop c t limit)"
      using "1.IH"(1) aligned_targets by (simp add: eq)
    then show ?thesis using next_month_after [of t] skip_month [OF 2(2)] by (auto intro: search_ok_skip)
  next
    case 3
    then have "search_ok c (go_Date (Year t) (Month t) (Day t + 1)) limit (next_loop c t limit)"
      using "1.IH"(2) aligned_targets by (simp add: eq)
    moreover have "t \<le> go_Date (Year t) (Month t) (Day t + 1)"
      using truncate_bounds(2) [of day_ns t] by (simp add: go_Date_next_day)
    ultimately show ?thesis using skip_day [OF 3(3)] by (auto intro: search_ok_skip)
  next
    case 4
    then have "search_ok c (truncate_to hour_ns t + hour_ns) limit (next_loop c t limit)"
      using "1.IH"(3) aligned_targets by (simp add: eq hour)
    then show ?thesis using truncate_bounds(2) [of hour_ns t] skip_hour [OF 4(4)] by (auto intro: search_ok_skip)
  next
    case 5
    then have "search_ok c (t + minute_ns) limit (next_loop c t limit)"
      using "1.IH"(4) "1.prems" by (simp add: eq)
    then show ?thesis using skip_minute [OF 5(5) "1.prems"] by (auto intro: search_ok_skip simp: less_imp_le)
  next
    case 6
    then show ?thesis using "1.prems" by (auto simp: eq search_ok_def fires_def)
  qed
qed

lemma before_start:
  assumes "after < t'" "t' < truncate_to minute_ns after + minute_ns"
  shows "\<not> fires c t'"
proof
  assume "fires c t'"
  then have "minute_ns dvd t'" by (simp add: fires_def)
  then have "t' = truncate_to minute_ns after"
    using assms truncate_bounds(1) [of minute_ns after] by (intro aligned_next) (simp_all add: truncate_dvd)
  with assms truncate_bounds(1) [of minute_ns after] show False by simp
qed

lemma Next_ok:
  assumes "cs_every c \<le> 0"
  shows "search_ok c (after + 1) (truncate_to minute_ns after + minute_ns + cronSearchLimit) (CronSchedule_Next c after)"
proof -
  let ?t = "truncate_to minute_ns after + minute_ns"
  have "search_ok c ?t (?t + cronSearchLimit) (next_loop c ?t (?t + cronSearchLimit))"
    by (rule next_loop_ok) (simp add: truncate_dvd)
  then have "search_ok c (after + 1) (?t + cronSearchLimit) (next_loop c ?t (?t + cronSearchLimit))"
    using truncate_bounds(2) [of minute_ns after] before_start [of after] by (auto intro: search_ok_skip)
  then show ?thesis using assms by (simp add: CronSchedule_Next_def Let_def)
qed

text \<open>The search of the documentation, one minute at a time.\<close>

function minute_scan :: "CronSchedule \<Rightarrow> Time \<Rightarrow> Time \<Rightarrow> Time option" where
  "minute_scan c t limit = (if t < limit then if fires c t then Some t else minute_scan c (t + minute_ns) limit else None)"
  by pat_completeness auto
termination
  by (relation "measure (\<lambda>(c, t, limit). nat (limit - t))") auto

declare minute_scan.simps [simp del]

lemma minute_scan_ok: "minute_ns dvd t \<Longrightarrow> search_ok c t limit (minute_scan c t limit)"
proof (induction c t limit rule: minute_scan.induct)
  case (1 c t limit)
  note eq = minute_scan.simps [of c t limit]
  show ?case
  proof (cases "t < limit \<and> \<not> fires c t")
    case True
    then have "search_ok c (t + minute_ns) limit (minute_scan c t limit)" using 1 by (simp add: eq)
    moreover have "\<not> fires c t'" if "t \<le> t'" "t' < t + minute_ns" for t'
      using that True aligned_next [OF "1.prems", of t'] by (auto simp: fires_def)
    ultimately show ?thesis by (auto intro: search_ok_skip simp: less_imp_le)
  next
    case False
    then show ?thesis by (auto simp: eq search_ok_def)
  qed
qed

lemma search_ok_unique: "search_ok c t limit r \<Longrightarrow> search_ok c t limit r' \<Longrightarrow> r = r'"
  by (cases r; cases r') (auto simp: search_ok_def, metis linorder_neqE_linordered_idom)

definition no_duration :: "string \<Rightarrow> int result" where
  "no_duration s = Inl (Errorf ''time: invalid duration'' [])"

definition leap_cron :: CronSchedule where
  "leap_cron = (case ParseCronSpec no_duration ''0 0 29 2 *'' of Inr c \<Rightarrow> c | Inl e \<Rightarrow> zero_cron)"

definition leap_day :: "Time \<Rightarrow> bool" where
  "leap_day t \<longleftrightarrow> Month t = 2 \<and> Day t = 29"

lemma leap_cron_fires:
  assumes "fires leap_cron t"
  shows "leap_day t"
proof -
  have bits: "list_all (\<lambda>w. has_bit (cs_month leap_cron) w = (w = 2)) [1..12]"
    "list_all (\<lambda>w. has_bit (cs_dom leap_cron) w = (w = 29)) [1..31]"
    "\<not> cs_domStar leap_cron" "cs_dowStar leap_cron" by code_simp+
  have "Day t \<le> 31" using date_parts_ok(5) [of t] by (auto simp: month_length_def split: if_splits)
  with assms bits date_parts_ok(2-4) [of t] show ?thesis
    by (auto simp: leap_day_def fires_def dayMatches_def list_all_iff)
qed

lemma no_leap_day:
  assumes "days_of_date 2096 3 1 \<le> day_of t" "day_of t \<le> days_of_date 2100 3 5"
  shows "\<not> leap_day t"
proof
  assume "leap_day t"
  then have d: "days_of_date (Year t) 2 29 = day_of t" "29 \<le> month_length (Year t) 2"
    using date_parts_ok(1,5) [of t] by (simp_all add: leap_day_def)
  have leap: "is_leap (Year t)" using d(2) by (simp add: month_length_def split: if_splits)
  have day: "day_of t = days_before_year (Year t) + 59" using d(1) by (simp add: days_of_date_in_year days_before_month_def)
  have vals: "days_of_date 2096 3 1 = 765243" "days_of_date 2100 3 5 = 766707" "days_before_year 2096 = 765183"
    "days_before_year 2101 = 767009" by code_simp+
  have "2096 < Year t"
  proof (rule ccontr)
    assume "\<not> 2096 < Year t"
    then have "days_before_year (Year t) \<le> days_before_year 2096"
      using days_before_year_mono [of "Year t" 2096] year_length_pos(1) [of "Year t"] by (cases "Year t = 2096") auto
    with day assms(1) vals show False by simp
  qed
  moreover have "Year t < 2101"
  proof (rule ccontr)
    assume "\<not> Year t < 2101"
    then have "days_before_year 2101 \<le> days_before_year (Year t)"
      using days_before_year_mono [of 2101 "Year t"] year_length_pos(1) [of 2101] by (cases "Year t = 2101") auto
    with day assms(2) vals show False by simp
  qed
  ultimately have "Year t \<in> {2097, 2098, 2099, 2100}" by auto
  with leap show False by (auto simp: is_leap_def)
qed

section \<open>Properties\<close>

text \<open>C8 cron_next_earliest: the next fire time is strictly after the reference, matches the expression, and no
  earlier instant after the reference does; when there is none, nothing matches within the search limit.
  An interval schedule fires exactly one interval later.\<close>

theorem cron_next_earliest:
  "case CronSchedule_Next c after of
     Some t \<Rightarrow> after < t \<and> (if 0 < cs_every c then t = after + cs_every c
        else fires c t \<and> (\<forall>t'. after < t' \<and> t' < t \<longrightarrow> \<not> fires c t'))
   | None \<Rightarrow> cs_every c \<le> 0
       \<and> (\<forall>t'. after < t' \<and> t' < truncate_to minute_ns after + minute_ns + cronSearchLimit \<longrightarrow> \<not> fires c t')"
proof (cases "0 < cs_every c")
  case True
  then show ?thesis by (simp add: CronSchedule_Next_def)
next
  case False
  then show ?thesis using Next_ok [of c after] by (auto simp: search_ok_def split: option.split)
qed

text \<open>C38 cron_search_equivalent: the search that skips whole months, days and hours returns exactly what a scan
  minute by minute returns.\<close>

theorem cron_search_equivalent:
  assumes "cs_every c \<le> 0"
  shows "CronSchedule_Next c after
    = (let t = truncate_to minute_ns after + minute_ns in minute_scan c t (t + cronSearchLimit))"
proof -
  let ?t = "truncate_to minute_ns after + minute_ns"
  have "minute_ns dvd ?t" by (simp add: truncate_dvd)
  then show ?thesis
    using search_ok_unique [OF next_loop_ok minute_scan_ok] assms by (simp add: CronSchedule_Next_def)
qed

text \<open>C39 cron_field_bits: an accepted field becomes a mask with exactly the bits of the values it denotes: a value
  list, ranges and steps. It denotes at least one value, and none outside the bounds of the field.\<close>

theorem cron_field_bits:
  assumes "parseCronField field lo hi = Inr (bits, star)" "0 \<le> lo" "lo \<le> hi" "hi < 64"
  shows "(\<forall>w. 0 \<le> w \<and> w < 64 \<longrightarrow> has_bit bits w = field_denotes field lo hi w)
    \<and> (\<forall>w. field_denotes field lo hi w \<longrightarrow> lo \<le> w \<and> w \<le> hi) \<and> (\<exists>w. field_denotes field lo hi w)
    \<and> star = (field = ''*'')"
proof (cases "field = ''*''")
  case True
  with assms show ?thesis by (auto simp: parseCronField_def field_denotes_def rangeMask_bits)
next
  case False
  let ?parts = "split_byte (CHR '','') field"
  from False assms(1) have p: "cron_parts ?parts lo hi 0 = Inr bits" "\<not> star"
    by (auto simp: parseCronField_def map_sum_def split: sum.splits)
  obtain part where part: "part \<in> set ?parts" using split_byte_nonempty [of "CHR '',''" field] by (cases ?parts) auto
  from cron_parts_ok [OF p(1) part] obtain a b step where "cron_part part lo hi = Inr (a, b, step)" by blast
  then have "part_denotes part lo hi a" by (rule part_denotes_first)
  then have "field_denotes field lo hi a" using False part by (auto simp: field_denotes_def list_ex_iff)
  moreover have "has_bit bits w = field_denotes field lo hi w" if "0 \<le> w" "w < 64" for w
    using cron_parts_bits [OF assms(2,4) that p(1)] False by (simp add: field_denotes_def)
  ultimately show ?thesis using field_denotes_range p(2) False by blast
qed

theorem cron_next_earliest_witness:
  "CronSchedule_Next (zero_cron\<lparr>cs_every := 5\<rparr>) 100 = Some 105"
  using cron_next_earliest [of "zero_cron\<lparr>cs_every := 5\<rparr>" 100] by (simp add: zero_cron_def split: option.splits)

theorem cron_search_equivalent_witness:
  "minute_scan leap_cron (go_Date 2096 2 29) (go_Date 2096 2 29 + cronSearchLimit) = Some (go_Date 2096 2 29)"
proof -
  have "cs_every leap_cron \<le> 0" "CronSchedule_Next leap_cron (go_Date 2096 2 29 - 1) = Some (go_Date 2096 2 29)"
    "truncate_to minute_ns (go_Date 2096 2 29 - 1) + minute_ns = go_Date 2096 2 29" by code_simp+
  then show ?thesis using cron_search_equivalent [of leap_cron "go_Date 2096 2 29 - 1"] by (simp add: Let_def)
qed

theorem cron_field_bits_witness:
  "\<not> has_bit (fst (projr (parseCronField ''0-30/10,45'' 0 59))) 25"
proof -
  obtain bits star where p: "parseCronField ''0-30/10,45'' 0 59 = Inr (bits, star)"
    by (cases "parseCronField ''0-30/10,45'' 0 59") (use that in \<open>auto, code_simp\<close>)
  have "\<not> field_denotes ''0-30/10,45'' 0 59 25" by code_simp
  with cron_field_bits [OF p] p show ?thesis by simp
qed

text \<open>The search limit of four years is not a full leap cycle. The expression for 29 February has
  no next fire time after 1 March 2096, although it fires on 29 February 2104.\<close>

theorem cron_leap_gap:
  "CronSchedule_Next leap_cron (go_Date 2096 3 1) = None \<and> fires leap_cron (go_Date 2104 2 29)"
proof
  show "fires leap_cron (go_Date 2104 2 29)" by code_simp
  have every: "cs_every leap_cron \<le> 0" by code_simp
  show "CronSchedule_Next leap_cron (go_Date 2096 3 1) = None"
  proof (cases "CronSchedule_Next leap_cron (go_Date 2096 3 1)")
    case (Some u)
    have start: "truncate_to minute_ns (go_Date 2096 3 1) = go_Date 2096 3 1" by code_simp
    from Next_ok [OF every, of "go_Date 2096 3 1"] Some start
    have u: "fires leap_cron u" "go_Date 2096 3 1 \<le> u" "u < go_Date 2096 3 1 + minute_ns + cronSearchLimit"
      by (auto simp: search_ok_def)
    have day: "days_of_date 2096 3 1 \<le> day_of u" "day_of u \<le> days_of_date 2100 3 5"
    proof -
      have "go_Date 2096 3 1 div day_ns \<le> u div day_ns" "u div day_ns \<le> (go_Date 2096 3 1 + minute_ns + cronSearchLimit) div day_ns"
        using u(2,3) by (simp_all add: zdiv_mono1)
      moreover have "go_Date 2096 3 1 div day_ns + epoch_day = days_of_date 2096 3 1"
        "(go_Date 2096 3 1 + minute_ns + cronSearchLimit) div day_ns + epoch_day \<le> days_of_date 2100 3 5" by code_simp+
      ultimately show "days_of_date 2096 3 1 \<le> day_of u" "day_of u \<le> days_of_date 2100 3 5"
        by (simp_all add: day_of_def)
    qed
    have "\<not> leap_day u" by (rule no_leap_day [OF day])
    with leap_cron_fires [OF u(1)] show ?thesis by simp
  qed
qed

end
