(* ===== verification/Scheduler_Tick.thy ===== *)
theory Scheduler_Tick
  imports Memory_Store Cron
begin

text \<open>
  \<^verbatim>\<open>internal/runtime/scheduler.go\<close>: one tick of the scheduler over the in-memory store. It loads the due
  schedules, and for each collects missed occurrences, applies the concurrency policy, runs the workflow
  and persists history and advance in one transaction.

  What a tick relies on is a parameter, \<open>SchedulerEnv\<close>: the parser of durations, the resolver, the run and
  the wakeup of a workflow with their effect on the store, the clock after the run, and the text of an
  error. The mutex and the background loop of \<^verbatim>\<open>Start\<close> are not modelled: the in-flight set is part of the
  state, and other ticks may have put schedules into it. The in-memory store has every capability, so the
  capability check of \<^verbatim>\<open>wakeupRunTerminal\<close> passes.
\<close>

section \<open>Inputs of a run\<close>

record WorkflowRunInput =
  wi_Input :: RawMessage
  wi_Scope :: RuntimeScope
  wi_Metadata :: "(string, string) gomap option"

text \<open>\<^verbatim>\<open>json.Unmarshal\<close> into \<^verbatim>\<open>map[string]string\<close>: a null member is the empty string, the document null is the
  nil map, and any other value is an error. A run without metadata has the nil map too, so both are \<open>None\<close>.\<close>

definition json_string :: "jvalue \<Rightarrow> string option" where
  "json_string v = (case v of JStr s \<Rightarrow> Some s | JNull \<Rightarrow> Some [] | _ \<Rightarrow> None)"

definition unmarshal_string_map :: "string \<Rightarrow> (string, string) gomap option" where
  "unmarshal_string_map s = (case json_parse s of
     Some (JObj ms, _) \<Rightarrow> if list_all (\<lambda>(k, v). json_string v \<noteq> None) ms
       then Some (map (\<lambda>(k, v). (k, case json_string v of Some x \<Rightarrow> x | None \<Rightarrow> [])) ms) else None
   | _ \<Rightarrow> None)"

datatype wake_outcome = WakeDone string | WakeStale | WakeError go_error

record SchedulerEnv =
  env_ParseDuration :: "string \<Rightarrow> int result"
  env_Resolve :: "string \<Rightarrow> bool"
  env_Run :: "string \<Rightarrow> WorkflowRunInput \<Rightarrow> MemoryStore \<Rightarrow> MemoryStore \<times> string \<times> go_error option"
  env_ResumeWake :: "string \<Rightarrow> string \<Rightarrow> string \<Rightarrow> MemoryStore \<Rightarrow> MemoryStore \<times> wake_outcome"
  env_Finished :: "ScheduleRecord \<Rightarrow> Time"
  env_ErrorText :: "go_error \<Rightarrow> string"

section \<open>Executions\<close>

definition ScheduleExecSucceeded :: string where "ScheduleExecSucceeded = ''succeeded''"
definition ScheduleExecFailed :: string where "ScheduleExecFailed = ''failed''"
definition ScheduleExecSkipped :: string where "ScheduleExecSkipped = ''skipped''"
definition ScheduleExecMissed :: string where "ScheduleExecMissed = ''missed''"
definition ConcurrencyAllow :: string where "ConcurrencyAllow = ''allow''"
definition ConcurrencySkip :: string where "ConcurrencySkip = ''skip''"

definition normalized :: "string \<Rightarrow> string" where
  "normalized p = (if p = [] then ConcurrencyAllow else p)"

text \<open>\<^verbatim>\<open>UnixNano\<close> is a 64-bit integer.\<close>

definition newExecution :: "string \<Rightarrow> string \<Rightarrow> string \<Rightarrow> Time \<Rightarrow> Time \<Rightarrow> Time option \<Rightarrow> string \<Rightarrow> ScheduleExecutionRecord" where
  "newExecution scheduleID runID status scheduledFor startedAt finishedAt errMsg =
     \<lparr>se_ID = scheduleID @ ''-'' @ itoa (wrap64 scheduledFor) @ ''-'' @ status, se_ScheduleID = scheduleID,
      se_RunID = runID, se_Namespace = [], se_OwnerID = [], se_Status = status, se_ScheduledFor = scheduledFor,
      se_StartedAt = startedAt, se_FinishedAt = finishedAt, se_Error = errMsg\<rparr>"

record TickResult =
  tr_Fired :: nat
  tr_Skipped :: nat
  tr_Missed :: nat
  tr_Executions :: "ScheduleExecutionRecord list"

definition no_result :: TickResult where
  "no_result = \<lparr>tr_Fired = 0, tr_Skipped = 0, tr_Missed = 0, tr_Executions = []\<rparr>"

section \<open>Missed occurrences\<close>

lemma Next_after:
  assumes "CronSchedule_Next c t = Some n"
  shows "t < n"
proof (cases "0 < cs_every c")
  case True
  with assms show ?thesis by (simp add: CronSchedule_Next_def)
next
  case False
  with Next_ok [of c t] assms show ?thesis by (simp add: search_ok_def)
qed

function collect_loop :: "CronSchedule \<Rightarrow> int \<Rightarrow> (Time \<Rightarrow> ScheduleExecutionRecord) \<Rightarrow> Time \<Rightarrow> Time
    \<Rightarrow> ScheduleExecutionRecord list \<Rightarrow> Time \<times> ScheduleExecutionRecord list" where
  "collect_loop c maxCatchUp miss now latest missed = (case CronSchedule_Next c latest of
     None \<Rightarrow> (latest, missed)
   | Some n \<Rightarrow> if now < n then (latest, missed)
       else collect_loop c maxCatchUp miss now n
         (if 0 \<le> maxCatchUp \<and> int (length missed) < maxCatchUp then missed @ [miss latest] else missed))"
  by pat_completeness auto
termination
  by (relation "measure (\<lambda>(c, maxCatchUp, miss, now, latest, missed). nat (now - latest))") (auto dest: Next_after)

declare collect_loop.simps [simp del]

definition collectMissed :: "int \<Rightarrow> ScheduleRecord \<Rightarrow> Time \<Rightarrow> Time \<Rightarrow> CronSchedule \<Rightarrow> Time \<times> ScheduleExecutionRecord list" where
  "collectMissed maxCatchUp sched firstDue now compiled = collect_loop compiled maxCatchUp
     (\<lambda>t. newExecution (sd_ID sched) [] ScheduleExecMissed t now (Some now) []) now firstDue []"

section \<open>Persisting\<close>

record TickState =
  ts_Inflight :: "string list"
  ts_Store :: MemoryStore
  ts_Result :: TickResult

type_synonym fired = "TickState \<times> go_error option"

fun persist_fn :: "ScheduleExecutionRecord list \<Rightarrow> ScheduleRecord \<Rightarrow> tx_prog" where
  "persist_fn [] sched = Call (Repo (SaveSchedule sched)) Return"
| "persist_fn (v # vs) sched = Call (Repo (SaveScheduleExecution v))
     (\<lambda>r. case r of Some e \<Rightarrow> Return (Some e) | None \<Rightarrow> persist_fn vs sched)"

definition in_scope_of :: "ScheduleRecord \<Rightarrow> ScheduleExecutionRecord \<Rightarrow> ScheduleExecutionRecord" where
  "in_scope_of sched v = v\<lparr>se_Namespace := sd_Namespace sched, se_OwnerID := sd_OwnerID sched\<rparr>"

definition persist :: "Context \<Rightarrow> ScheduleRecord \<Rightarrow> ScheduleExecutionRecord \<Rightarrow> ScheduleExecutionRecord list
    \<Rightarrow> TickState \<Rightarrow> fired" where
  "persist ctx sched exec missed ts = (let exec = in_scope_of sched exec; missed = map (in_scope_of sched) missed in
     case Transaction ctx ctx (persist_fn (missed @ [exec]) sched) (ts_Store ts) (ts_Store ts) of
       (st, Some e) \<Rightarrow> (ts\<lparr>ts_Store := st\<rparr>, Some (Wrapf ''lebro: scheduler: persist schedule %q: %w'' [sd_ID sched] e))
     | (st, None) \<Rightarrow> (ts\<lparr>ts_Store := st, ts_Result := (ts_Result ts)\<lparr>
           tr_Missed := tr_Missed (ts_Result ts) + length missed,
           tr_Executions := tr_Executions (ts_Result ts) @ missed @ [exec]\<rparr>\<rparr>, None))"

definition advance :: "Context \<Rightarrow> ScheduleRecord \<Rightarrow> CronSchedule result \<Rightarrow> Time \<Rightarrow> ScheduleExecutionRecord
    \<Rightarrow> ScheduleExecutionRecord list \<Rightarrow> TickState \<Rightarrow> fired" where
  "advance ctx sched compiled now exec missed ts = persist ctx (sched\<lparr>sd_LastFireAt := Some (se_ScheduledFor exec),
       sd_NextFireAt := (case compiled of Inl e \<Rightarrow> None | Inr c \<Rightarrow> CronSchedule_Next c now), sd_UpdatedAt := now\<rparr>)
     exec missed ts"

definition count_fired :: "fired \<Rightarrow> fired" where
  "count_fired r = (case r of (ts, Some e) \<Rightarrow> (ts, Some e)
     | (ts, None) \<Rightarrow> (ts\<lparr>ts_Result := (ts_Result ts)\<lparr>tr_Fired := tr_Fired (ts_Result ts) + 1\<rparr>\<rparr>, None))"

definition count_skipped :: "fired \<Rightarrow> fired" where
  "count_skipped r = (case r of (ts, Some e) \<Rightarrow> (ts, Some e)
     | (ts, None) \<Rightarrow> (ts\<lparr>ts_Result := (ts_Result ts)\<lparr>tr_Skipped := tr_Skipped (ts_Result ts) + 1\<rparr>\<rparr>, None))"

definition advanceCleared :: "Context \<Rightarrow> ScheduleRecord \<Rightarrow> Time \<Rightarrow> ScheduleExecutionRecord \<Rightarrow> TickState \<Rightarrow> fired" where
  "advanceCleared ctx sched now exec ts = count_fired (persist ctx (sched\<lparr>sd_LastFireAt := Some (se_ScheduledFor exec),
     sd_NextFireAt := None, sd_UpdatedAt := now\<rparr>) exec [] ts)"

section \<open>Running\<close>

definition claimInflight :: "string \<Rightarrow> string list \<Rightarrow> string list option" where
  "claimInflight ident inflight = (if ident \<in> set inflight then None else Some (ident # inflight))"

definition markInflight :: "string \<Rightarrow> string list \<Rightarrow> string list" where
  "markInflight ident inflight = List.insert ident inflight"

definition clearInflight :: "string \<Rightarrow> string list \<Rightarrow> string list" where
  "clearInflight ident inflight = removeAll ident inflight"

definition run_input :: "ScheduleRecord \<Rightarrow> WorkflowRunInput" where
  "run_input sched = \<lparr>wi_Input = cloneJSON (sd_Input sched),
     wi_Scope = \<lparr>sc_Namespace = sd_Namespace sched, sc_OwnerID = sd_OwnerID sched\<rparr>,
     wi_Metadata = (if raw_bytes (sd_Metadata sched) = [] then None else unmarshal_string_map (raw_bytes (sd_Metadata sched)))\<rparr>"

definition runWorkflow :: "SchedulerEnv \<Rightarrow> ScheduleRecord \<Rightarrow> bool \<Rightarrow> TickState \<Rightarrow> TickState \<times> string \<times> go_error option" where
  "runWorkflow env sched claimed ts = (case env_Run env (sd_WorkflowID sched) (run_input sched) (ts_Store ts) of
     (st, runID, err) \<Rightarrow> (ts\<lparr>ts_Store := st, ts_Inflight := (if claimed then ts_Inflight ts
         else clearInflight (sd_ID sched) (markInflight (sd_ID sched) (ts_Inflight ts)))\<rparr>, runID, err))"

text \<open>The run and the advance of a due schedule, after the claim.\<close>

definition run_due :: "SchedulerEnv \<Rightarrow> Context \<Rightarrow> Time \<Rightarrow> ScheduleRecord \<Rightarrow> CronSchedule result \<Rightarrow> Time
    \<Rightarrow> ScheduleExecutionRecord list \<Rightarrow> bool \<Rightarrow> TickState \<Rightarrow> fired" where
  "run_due env ctx now sched compiled scheduledFor missed claimed ts = (case compiled of
     Inl e \<Rightarrow> advanceCleared ctx sched now (newExecution (sd_ID sched) [] ScheduleExecFailed scheduledFor now (Some now)
        (env_ErrorText env (Errorf ''invalid schedule spec %q: %v'' [sd_Spec sched, env_ErrorText env e]))) ts
   | Inr c \<Rightarrow> if \<not> env_Resolve env (sd_WorkflowID sched) then
       count_fired (advance ctx sched compiled now (newExecution (sd_ID sched) [] ScheduleExecFailed scheduledFor now (Some now)
         (env_ErrorText env (Errorf ''no workflow registered for %q'' [sd_WorkflowID sched]))) missed ts)
     else (case runWorkflow env sched claimed ts of (ts', runID, runErr) \<Rightarrow>
       count_fired (advance ctx sched compiled now
         (newExecution (sd_ID sched) runID (case runErr of None \<Rightarrow> ScheduleExecSucceeded | Some e \<Rightarrow> ScheduleExecFailed)
           scheduledFor now (Some (env_Finished env sched)) (case runErr of None \<Rightarrow> [] | Some e \<Rightarrow> env_ErrorText env e))
         missed ts')))"

definition wakeupRunTerminal :: "Context \<Rightarrow> memoryState \<Rightarrow> string \<Rightarrow> bool result" where
  "wakeupRunTerminal ctx s runID = map_sum id
     (\<lambda>run. wr_Status run \<in> {''succeeded'', ''failed'', ''cancelled''}) (getWorkflowRun ctx s runID)"

definition wake_status :: "SchedulerEnv \<Rightarrow> Context \<Rightarrow> ScheduleRecord \<Rightarrow> TickState \<Rightarrow> TickState \<times> (string \<times> string) result" where
  "wake_status env ctx sched ts = (if \<not> env_Resolve env (sd_WorkflowID sched)
     then (ts, Inr (ScheduleExecFailed, env_ErrorText env (Errorf ''no workflow registered for %q'' [sd_WorkflowID sched])))
     else case env_ResumeWake env (sd_WorkflowID sched) (sd_WakeRunID sched) (sd_WakeToken sched) (ts_Store ts) of (st, out) \<Rightarrow>
       (ts\<lparr>ts_Store := st\<rparr>, (case out of
          WakeError e \<Rightarrow> if errors_Is e ErrCanceled \<or> errors_Is e ErrDeadlineExceeded then Inl e
            else (case wakeupRunTerminal ctx (state st) (sd_WakeRunID sched) of
               Inl e' \<Rightarrow> Inl (Wrapf ''lebro: scheduler: inspect wakeup run %q after resume error: %w'' [sd_WakeRunID sched] e')
             | Inr terminal \<Rightarrow> if \<not> terminal then Inl e else Inr (ScheduleExecFailed, env_ErrorText env e))
        | WakeStale \<Rightarrow> Inr (ScheduleExecSucceeded, [])
        | WakeDone status \<Rightarrow> if status \<notin> {''succeeded'', ''failed'', ''cancelled'', ''suspended''}
            then Inl (Errorf ''lebro: scheduler: wakeup run %q returned non-terminal status %q'' [sd_WakeRunID sched, status])
            else Inr (ScheduleExecSucceeded, []))))"

definition fireWakeup :: "SchedulerEnv \<Rightarrow> Context \<Rightarrow> Time \<Rightarrow> ScheduleRecord \<Rightarrow> TickState \<Rightarrow> fired" where
  "fireWakeup env ctx now sched ts = (let scheduledFor = (case sd_NextFireAt sched of None \<Rightarrow> now | Some t \<Rightarrow> t) in
     case wake_status env ctx sched ts of (ts', Inl e) \<Rightarrow> (ts', Some e)
     | (ts', Inr (status, message)) \<Rightarrow> count_fired (persist ctx
         (sched\<lparr>sd_LastFireAt := Some scheduledFor, sd_NextFireAt := None, sd_Paused := True, sd_UpdatedAt := now\<rparr>)
         (newExecution (sd_ID sched) (sd_WakeRunID sched) status scheduledFor now (Some (env_Finished env sched)) message) [] ts'))"

definition fireSchedule :: "SchedulerEnv \<Rightarrow> int \<Rightarrow> Context \<Rightarrow> Time \<Rightarrow> ScheduleRecord \<Rightarrow> TickState \<Rightarrow> fired" where
  "fireSchedule env maxCatchUp ctx now sched ts = (if sd_WakeRunID sched \<noteq> [] then fireWakeup env ctx now sched ts
     else let compiled = ParseCronSpec (env_ParseDuration env) (sd_Spec sched);
            firstDue = (case sd_NextFireAt sched of None \<Rightarrow> now | Some t \<Rightarrow> t);
            (scheduledFor, missed) = (case compiled of Inl e \<Rightarrow> (firstDue, []) | Inr c \<Rightarrow> collectMissed maxCatchUp sched firstDue now c) in
       if normalized (sd_Concurrency sched) = ConcurrencySkip then
         (case claimInflight (sd_ID sched) (ts_Inflight ts) of
            None \<Rightarrow> count_skipped (advance ctx sched compiled now
              (newExecution (sd_ID sched) [] ScheduleExecSkipped scheduledFor now (Some now) []) missed ts)
          | Some inflight \<Rightarrow> (case run_due env ctx now sched compiled scheduledFor missed True (ts\<lparr>ts_Inflight := inflight\<rparr>) of
              (ts', r) \<Rightarrow> (ts'\<lparr>ts_Inflight := clearInflight (sd_ID sched) (ts_Inflight ts')\<rparr>, r)))
       else run_due env ctx now sched compiled scheduledFor missed False ts)"

section \<open>The tick\<close>

definition due_filter :: "Time \<Rightarrow> ScheduleFilter" where
  "due_filter now = \<lparr>sf_WorkflowID = [], sf_DueBy = Some now, sf_Namespace = [], sf_OwnerID = []\<rparr>"

text \<open>The loop over the pages may not end on an arbitrary store; then there is no value.\<close>

definition loadDue :: "Context \<Rightarrow> Time \<Rightarrow> memoryState \<Rightarrow> ScheduleRecord list result option" where
  "loadDue ctx now s = map_option (map_sum (Wrapf ''lebro: scheduler: load due schedules: %w'' []) id)
     (collect_pages (listSchedules ctx s (due_filter now)) 0 [] [])"

fun fire_all :: "SchedulerEnv \<Rightarrow> int \<Rightarrow> Context \<Rightarrow> Time \<Rightarrow> ScheduleRecord list \<Rightarrow> TickState \<Rightarrow> fired" where
  "fire_all env maxCatchUp ctx now [] ts = (ts, None)"
| "fire_all env maxCatchUp ctx now (sched # scheds) ts = (case cx_Err ctx of Some e \<Rightarrow> (ts, Some e)
     | None \<Rightarrow> (case fireSchedule env maxCatchUp ctx now sched ts of (ts', Some e) \<Rightarrow> (ts', Some e)
         | (ts', None) \<Rightarrow> fire_all env maxCatchUp ctx now scheds ts'))"

definition Tick :: "SchedulerEnv \<Rightarrow> int \<Rightarrow> Context \<Rightarrow> Time \<Rightarrow> string list \<Rightarrow> MemoryStore \<Rightarrow> fired option" where
  "Tick env maxCatchUp ctx now inflight st =
     (let ts = \<lparr>ts_Inflight = inflight, ts_Store = st, ts_Result = no_result\<rparr> in
      case cx_Err ctx of Some e \<Rightarrow> Some (ts, Some e)
      | None \<Rightarrow> (case loadDue ctx now (state st) of None \<Rightarrow> None
          | Some (Inl e) \<Rightarrow> Some (ts, Some e)
          | Some (Inr due) \<Rightarrow> Some (fire_all env maxCatchUp ctx now due ts)))"

section \<open>Occurrences\<close>

text \<open>The occurrences of a schedule from its first due one to a given instant.\<close>

function occurrences :: "CronSchedule \<Rightarrow> Time \<Rightarrow> Time \<Rightarrow> Time list" where
  "occurrences c t now = (case CronSchedule_Next c t of None \<Rightarrow> [t]
     | Some n \<Rightarrow> if now < n then [t] else t # occurrences c n now)"
  by pat_completeness auto
termination
  by (relation "measure (\<lambda>(c, t, now). nat (now - t))") (auto dest: Next_after)

declare occurrences.simps [simp del]

lemma occurrences_Cons: "occurrences c t now \<noteq> []" "hd (occurrences c t now) = t"
  by (subst occurrences.simps; simp split: option.split)+

lemma occurrences_sorted:
  "sorted_wrt (<) (occurrences c t now) \<and> (\<forall>u \<in> set (occurrences c t now). t \<le> u)"
proof (induction c t now rule: occurrences.induct)
  case (1 c t now)
  note eq = occurrences.simps [of c t now]
  show ?case
  proof (cases "CronSchedule_Next c t")
    case (Some n)
    then show ?thesis using 1 [of n] Next_after [OF Some] by (auto simp: eq) (use less_le_trans less_imp_le in blast)+
  qed (simp add: eq)
qed

lemma occurrences_due: "t \<le> now \<Longrightarrow> \<forall>u \<in> set (occurrences c t now). u \<le> now"
proof (induction c t now rule: occurrences.induct)
  case (1 c t now)
  note eq = occurrences.simps [of c t now]
  show ?case
  proof (cases "CronSchedule_Next c t")
    case (Some n)
    then show ?thesis using 1 by (auto simp: eq)
  qed (simp add: eq 1)
qed

lemma Next_first:
  assumes "cs_every c \<le> 0" "CronSchedule_Next c t = Some n" "t < u" "u < n"
  shows "\<not> fires c u"
  using Next_ok [OF assms(1), of t] assms(2-4) by (auto simp: search_ok_def)

lemma Next_none:
  assumes "cs_every c \<le> 0" "CronSchedule_Next c t = None" "t < u" "u \<le> t + cronSearchLimit"
  shows "\<not> fires c u"
  using Next_ok [OF assms(1), of t] assms(2-4) truncate_bounds(2) [of minute_ns t] by (auto simp: search_ok_def)

lemma Next_fires: "cs_every c \<le> 0 \<Longrightarrow> CronSchedule_Next c t = Some n \<Longrightarrow> fires c n"
  using Next_ok [of c t] by (simp add: search_ok_def)

lemma occurrences_set:
  assumes "cs_every c \<le> 0"
  shows "t \<le> now \<Longrightarrow> now \<le> t + cronSearchLimit \<Longrightarrow>
    set (occurrences c t now) = insert t {u. t < u \<and> u \<le> now \<and> fires c u}"
  using assms
proof (induction c t now rule: occurrences.induct)
  case (1 c t now)
  note eq = occurrences.simps [of c t now]
  show ?case
  proof (cases "CronSchedule_Next c t")
    case None
    then show ?thesis using 1 Next_none [OF _ None] by (auto simp: eq)
  next
    case (Some n)
    have n: "t < n" "fires c n" by (simp_all add: Next_after [OF Some] Next_fires [OF "1.prems"(3) Some])
    have before: "\<not> fires c u" if "t < u" "u < n" for u by (rule Next_first [OF "1.prems"(3) Some that])
    show ?thesis
    proof (cases "now < n")
      case True
      then show ?thesis using Some before by (auto simp: eq)
    next
      case False
      then have "set (occurrences c n now) = insert n {u. n < u \<and> u \<le> now \<and> fires c u}"
        using 1 Some n by auto
      moreover have "insert n {u. n < u \<and> u \<le> now \<and> fires c u} = {u. t < u \<and> u \<le> now \<and> fires c u}"
        using False n before by (auto simp: not_less) (metis linorder_neqE_linordered_idom)
      ultimately show ?thesis using Some False by (simp add: eq)
    qed
  qed
qed

definition cap :: "int \<Rightarrow> nat" where
  "cap maxCatchUp = (if maxCatchUp < 0 then 0 else nat maxCatchUp)"

lemma collect_loop_eq:
  "length missed \<le> cap m \<Longrightarrow> collect_loop c m miss now t missed
    = (last (occurrences c t now), missed @ map miss (take (cap m - length missed) (butlast (occurrences c t now))))"
proof (induction c m miss now t missed rule: collect_loop.induct)
  case (1 c m miss now t missed)
  note eq = collect_loop.simps [of c m miss now t missed] and eq' = occurrences.simps [of c t now]
  show ?case
  proof (cases "CronSchedule_Next c t")
    case (Some n)
    show ?thesis
    proof (cases "now < n")
      case False
      let ?missed = "if 0 \<le> m \<and> int (length missed) < m then missed @ [miss t] else missed"
      have "length ?missed \<le> cap m" using "1.prems" by (auto simp: cap_def)
      with 1(1) [OF Some False] have "collect_loop c m miss now t missed
          = (last (occurrences c n now), ?missed @ map miss (take (cap m - length ?missed) (butlast (occurrences c n now))))"
        using Some False by (simp add: eq)
      moreover have "occurrences c t now = t # occurrences c n now" using Some False by (simp add: eq')
      moreover have "(0 \<le> m \<and> int (length missed) < m) = (length missed < cap m)" by (auto simp: cap_def)
      moreover have "cap m - Suc (length missed) = k" if "cap m - length missed = Suc k" for k
        using that by simp
      ultimately show ?thesis
        using "1.prems" occurrences_Cons(1) [of c n now] by (cases "cap m - length missed") auto
    qed (simp add: Some eq eq')
  qed (simp add: eq eq')
qed

section \<open>Execution IDs\<close>

definition exec_statuses :: "string list" where
  "exec_statuses = [ScheduleExecSucceeded, ScheduleExecFailed, ScheduleExecSkipped, ScheduleExecMissed]"

lemma status_no_dash: "status \<in> set exec_statuses \<Longrightarrow> CHR ''-'' \<notin> set status"
  by (auto simp: exec_statuses_def ScheduleExecSucceeded_def ScheduleExecFailed_def ScheduleExecSkipped_def ScheduleExecMissed_def)

lemma newExecution_id:
  assumes "status \<in> set exec_statuses" "status' \<in> set exec_statuses"
    "se_ID (newExecution k run status t a b m) = se_ID (newExecution k run' status' t' a' b' m')"
  shows "wrap64 t = wrap64 t' \<and> status = status'"
proof -
  have "itoa (wrap64 t) @ CHR ''-'' # status = itoa (wrap64 t') @ CHR ''-'' # status'"
    using assms(3) by (simp add: newExecution_def)
  from cut_last_inj [OF status_no_dash [OF assms(1)] status_no_dash [OF assms(2)] this]
  show ?thesis by (simp add: itoa_inj)
qed

section \<open>What a tick leaves due\<close>

definition due :: "Time \<Rightarrow> ScheduleRecord \<Rightarrow> bool" where
  "due now v = scheduleMatchesFilter (due_filter now) v"

definition due_ids :: "Time \<Rightarrow> memoryState \<Rightarrow> string set" where
  "due_ids now s = {k. \<exists>v. mget (schedules s) k = Some v \<and> due now v}"

lemma due_iff: "due now v \<longleftrightarrow> \<not> sd_Paused v \<and> (case sd_NextFireAt v of None \<Rightarrow> False | Some t \<Rightarrow> t \<le> now)"
  by (auto simp: due_def scheduleMatchesFilter_def due_filter_def split: option.split)

lemma due_clone [simp]: "due now (cloneScheduleRecord v) = due now v"
  by (simp add: due_iff cloneScheduleRecord_def)

lemma save_execution_schedules: "schedules (fst (saveScheduleExecution ctx s v)) = schedules s"
  by (simp add: saveScheduleExecution_def insert_execution_def Let_def split: option.split)

lemma save_schedule_schedules:
  "saveSchedule ctx s v = (s', None) \<Longrightarrow> schedules s' = mset_at (sd_ID v) (cloneScheduleRecord v) (schedules s)"
  by (auto simp: saveSchedule_def commit_if_None)

lemma run_persist_fn:
  "run_tx (persist_fn vs sched) ctx tx = (tx', None) \<Longrightarrow>
    schedules (tx_state tx') = mset_at (sd_ID sched) (cloneScheduleRecord sched) (schedules (tx_state tx)) \<and> dirty tx'"
proof (induction vs arbitrary: tx)
  case Nil
  then show ?case
    by (auto simp: repositories_exec_def dest: save_schedule_schedules split: prod.splits option.splits)
next
  case (Cons v vs)
  obtain tx1 r where e: "repositories_exec ctx (Repo (SaveScheduleExecution v)) tx = (tx1, r)" by fastforce
  have "schedules (tx_state tx1) = schedules (tx_state tx)"
    using repositories_exec_state [of ctx "Repo (SaveScheduleExecution v)" tx] e by (simp add: save_execution_schedules)
  with Cons e show ?case by (cases r) auto
qed

lemma Transaction_ok:
  assumes "store_ok (state st)" "store_ok (state st')"
  shows "store_ok (state (fst (Transaction ctx ctx' fn st st')))"
proof -
  have "store_ok (tx_state (fst (run_tx fn ctx (tx_begin st))))"
    by (rule run_tx_ok) (simp add: tx_begin_def store_ok_clone assms)
  then show ?thesis using assms(2) by (auto simp: Transaction_def tx_commit_def split: option.splits prod.splits)
qed

lemma persist_due:
  assumes "persist ctx sched exec missed ts = (ts', None)" "\<not> due now sched" "store_ok (state (ts_Store ts))"
  shows "due_ids now (state (ts_Store ts')) \<subseteq> due_ids now (state (ts_Store ts)) - {sd_ID sched} \<and> store_ok (state (ts_Store ts'))"
proof -
  let ?st = "ts_Store ts" and ?fn = "persist_fn (map (in_scope_of sched) missed @ [in_scope_of sched exec]) sched"
  from assms(1) have t: "Transaction ctx ctx ?fn ?st ?st = (ts_Store ts', None)"
    by (auto simp: persist_def Let_def split: prod.splits option.splits)
  then obtain tx where r: "run_tx ?fn ctx (tx_begin ?st) = (tx, None)" and c: "tx_commit (version ?st) tx ?st = (ts_Store ts', None)"
    by (auto simp: Transaction_def split: option.splits prod.splits)
  from run_persist_fn [OF r] have "dirty tx" by simp
  from tx_commit_dirty [OF this c] have "state (ts_Store ts') = tx_state tx" by simp
  with run_persist_fn [OF r] have "schedules (state (ts_Store ts'))
      = mset_at (sd_ID sched) (cloneScheduleRecord sched) (map_values cloneScheduleRecord (schedules (state ?st)))"
    by (simp add: tx_begin_def cloneMemoryState_def)
  then have "due_ids now (state (ts_Store ts')) \<subseteq> due_ids now (state ?st) - {sd_ID sched}"
    using assms(2) by (auto simp: due_ids_def split: if_splits)
  moreover have "store_ok (state (ts_Store ts'))"
    using Transaction_ok [of ?st ?st ctx ctx ?fn] assms(3) t by simp
  ultimately show ?thesis by simp
qed

lemma count_None: "count_fired r = (ts', None) \<Longrightarrow> \<exists>ts. r = (ts, None) \<and> ts_Store ts' = ts_Store ts"
  "count_skipped r = (ts', None) \<Longrightarrow> \<exists>ts. r = (ts, None) \<and> ts_Store ts' = ts_Store ts"
  by (auto simp: count_fired_def count_skipped_def split: prod.splits option.splits)

lemma advance_due:
  assumes "advance ctx sched compiled now exec missed ts = (ts', None)" "store_ok (state (ts_Store ts))"
  shows "due_ids now (state (ts_Store ts')) \<subseteq> due_ids now (state (ts_Store ts)) - {sd_ID sched} \<and> store_ok (state (ts_Store ts'))"
proof -
  have "\<not> due now (sched\<lparr>sd_LastFireAt := Some (se_ScheduledFor exec),
       sd_NextFireAt := (case compiled of Inl e \<Rightarrow> None | Inr c \<Rightarrow> CronSchedule_Next c now), sd_UpdatedAt := now\<rparr>)"
    using Next_after by (fastforce simp: due_iff split: option.splits sum.splits)
  from persist_due [OF _ this assms(2)] assms(1) show ?thesis by (simp add: advance_def)
qed

lemma advanceCleared_due:
  assumes "advanceCleared ctx sched now exec ts = (ts', None)" "store_ok (state (ts_Store ts))"
  shows "due_ids now (state (ts_Store ts')) \<subseteq> due_ids now (state (ts_Store ts)) - {sd_ID sched} \<and> store_ok (state (ts_Store ts'))"
proof -
  let ?sched = "sched\<lparr>sd_LastFireAt := Some (se_ScheduledFor exec), sd_NextFireAt := None, sd_UpdatedAt := now\<rparr>"
  obtain ts1 where "persist ctx ?sched exec [] ts = (ts1, None)" "ts_Store ts' = ts_Store ts1"
    using assms(1) count_None(1) unfolding advanceCleared_def by blast
  with persist_due [OF this(1), of now] assms(2) show ?thesis by (simp add: due_iff)
qed

lemma advance_count_due:
  assumes "count_fired (advance ctx sched compiled now exec missed ts) = (ts', None)
      \<or> count_skipped (advance ctx sched compiled now exec missed ts) = (ts', None)" "store_ok (state (ts_Store ts))"
  shows "due_ids now (state (ts_Store ts')) \<subseteq> due_ids now (state (ts_Store ts)) - {sd_ID sched} \<and> store_ok (state (ts_Store ts'))"
proof -
  obtain ts1 where a: "advance ctx sched compiled now exec missed ts = (ts1, None)" and s: "ts_Store ts' = ts_Store ts1"
    using assms(1) count_None by blast
  show ?thesis unfolding s by (rule advance_due [OF a assms(2)])
qed

text \<open>What a tick relies on of the workflows: they keep the store well formed and make no schedule due at the
  instant of the tick.\<close>

definition runs_make_nothing_due :: "SchedulerEnv \<Rightarrow> Time \<Rightarrow> bool" where
  "runs_make_nothing_due env now \<longleftrightarrow> (\<forall>st. store_ok (state st) \<longrightarrow>
     (\<forall>w i. store_ok (state (fst (env_Run env w i st))) \<and> due_ids now (state (fst (env_Run env w i st))) \<subseteq> due_ids now (state st))
   \<and> (\<forall>w r k. store_ok (state (fst (env_ResumeWake env w r k st)))
        \<and> due_ids now (state (fst (env_ResumeWake env w r k st))) \<subseteq> due_ids now (state st)))"

lemma run_due_due:
  assumes "run_due env ctx now sched compiled t missed claimed ts = (ts', None)" "store_ok (state (ts_Store ts))"
    "runs_make_nothing_due env now"
  shows "due_ids now (state (ts_Store ts')) \<subseteq> due_ids now (state (ts_Store ts)) - {sd_ID sched} \<and> store_ok (state (ts_Store ts'))"
proof (cases compiled)
  case (Inl e)
  with assms(1) advanceCleared_due [OF _ assms(2)] show ?thesis by (auto simp: run_due_def)
next
  case (Inr c)
  show ?thesis
  proof (cases "env_Resolve env (sd_WorkflowID sched)")
    case False
    with Inr assms(1) show ?thesis by (intro advance_count_due [OF _ assms(2)] disjI1) (simp add: run_due_def)
  next
    case True
    obtain st runID err where r: "env_Run env (sd_WorkflowID sched) (run_input sched) (ts_Store ts) = (st, runID, err)"
      by (metis prod_cases3)
    have st: "store_ok (state st)" "due_ids now (state st) \<subseteq> due_ids now (state (ts_Store ts))"
      using assms(2,3) r unfolding runs_make_nothing_due_def by (metis fst_conv)+
    obtain ts1 where ts1: "fst (runWorkflow env sched claimed ts) = ts1" "ts_Store ts1 = st"
      by (simp add: runWorkflow_def r)
    have "\<exists>exec. count_fired (advance ctx sched (Inr c) now exec missed ts1) = (ts', None)"
      using True Inr assms(1) ts1(1) by (auto simp: run_due_def split: prod.splits)
    with advance_count_due [of ctx sched "Inr c" now _ missed ts1 ts'] st ts1(2) show ?thesis by blast
  qed
qed

lemma fireWakeup_due:
  assumes "fireWakeup env ctx now sched ts = (ts', None)" "store_ok (state (ts_Store ts))" "runs_make_nothing_due env now"
  shows "due_ids now (state (ts_Store ts')) \<subseteq> due_ids now (state (ts_Store ts)) - {sd_ID sched} \<and> store_ok (state (ts_Store ts'))"
proof -
  obtain ts1 r where w: "wake_status env ctx sched ts = (ts1, r)" by fastforce
  have ts1: "store_ok (state (ts_Store ts1))" "due_ids now (state (ts_Store ts1)) \<subseteq> due_ids now (state (ts_Store ts))"
  proof -
    have "ts_Store ts1 = ts_Store ts \<or> (\<exists>w r k. ts_Store ts1 = fst (env_ResumeWake env w r k (ts_Store ts)))"
      using w by (auto simp: wake_status_def split: if_splits prod.splits) (metis fst_conv)+
    then show "store_ok (state (ts_Store ts1))" "due_ids now (state (ts_Store ts1)) \<subseteq> due_ids now (state (ts_Store ts))"
      using assms(2,3) unfolding runs_make_nothing_due_def by (metis order_refl)+
  qed
  from assms(1) w obtain ts2 sched' exec where p: "persist ctx sched' exec [] ts1 = (ts2, None)" "ts_Store ts' = ts_Store ts2"
    "sd_ID sched' = sd_ID sched" "\<not> due now sched'"
    by (auto simp: fireWakeup_def Let_def due_iff dest!: count_None(1) split: sum.splits)
  from persist_due [OF p(1,4) ts1(1)] ts1(2) p(2,3) show ?thesis by auto
qed

lemma fireSchedule_due:
  assumes "fireSchedule env m ctx now sched ts = (ts', None)" "store_ok (state (ts_Store ts))" "runs_make_nothing_due env now"
  shows "due_ids now (state (ts_Store ts')) \<subseteq> due_ids now (state (ts_Store ts)) - {sd_ID sched} \<and> store_ok (state (ts_Store ts'))"
proof (cases "sd_WakeRunID sched = []")
  case False
  with assms(1) show ?thesis by (intro fireWakeup_due [OF _ assms(2,3)]) (simp add: fireSchedule_def)
next
  case True
  define compiled where "compiled = ParseCronSpec (env_ParseDuration env) (sd_Spec sched)"
  obtain t missed where "(case compiled of Inl e \<Rightarrow> (case sd_NextFireAt sched of None \<Rightarrow> now | Some t \<Rightarrow> t, [])
      | Inr c \<Rightarrow> collectMissed m sched (case sd_NextFireAt sched of None \<Rightarrow> now | Some t \<Rightarrow> t) now c) = (t, missed)" by fastforce
  then have eq: "fireSchedule env m ctx now sched ts = (if normalized (sd_Concurrency sched) = ConcurrencySkip then
         (case claimInflight (sd_ID sched) (ts_Inflight ts) of
            None \<Rightarrow> count_skipped (advance ctx sched compiled now
              (newExecution (sd_ID sched) [] ScheduleExecSkipped t now (Some now) []) missed ts)
          | Some inflight \<Rightarrow> (case run_due env ctx now sched compiled t missed True (ts\<lparr>ts_Inflight := inflight\<rparr>) of
              (ts', r) \<Rightarrow> (ts'\<lparr>ts_Inflight := clearInflight (sd_ID sched) (ts_Inflight ts')\<rparr>, r)))
       else run_due env ctx now sched compiled t missed False ts)"
    using True by (simp add: fireSchedule_def Let_def flip: compiled_def)
  show ?thesis
  proof (cases "normalized (sd_Concurrency sched) = ConcurrencySkip")
    case False
    with assms(1) eq show ?thesis by (intro run_due_due [OF _ assms(2,3)]) simp
  next
    case skip: True
    show ?thesis
    proof (cases "claimInflight (sd_ID sched) (ts_Inflight ts)")
      case None
      with assms(1) eq skip show ?thesis by (intro advance_count_due [OF _ assms(2)] disjI2) simp
    next
      case (Some inflight)
      with assms(1) eq skip obtain ts1 where
        r: "run_due env ctx now sched compiled t missed True (ts\<lparr>ts_Inflight := inflight\<rparr>) = (ts1, None)"
        and s: "ts_Store ts' = ts_Store ts1" by (auto split: prod.splits)
      from run_due_due [OF r _ assms(3)] assms(2) show ?thesis by (simp add: s)
    qed
  qed
qed

lemma fire_all_due:
  assumes "runs_make_nothing_due env now"
  shows "fire_all env m ctx now scheds ts = (ts', None) \<Longrightarrow> store_ok (state (ts_Store ts)) \<Longrightarrow>
    due_ids now (state (ts_Store ts')) \<subseteq> due_ids now (state (ts_Store ts)) - sd_ID ` set scheds \<and> store_ok (state (ts_Store ts'))"
proof (induction scheds arbitrary: ts)
  case (Cons sched scheds)
  then obtain ts1 where f: "fireSchedule env m ctx now sched ts = (ts1, None)" and r: "fire_all env m ctx now scheds ts1 = (ts', None)"
    by (auto split: option.splits prod.splits)
  from fireSchedule_due [OF f Cons.prems(2) assms] Cons.IH [OF r] show ?case by auto
qed simp

lemma loadDue_all:
  assumes "cx_Err ctx = None" "int (length (schedules s)) \<le> max_int64"
  shows "loadDue ctx now s = Some (Inr (map cloneScheduleRecord (filteredSchedules s (due_filter now))))"
proof -
  have "listSchedules ctx s (due_filter now) = (\<lambda>p. paginate (filteredSchedules s (due_filter now)) p cloneScheduleRecord)"
    using assms(1) by (simp add: fun_eq_iff listSchedules_def)
  moreover have "collect_pages (\<lambda>p. paginate (filteredSchedules s (due_filter now)) p cloneScheduleRecord) 0 [] []
      = Some (Inr (map cloneScheduleRecord (filteredSchedules s (due_filter now))))"
    using assms(2) filteredSchedules_length [of s "due_filter now"] by (intro paged.collect_all) auto
  ultimately show ?thesis by (simp add: loadDue_def)
qed

lemma loaded_ids:
  assumes "store_ok s"
  shows "sd_ID ` set (map cloneScheduleRecord (filteredSchedules s (due_filter now))) = due_ids now s"
proof -
  have ident: "sd_ID v = k" if "mget (schedules s) k = Some v" for k v
    using that schedule_okD(4) [of "schedules s" "executions s" "executionIDs s"] assms by (auto simp: store_ok_def)
  have "sd_ID ` set (map cloneScheduleRecord (filteredSchedules s (due_filter now)))
      = sd_ID ` {v. (\<exists>k. mget (schedules s) k = Some v) \<and> due now v}"
    by (simp add: filteredSchedules_set due_def image_image)
  also have "\<dots> = due_ids now s"
    unfolding due_ids_def using ident by (auto simp: image_iff)
  finally show ?thesis .
qed

definition sample_env :: SchedulerEnv where
  "sample_env = \<lparr>env_ParseDuration = no_duration, env_Resolve = (\<lambda>_. True), env_Run = (\<lambda>_ _ st. (st, ''run1'', None)),
     env_ResumeWake = (\<lambda>_ _ _ st. (st, WakeStale)), env_Finished = (\<lambda>_. 0), env_ErrorText = (\<lambda>_. [])\<rparr>"

definition tick_store :: MemoryStore where
  "tick_store = NewMemoryStore\<lparr>state := fst (saveSchedule background newMemoryState ((sample_schedule ''s1'')\<lparr>sd_Spec := ''*/5 * * * *''\<rparr>))\<rparr>"

section \<open>Properties\<close>




text \<open>C37 execution_ids_unique: within a schedule, an execution ID determines the occurrence and the status it was made
  for, so the history holds at most one execution of a status per occurrence.\<close>

theorem execution_ids_unique:
  assumes "status \<in> set exec_statuses" "status' \<in> set exec_statuses" "in_int64 t" "in_int64 t'"
    "se_ID (newExecution k run status t a b m) = se_ID (newExecution k run' status' t' a' b' m')"
  shows "t = t' \<and> status = status'"
  using newExecution_id [OF assms(1,2,5)] assms(3,4) by (simp add: wrap64_id)

theorem execution_ids_unique_witness:
  "se_ID (newExecution ''s1'' [] ScheduleExecMissed 100 0 None []) \<noteq> se_ID (newExecution ''s1'' [] ScheduleExecFailed 100 0 None [])"
  using execution_ids_unique [of ScheduleExecMissed ScheduleExecFailed 100 100 "''s1''" "[]" 0 None "[]" "[]" 0 None "[]"]
  by (auto simp: exec_statuses_def in_int64_def max_int64_def min_int64_def ScheduleExecMissed_def ScheduleExecFailed_def)


end
