(* ===== verification/Workflow_Def.thy ===== *)
theory Workflow_Def
  imports Authz Json "HOL-Library.Sublist"
begin

text \<open>
  Definitions of workflows (\<^verbatim>\<open>workflow.go\<close>): the tree of steps an application declares, the checks of
  \<^verbatim>\<open>validateStepTree\<close>, and the compiled tree the executor walks.

  A step handler is application code: a function of its invocation, its input, the store the workflow is bound to
  (which it may read) and the world \<open>'w\<close>, which stands for everything else it can depend on or change. Conditions
  and input mappers must be pure, so they are functions of their input. The schema compiler is a third-party
  package and a parameter. Names and descriptions of steps have no effect and are left out.
\<close>

section \<open>Steps as declared\<close>

type_synonym schema = "RawMessage \<Rightarrow> go_error option"

record RetryPolicy =
  rt_Attempts :: int
  rt_Delay :: int
  rt_Retryable :: "(go_error \<Rightarrow> bool) option"

record SuspendSignal =
  ss_StepID :: string
  ss_Contract :: RawMessage
  ss_Payload :: RawMessage

record workflowInvocation =
  iv_runID :: string
  iv_step :: int
  iv_stepID :: string
  iv_threadID :: string
  iv_metadata :: "(string, string) gomap"

text \<open>What a handler call ends with. An error that matches \<^verbatim>\<open>ErrWorkflowSuspend\<close> carries a signal if it is a
  \<^verbatim>\<open>SuspendError\<close>.\<close>

datatype step_return = Output RawMessage | Failure go_error | Suspending "SuspendSignal option" go_error | Panic string

record MapStep =
  mp_Path :: string
  mp_Fields :: "(string, string) gomap"

datatype ('s, 'w) Step = Step
    (s_ID: string) (s_InputSchema: string) (s_OutputSchema: string) (s_SuspendSchema: string) (s_Retry: "RetryPolicy option")
    (s_Branches: "('s, 'w) Branch list") (s_Default: string) (s_FanOut: "('s, 'w) FanOut option") (s_Map: "MapStep option")
    (s_ForEach: "('s, 'w) ForEach option") (s_DoWhile: "('s, 'w) Loop option") (s_DoUntil: "('s, 'w) Loop option")
    (s_Sleep: "int option") (s_SleepUntil: "Time option")
    (s_Handler: "(workflowInvocation \<Rightarrow> RawMessage \<Rightarrow> 's \<Rightarrow> 'w \<Rightarrow> step_return \<times> 'w) option")
and ('s, 'w) Branch = Branch (b_Name: string) (b_Condition: "(RawMessage \<Rightarrow> bool result) option") (b_Steps: "('s, 'w) Step list")
and ('s, 'w) FanOut = FanOut (fo_Branches: "('s, 'w) FanOutBranch list") (fo_MaxParallel: int) (fo_FailurePolicy: string)
and ('s, 'w) FanOutBranch = FanOutBranch (fbr_Name: string) (fbr_InputMapper: "(RawMessage \<Rightarrow> RawMessage result) option")
    (fbr_Steps: "('s, 'w) Step list")
and ('s, 'w) ForEach = ForEach (fe_Steps: "('s, 'w) Step list") (fe_MaxParallel: int)
and ('s, 'w) Loop = Loop (lp_Steps: "('s, 'w) Step list") (lp_MaxIterations: int) (lp_Condition: "(RawMessage \<Rightarrow> int \<Rightarrow> bool result) option")

type_synonym ('s, 'w) handler = "workflowInvocation \<Rightarrow> RawMessage \<Rightarrow> 's \<Rightarrow> 'w \<Rightarrow> step_return \<times> 'w"

section \<open>Validation\<close>

definition FanOutFailFast :: string where "FanOutFailFast = ''fail_fast''"
definition FanOutCollectAll :: string where "FanOutCollectAll = ''collect_all''"

definition maxLoopIterations :: int where "maxLoopIterations = 4294967294"

definition controlCount :: "('s, 'w) Step \<Rightarrow> nat" where
  "controlCount st = length (filter id [s_Branches st \<noteq> [], s_FanOut st \<noteq> None, s_Map st \<noteq> None, s_ForEach st \<noteq> None,
     s_DoWhile st \<noteq> None, s_DoUntil st \<noteq> None, s_Sleep st \<noteq> None, s_SleepUntil st \<noteq> None])"

definition control_flow :: "('s, 'w) Step \<Rightarrow> bool" where
  "control_flow st \<longleftrightarrow> s_Branches st \<noteq> [] \<or> s_FanOut st \<noteq> None \<or> s_Map st \<noteq> None \<or> s_ForEach st \<noteq> None
     \<or> s_DoWhile st \<noteq> None \<or> s_DoUntil st \<noteq> None \<or> s_Sleep st \<noteq> None \<or> s_SleepUntil st \<noteq> None"

definition bad_path :: "string \<Rightarrow> bool" where
  "bad_path path \<longleftrightarrow> path \<noteq> ''.'' \<and> (prefix ''.'' path \<or> suffix ''.'' path \<or> sublist ''..'' path)"

definition branching_err :: "('s, 'w) Step \<Rightarrow> go_error option" where
  "branching_err st = first_err [
     chk (s_Handler st \<noteq> None) (Errorf ''lebro: workflow branching step %q must not declare a Handler'' [s_ID st]),
     chk (s_OutputSchema st \<noteq> []) (Errorf ''lebro: workflow branching step %q must not declare OutputSchema'' [s_ID st]),
     chk (s_SuspendSchema st \<noteq> []) (Errorf ''lebro: workflow branching step %q must not declare SuspendSchema'' [s_ID st]),
     chk (s_Retry st \<noteq> None) (Errorf ''lebro: workflow branching step %q must not declare Retry'' [s_ID st])]"

definition fanout_err :: "('s, 'w) Step \<Rightarrow> ('s, 'w) FanOut \<Rightarrow> go_error option" where
  "fanout_err st fo = first_err [
     chk (s_Handler st \<noteq> None) (Errorf ''lebro: workflow fan-out step %q must not declare a Handler'' [s_ID st]),
     chk (s_OutputSchema st \<noteq> []) (Errorf ''lebro: workflow fan-out step %q must not declare OutputSchema'' [s_ID st]),
     chk (s_SuspendSchema st \<noteq> []) (Errorf ''lebro: workflow fan-out step %q must not declare SuspendSchema'' [s_ID st]),
     chk (s_Retry st \<noteq> None) (Errorf ''lebro: workflow fan-out step %q must not declare Retry'' [s_ID st]),
     chk (fo_Branches fo = []) (Errorf ''lebro: workflow fan-out step %q has no branches'' [s_ID st]),
     chk (fo_MaxParallel fo < 0) (Errorf ''lebro: workflow fan-out step %q MaxParallel must be >= 0'' [s_ID st]),
     chk (fo_FailurePolicy fo \<notin> {[], FanOutFailFast, FanOutCollectAll})
       (Errorf ''lebro: workflow fan-out step %q has invalid FailurePolicy %q'' [s_ID st, fo_FailurePolicy fo])]"

definition map_err :: "('s, 'w) Step \<Rightarrow> MapStep \<Rightarrow> go_error option" where
  "map_err st m = first_err ([
     chk (s_Handler st \<noteq> None) (Errorf ''lebro: workflow map step %q must not declare a Handler'' [s_ID st]),
     chk (s_SuspendSchema st \<noteq> [] \<or> s_Retry st \<noteq> None)
       (Errorf ''lebro: workflow map step %q must not declare SuspendSchema or Retry'' [s_ID st]),
     chk (mp_Path m \<noteq> [] \<and> mp_Fields m \<noteq> []) (Errorf ''lebro: workflow map step %q cannot declare both Path and Fields'' [s_ID st]),
     chk (mp_Path m = [] \<and> mp_Fields m = []) (Errorf ''lebro: workflow map step %q has no Path or Fields'' [s_ID st]),
     chk (mp_Path m \<noteq> [] \<and> bad_path (mp_Path m)) (Errorf ''lebro: workflow map step %q has invalid Path %q'' [s_ID st, mp_Path m])]
     @ concat (map (\<lambda>(key, path). [
         chk (key = [] \<or> path = []) (Errorf ''lebro: workflow map step %q has empty field name or path'' [s_ID st]),
         chk (bad_path path) (Errorf ''lebro: workflow map step %q field %q has invalid path %q'' [s_ID st, key, path])]) (mp_Fields m)))"

definition foreach_err :: "('s, 'w) Step \<Rightarrow> ('s, 'w) ForEach \<Rightarrow> go_error option" where
  "foreach_err st fe = first_err ([
     chk (s_Handler st \<noteq> None) (Errorf ''lebro: workflow foreach step %q must not declare a Handler'' [s_ID st]),
     chk (s_OutputSchema st \<noteq> [] \<or> s_SuspendSchema st \<noteq> [] \<or> s_Retry st \<noteq> None)
       (Errorf ''lebro: workflow foreach step %q must not declare OutputSchema, SuspendSchema, or Retry'' [s_ID st]),
     chk (fe_MaxParallel fe < 0) (Errorf ''lebro: workflow foreach step %q MaxParallel must be >= 0'' [s_ID st]),
     chk (fe_Steps fe = []) (Errorf ''lebro: workflow foreach step %q has no steps'' [s_ID st])]
     @ map (\<lambda>child. chk (control_flow child)
         (Errorf ''lebro: workflow foreach step %q cannot contain child control-flow step %q'' [s_ID st, s_ID child])) (fe_Steps fe))"

definition loop_err :: "('s, 'w) Step \<Rightarrow> ('s, 'w) Loop \<Rightarrow> go_error option" where
  "loop_err st lp = first_err ([
     chk (s_Handler st \<noteq> None) (Errorf ''lebro: workflow loop step %q must not declare a Handler'' [s_ID st]),
     chk (s_OutputSchema st \<noteq> [] \<or> s_SuspendSchema st \<noteq> [] \<or> s_Retry st \<noteq> None)
       (Errorf ''lebro: workflow loop step %q must not declare OutputSchema, SuspendSchema, or Retry'' [s_ID st]),
     chk (lp_MaxIterations lp < 1 \<or> maxLoopIterations < lp_MaxIterations lp)
       (Errorf ''lebro: workflow loop step %q MaxIterations must be between 1 and %d'' [s_ID st, itoa maxLoopIterations]),
     chk (lp_Condition lp = None) (Errorf ''lebro: workflow loop step %q has nil Condition'' [s_ID st]),
     chk (lp_Steps lp = []) (Errorf ''lebro: workflow loop step %q has no steps'' [s_ID st])]
     @ concat (map (\<lambda>child. [chk (control_flow child)
         (Errorf ''lebro: workflow loop step %q cannot contain child control-flow step %q'' [s_ID st, s_ID child]),
         chk (s_SuspendSchema child \<noteq> [])
         (Errorf ''lebro: workflow loop step %q cannot contain suspendable child step %q'' [s_ID st, s_ID child])]) (lp_Steps lp)))"

definition sleep_err :: "('s, 'w) Step \<Rightarrow> go_error option" where
  "sleep_err st = first_err [
     chk (s_Handler st \<noteq> None) (Errorf ''lebro: workflow sleep step %q must not declare a Handler'' [s_ID st]),
     chk (s_SuspendSchema st \<noteq> [] \<or> s_Retry st \<noteq> None)
       (Errorf ''lebro: workflow sleep step %q must not declare SuspendSchema or Retry'' [s_ID st]),
     (case s_Sleep st of Some d \<Rightarrow> chk (d < 0) (Errorf ''lebro: workflow sleep step %q Duration must be >= 0'' [s_ID st]) | None \<Rightarrow> None),
     (case s_SleepUntil st of Some t \<Rightarrow> chk (t = zero_time) (Errorf ''lebro: workflow sleep-until step %q At is required'' [s_ID st]) | None \<Rightarrow> None)]"

definition handler_err :: "('s, 'w) Step \<Rightarrow> go_error option" where
  "handler_err st = chk (s_Handler st = None) (Errorf ''lebro: workflow step %q handler is required'' [s_ID st])"

text \<open>The checks of one step that come before its children are visited.\<close>

definition step_err :: "('s, 'w) Step \<Rightarrow> string list \<Rightarrow> go_error option" where
  "step_err st seen = first_err [
     chk (s_ID st = []) (Errorf ''lebro: workflow step ID is required'' []),
     chk (s_ID st \<in> set seen) (Errorf ''lebro: workflow step ID %q is already registered'' [s_ID st]),
     chk (s_Branches st \<noteq> [] \<and> s_FanOut st \<noteq> None) (Errorf ''lebro: workflow step %q cannot declare both Branches and FanOut'' [s_ID st]),
     chk (1 < controlCount st) (Errorf ''lebro: workflow step %q cannot combine control-flow definitions'' [s_ID st]),
     (if s_Branches st \<noteq> [] then branching_err st
      else case s_FanOut st of Some fo \<Rightarrow> fanout_err st fo
      | None \<Rightarrow> (case s_Map st of Some m \<Rightarrow> map_err st m
      | None \<Rightarrow> (case s_ForEach st of Some fe \<Rightarrow> foreach_err st fe
      | None \<Rightarrow> (case s_DoWhile st of Some lp \<Rightarrow> loop_err st lp
      | None \<Rightarrow> (case s_DoUntil st of Some lp \<Rightarrow> loop_err st lp
      | None \<Rightarrow> if s_Sleep st \<noteq> None \<or> s_SleepUntil st \<noteq> None then sleep_err st else handler_err st)))))]"

text \<open>The lists of children a step has, each with the checks made just before the list is visited.\<close>

type_synonym ('s, 'w) group = "go_error option \<times> ('s, 'w) Step list"

fun branch_groups :: "string \<Rightarrow> string list \<Rightarrow> ('s, 'w) Branch list \<Rightarrow> ('s, 'w) group list" where
  "branch_groups ident names [] = []"
| "branch_groups ident names (br # brs) = (first_err [
       chk (b_Name br = []) (Errorf ''lebro: workflow branching step %q has a branch with empty Name'' [ident]),
       chk (b_Name br \<in> set names) (Errorf ''lebro: workflow branching step %q has duplicate branch name %q'' [ident, b_Name br]),
       chk (b_Steps br = []) (Errorf ''lebro: workflow branch %q at step %q has no steps'' [b_Name br, ident]),
       chk (b_Condition br = None) (Errorf ''lebro: workflow branch %q at step %q has nil Condition'' [b_Name br, ident])],
     b_Steps br) # branch_groups ident (b_Name br # names) brs"

fun fanout_groups :: "string \<Rightarrow> string list \<Rightarrow> ('s, 'w) FanOutBranch list \<Rightarrow> ('s, 'w) group list" where
  "fanout_groups ident names [] = []"
| "fanout_groups ident names (fb # fbs) = (first_err [
       chk (fbr_Name fb = []) (Errorf ''lebro: workflow fan-out step %q has a branch with empty Name'' [ident]),
       chk (fbr_Name fb \<in> set names) (Errorf ''lebro: workflow fan-out step %q has duplicate branch name %q'' [ident, fbr_Name fb]),
       chk (fbr_Steps fb = []) (Errorf ''lebro: workflow fan-out branch %q at step %q has no steps'' [fbr_Name fb, ident])],
     fbr_Steps fb) # fanout_groups ident (fbr_Name fb # names) fbs"

definition step_groups :: "('s, 'w) Step \<Rightarrow> ('s, 'w) group list" where
  "step_groups st = (if s_Branches st \<noteq> [] then branch_groups (s_ID st) [] (s_Branches st)
     else case s_FanOut st of Some fo \<Rightarrow> fanout_groups (s_ID st) [] (fo_Branches fo)
     | None \<Rightarrow> (case s_Map st of Some m \<Rightarrow> []
     | None \<Rightarrow> (case s_ForEach st of Some fe \<Rightarrow> [(None, fe_Steps fe)]
     | None \<Rightarrow> (case s_DoWhile st of Some lp \<Rightarrow> [(None, lp_Steps lp)]
     | None \<Rightarrow> (case s_DoUntil st of Some lp \<Rightarrow> [(None, lp_Steps lp)]
     | None \<Rightarrow> [])))))"

text \<open>The check of a branching step after its branches.\<close>

definition default_err :: "('s, 'w) Step \<Rightarrow> go_error option" where
  "default_err st = chk (s_Branches st \<noteq> [] \<and> s_Default st \<noteq> [] \<and> s_Default st \<notin> b_Name ` set (s_Branches st))
     (Errorf ''lebro: workflow branching step %q default %q is not a declared branch'' [s_ID st, s_Default st])"

text \<open>A schema of a kind the step must not declare is refused before \<^verbatim>\<open>hasSchema\<close> is read.\<close>

definition declares_schema :: "('s, 'w) Step \<Rightarrow> bool" where
  "declares_schema st \<longleftrightarrow> s_InputSchema st \<noteq> [] \<or> s_OutputSchema st \<noteq> [] \<or> s_SuspendSchema st \<noteq> []"

definition pass :: "go_error option \<Rightarrow> 'a result \<Rightarrow> 'a result" where
  "pass c k = (case c of Some e \<Rightarrow> Inl e | None \<Rightarrow> k)"

lemma pass_Inr [simp]: "pass c k = Inr x \<longleftrightarrow> c = None \<and> k = Inr x"
  by (simp add: pass_def split: option.split)

definition groups_size :: "('s, 'w) group list \<Rightarrow> nat" where
  "groups_size gs = sum_list (map (\<lambda>g. Suc (size_list size (snd g))) gs)"

lemma branch_groups_size: "groups_size (branch_groups ident names brs) \<le> size_list size brs"
proof (induction ident names brs rule: branch_groups.induct)
  case (2 ident names br brs)
  then show ?case by (cases br) (simp add: groups_size_def)
qed (simp add: groups_size_def)

lemma fanout_groups_size: "groups_size (fanout_groups ident names fbs) \<le> size_list size fbs"
proof (induction ident names fbs rule: fanout_groups.induct)
  case (2 ident names fb fbs)
  then show ?case by (cases fb) (simp add: groups_size_def)
qed (simp add: groups_size_def)

lemma fanout_size: "groups_size (fanout_groups ident names (fo_Branches fo)) < size fo"
  using fanout_groups_size [of ident names "fo_Branches fo"] by (cases fo) simp

lemma body_size: "groups_size [(None, fe_Steps fe)] < Suc (size fe)" "groups_size [(None, lp_Steps lp)] < Suc (size lp)"
  by (cases fe; simp add: groups_size_def) (cases lp; simp add: groups_size_def)

lemma step_groups_size: "groups_size (step_groups st) \<le> size st"
proof (cases st)
  case (Step ident insch outsch susp retry branches dflt fan mp fe dw du sl su h)
  have "groups_size (branch_groups ident [] branches) \<le> size_list size branches" by (rule branch_groups_size)
  moreover have "groups_size [] = 0" by (simp add: groups_size_def)
  ultimately show ?thesis
    using fanout_size [of ident "[]" "the fan"] body_size(1) [of "the fe"] body_size(2) [of "the dw"] body_size(2) [of "the du"]
    by (auto simp: step_groups_def Step split: option.split)
qed

text \<open>The walk returns the IDs seen so far and whether a step declares a schema.\<close>

type_synonym walk_state = "string list \<times> bool"

function validateStepTree :: "('s, 'w) Step list \<Rightarrow> walk_state \<Rightarrow> walk_state result"
  and validateStep :: "('s, 'w) Step \<Rightarrow> walk_state \<Rightarrow> walk_state result"
  and validateGroups :: "('s, 'w) group list \<Rightarrow> walk_state \<Rightarrow> walk_state result" where
  "validateStepTree [] ws = Inr ws"
| "validateStepTree (st # steps) ws = (case validateStep st ws of Inl e \<Rightarrow> Inl e | Inr ws' \<Rightarrow> validateStepTree steps ws')"
| "validateStep st ws = pass (step_err st (fst ws))
     (case validateGroups (step_groups st) (s_ID st # fst ws, snd ws \<or> declares_schema st) of Inl e \<Rightarrow> Inl e
      | Inr ws' \<Rightarrow> pass (default_err st) (Inr ws'))"
| "validateGroups [] ws = Inr ws"
| "validateGroups ((c, steps) # gs) ws = pass c
     (case validateStepTree steps ws of Inl e \<Rightarrow> Inl e | Inr ws' \<Rightarrow> validateGroups gs ws')"
  by pat_completeness auto
termination
proof (relation "measure (\<lambda>x. case x of Inl (steps, _) \<Rightarrow> 2 * size_list size steps
    | Inr (Inl (st, _)) \<Rightarrow> 2 * size st + 1 | Inr (Inr (gs, _)) \<Rightarrow> 2 * groups_size gs)", goal_cases)
  case (4 st ws)
  then show ?case using step_groups_size [of st] by simp
qed (simp_all add: groups_size_def)

section \<open>Compilation\<close>

text \<open>A step has at most one kind of control flow once it is validated, so the optional fields of \<^verbatim>\<open>compiledStep\<close> are
  one sum.\<close>

datatype ('s, 'w) compiledStep = CompiledStep (c_ID: string) (c_inputSchema: "schema option") (c_outputSchema: "schema option")
    (c_suspendSchema: "schema option") (c_retry: "RetryPolicy option") (c_control: "('s, 'w) control")
and ('s, 'w) control =
    Handle "('s, 'w) handler option"
  | Branching "('s, 'w) compiledBranch list" string
  | FanningOut "('s, 'w) compiledFanOutBranch list" int string
  | Mapping MapStep
  | ForEaching "('s, 'w) compiledStep list" int
  | Looping "('s, 'w) compiledStep list" int "RawMessage \<Rightarrow> int \<Rightarrow> bool result" bool
  | Sleeping int
  | SleepingUntil Time
and ('s, 'w) compiledBranch = CompiledBranch (cb_name: string) (cb_condition: "RawMessage \<Rightarrow> bool result")
    (cb_steps: "('s, 'w) compiledStep list") (cb_entryID: string)
and ('s, 'w) compiledFanOutBranch = CompiledFanOutBranch (cf_name: string) (cf_inputMapper: "(RawMessage \<Rightarrow> RawMessage result) option")
    (cf_steps: "('s, 'w) compiledStep list")

definition validateRetryPolicy :: "RetryPolicy option \<Rightarrow> go_error option" where
  "validateRetryPolicy p = (case p of None \<Rightarrow> None | Some p \<Rightarrow> first_err [
     chk (rt_Attempts p < 1) (Errorf ''retry policy attempts must be >= 1'' []),
     chk (rt_Delay p < 0) (Errorf ''retry policy delay must be >= 0'' [])])"

text \<open>The compiler returns an error or an interface, which may be nil.\<close>

type_synonym compiler = "string \<Rightarrow> schema option result"

definition compile_schema :: "compiler \<Rightarrow> string \<Rightarrow> string \<Rightarrow> schema option result" where
  "compile_schema compiler kind raw = (if raw = [] then Inr None
     else if \<not> json_valid raw then Inl (Errorf (kind @ '' schema must be valid JSON'') [])
     else case compiler raw of Inl e \<Rightarrow> Inl (Wrapf (''compile '' @ kind @ '' schema: %w'') [] e)
       | Inr None \<Rightarrow> Inl (Errorf (''schema compiler returned a nil '' @ kind @ '' schema'') [])
       | Inr (Some v) \<Rightarrow> Inr (Some v))"

definition compiled :: "compiler \<Rightarrow> ('s, 'w) Step \<Rightarrow> ('s, 'w) control \<Rightarrow> ('s, 'w) compiledStep result" where
  "compiled compiler st ctl = (case compile_schema compiler ''input'' (s_InputSchema st) of Inl e \<Rightarrow> Inl e
     | Inr insch \<Rightarrow> (case compile_schema compiler ''output'' (s_OutputSchema st) of Inl e \<Rightarrow> Inl e
     | Inr outsch \<Rightarrow> (case compile_schema compiler ''suspend'' (s_SuspendSchema st) of Inl e \<Rightarrow> Inl e
     | Inr susp \<Rightarrow> Inr (CompiledStep (s_ID st) insch outsch susp (s_Retry st) ctl))))"

definition at_least_one :: "int \<Rightarrow> int" where
  "at_least_one n = (if n < 1 then 1 else n)"

definition plain_control :: "('s, 'w) Step \<Rightarrow> ('s, 'w) control" where
  "plain_control st = (case s_Map st of Some m \<Rightarrow> Mapping m
     | None \<Rightarrow> (case s_Sleep st of Some d \<Rightarrow> Sleeping d
     | None \<Rightarrow> (case s_SleepUntil st of Some t \<Rightarrow> SleepingUntil t | None \<Rightarrow> Handle (s_Handler st))))"

lemma step_sizes:
  "s_FanOut st = Some fo \<Longrightarrow> size_list size (fo_Branches fo) < size st"
  "s_ForEach st = Some fe \<Longrightarrow> size_list size (fe_Steps fe) < size st"
  "s_DoWhile st = Some lp \<Longrightarrow> size_list size (lp_Steps lp) < size st"
  "s_DoUntil st = Some lp \<Longrightarrow> size_list size (lp_Steps lp) < size st"
  "size_list size (s_Branches st) < size st"
  by (cases st; cases fo; cases fe; cases lp; simp)+

lemma branch_sizes: "size_list size (b_Steps br) < size br" "size_list size (fbr_Steps fb) < size fb"
  by (cases br; cases fb; simp)+

function newCompiledStep :: "compiler \<Rightarrow> ('s, 'w) Step \<Rightarrow> ('s, 'w) compiledStep result"
  and compileSteps :: "compiler \<Rightarrow> string \<Rightarrow> string list \<Rightarrow> ('s, 'w) Step list \<Rightarrow> ('s, 'w) compiledStep list result"
  and compileBranches :: "compiler \<Rightarrow> ('s, 'w) Branch list \<Rightarrow> ('s, 'w) compiledBranch list result"
  and compileFanOutBranches :: "compiler \<Rightarrow> ('s, 'w) FanOutBranch list \<Rightarrow> ('s, 'w) compiledFanOutBranch list result" where
  "newCompiledStep compiler st = pass (validateRetryPolicy (s_Retry st))
     (if s_Branches st \<noteq> [] then (case compileBranches compiler (s_Branches st) of Inl e \<Rightarrow> Inl e
          | Inr brs \<Rightarrow> compiled compiler st (Branching brs (s_Default st)))
      else case s_FanOut st of Some fo \<Rightarrow> (case compileFanOutBranches compiler (fo_Branches fo) of Inl e \<Rightarrow> Inl e
          | Inr fbs \<Rightarrow> compiled compiler st (FanningOut fbs (at_least_one (fo_MaxParallel fo))
              (if fo_FailurePolicy fo = [] then FanOutFailFast else fo_FailurePolicy fo)))
      | None \<Rightarrow> (case s_ForEach st of Some fe \<Rightarrow> (case compileSteps compiler ''lebro: compile foreach step %q: %w'' [] (fe_Steps fe) of Inl e \<Rightarrow> Inl e
          | Inr steps \<Rightarrow> compiled compiler st (ForEaching steps (at_least_one (fe_MaxParallel fe))))
      | None \<Rightarrow> (case s_DoWhile st of Some lp \<Rightarrow> (case compileSteps compiler ''lebro: compile loop step %q: %w'' [] (lp_Steps lp) of Inl e \<Rightarrow> Inl e
          | Inr steps \<Rightarrow> compiled compiler st (Looping steps (lp_MaxIterations lp) (the (lp_Condition lp)) True))
      | None \<Rightarrow> (case s_DoUntil st of Some lp \<Rightarrow> (case compileSteps compiler ''lebro: compile loop step %q: %w'' [] (lp_Steps lp) of Inl e \<Rightarrow> Inl e
          | Inr steps \<Rightarrow> compiled compiler st (Looping steps (lp_MaxIterations lp) (the (lp_Condition lp)) False))
      | None \<Rightarrow> compiled compiler st (plain_control st)))))"
| "compileSteps compiler f args [] = Inr []"
| "compileSteps compiler f args (st # steps) = (case newCompiledStep compiler st of Inl e \<Rightarrow> Inl (Wrapf f (args @ [s_ID st]) e)
     | Inr c \<Rightarrow> (case compileSteps compiler f args steps of Inl e \<Rightarrow> Inl e | Inr cs \<Rightarrow> Inr (c # cs)))"
| "compileBranches compiler [] = Inr []"
| "compileBranches compiler (br # brs) = (case compileSteps compiler ''lebro: compile branch %q step %q: %w'' [b_Name br] (b_Steps br) of Inl e \<Rightarrow> Inl e
     | Inr cs \<Rightarrow> (case compileBranches compiler brs of Inl e \<Rightarrow> Inl e
         | Inr cbs \<Rightarrow> Inr (CompiledBranch (b_Name br) (the (b_Condition br)) cs (c_ID (hd cs)) # cbs)))"
| "compileFanOutBranches compiler [] = Inr []"
| "compileFanOutBranches compiler (fb # fbs) = (case compileSteps compiler ''lebro: compile fan-out branch %q step %q: %w'' [fbr_Name fb] (fbr_Steps fb) of Inl e \<Rightarrow> Inl e
     | Inr cs \<Rightarrow> (case compileFanOutBranches compiler fbs of Inl e \<Rightarrow> Inl e
         | Inr cfs \<Rightarrow> Inr (CompiledFanOutBranch (fbr_Name fb) (fbr_InputMapper fb) cs # cfs)))"
  by pat_completeness auto
termination
  by (relation "measure (\<lambda>x. case x of Inl (Inl (_, st)) \<Rightarrow> size st | Inl (Inr (_, _, _, steps)) \<Rightarrow> size_list size steps
    | Inr (Inl (_, brs)) \<Rightarrow> size_list size brs | Inr (Inr (_, fbs)) \<Rightarrow> size_list size fbs)")
    (auto simp: step_sizes branch_sizes less_SucI trans_less_add1)

section \<open>Workflows\<close>

record ('s, 'w) LinearWorkflow =
  lw_ID :: string
  lw_Version :: string
  lw_steps :: "('s, 'w) compiledStep list"
  lw_policy :: Policy

definition NewLinearWorkflow :: "string \<Rightarrow> string \<Rightarrow> ('s, 'w) Step list \<Rightarrow> compiler option \<Rightarrow> Policy \<Rightarrow> ('s, 'w) LinearWorkflow result" where
  "NewLinearWorkflow ident vers steps compiler policy =
    (if ident = [] then Inl (Errorf ''lebro: workflow definition ID is required'' [])
     else if steps = [] then Inl (Errorf ''lebro: workflow must have at least one step'' [])
     else case validateStepTree steps ([], False) of Inl e \<Rightarrow> Inl e
     | Inr (seen, has) \<Rightarrow> if has \<and> compiler = None
         then Inl (Errorf ''lebro: workflow schema compiler is required when steps declare schemas'' [])
         else (case compileSteps (the compiler) ''lebro: compile workflow step %q: %w'' [] steps of Inl e \<Rightarrow> Inl e
           | Inr cs \<Rightarrow> Inr \<lparr>lw_ID = ident, lw_Version = vers, lw_steps = cs, lw_policy = policy\<rparr>))"

section \<open>Well-formed trees\<close>

text \<open>Every ID of a tree, in the order of declaration.\<close>

primrec ids_step :: "('s, 'w) compiledStep \<Rightarrow> string list"
  and ids_control :: "('s, 'w) control \<Rightarrow> string list"
  and ids_branch :: "('s, 'w) compiledBranch \<Rightarrow> string list"
  and ids_fan :: "('s, 'w) compiledFanOutBranch \<Rightarrow> string list" where
  "ids_step (CompiledStep ident insch outsch susp retry ctl) = ident # ids_control ctl"
| "ids_control (Handle h) = []"
| "ids_control (Branching brs d) = concat (map ids_branch brs)"
| "ids_control (FanningOut fbs n p) = concat (map ids_fan fbs)"
| "ids_control (Mapping m) = []"
| "ids_control (ForEaching steps n) = concat (map ids_step steps)"
| "ids_control (Looping steps n c mode) = concat (map ids_step steps)"
| "ids_control (Sleeping d) = []"
| "ids_control (SleepingUntil t) = []"
| "ids_branch (CompiledBranch name c steps e) = concat (map ids_step steps)"
| "ids_fan (CompiledFanOutBranch name f steps) = concat (map ids_step steps)"

abbreviation ids_steps :: "('s, 'w) compiledStep list \<Rightarrow> string list" where
  "ids_steps steps \<equiv> concat (map ids_step steps)"

definition plain :: "('s, 'w) compiledStep \<Rightarrow> bool" where
  "plain c \<longleftrightarrow> (case c_control c of Handle _ \<Rightarrow> True | _ \<Rightarrow> False)"

primrec wf_step :: "('s, 'w) compiledStep \<Rightarrow> bool"
  and wf_control :: "('s, 'w) control \<Rightarrow> bool"
  and wf_branch :: "('s, 'w) compiledBranch \<Rightarrow> bool"
  and wf_fan :: "('s, 'w) compiledFanOutBranch \<Rightarrow> bool" where
  "wf_step (CompiledStep ident insch outsch susp retry ctl) = (validateRetryPolicy retry = None \<and> wf_control ctl)"
| "wf_control (Handle h) = (h \<noteq> None)"
| "wf_control (Branching brs d) = (brs \<noteq> [] \<and> distinct (map cb_name brs) \<and> (d = [] \<or> d \<in> cb_name ` set brs) \<and> (\<forall>b \<in> set (map wf_branch brs). b))"
| "wf_control (FanningOut fbs n p) = (fbs \<noteq> [] \<and> 1 \<le> n \<and> p \<in> {FanOutFailFast, FanOutCollectAll} \<and> (\<forall>b \<in> set (map wf_fan fbs). b))"
| "wf_control (Mapping m) = ((mp_Path m = []) \<noteq> (mp_Fields m = []))"
| "wf_control (ForEaching steps n) = (steps \<noteq> [] \<and> 1 \<le> n \<and> list_all plain steps \<and> (\<forall>b \<in> set (map wf_step steps). b))"
| "wf_control (Looping steps n c mode) = (steps \<noteq> [] \<and> 1 \<le> n \<and> n \<le> maxLoopIterations
     \<and> list_all (\<lambda>s. plain s \<and> c_suspendSchema s = None) steps \<and> (\<forall>b \<in> set (map wf_step steps). b))"
| "wf_control (Sleeping d) = (0 \<le> d)"
| "wf_control (SleepingUntil t) = (t \<noteq> zero_time)"
| "wf_branch (CompiledBranch name c steps e) = (steps \<noteq> [] \<and> e = c_ID (hd steps) \<and> (\<forall>b \<in> set (map wf_step steps). b))"
| "wf_fan (CompiledFanOutBranch name f steps) = (steps \<noteq> [] \<and> (\<forall>b \<in> set (map wf_step steps). b))"

abbreviation wf_steps :: "('s, 'w) compiledStep list \<Rightarrow> bool" where
  "wf_steps steps \<equiv> (\<forall>b \<in> set (map wf_step steps). b)"

text \<open>What a walk that started with \<open>seen\<close> adds: the IDs of the tree, all new.\<close>

definition adds :: "string list \<Rightarrow> string list \<Rightarrow> string list \<Rightarrow> bool" where
  "adds ids seen seen' \<longleftrightarrow> seen' = rev ids @ seen \<and> distinct ids \<and> set ids \<inter> set seen = {} \<and> [] \<notin> set ids"

lemma adds_append: "adds xs s0 s1 \<Longrightarrow> adds ys s1 s2 \<Longrightarrow> adds (xs @ ys) s0 s2"
  by (auto simp: adds_def)

lemma adds_Cons: "adds ys (x # s0) s2 \<Longrightarrow> x \<noteq> [] \<Longrightarrow> x \<notin> set s0 \<Longrightarrow> adds (x # ys) s0 s2"
  by (auto simp: adds_def)

lemma adds_Nil [simp]: "adds [] s s' \<longleftrightarrow> s' = s"
  by (auto simp: adds_def)

lemma compiled_Inr:
  assumes "compiled compiler st ctl = Inr c"
  obtains insch outsch susp where "c = CompiledStep (s_ID st) insch outsch susp (s_Retry st) ctl"
    "s_SuspendSchema st = [] \<Longrightarrow> susp = None"
  using assms by (auto simp: compiled_def compile_schema_def split: sum.splits option.splits if_splits)

lemma newCompiledStep_c_ID: "newCompiledStep compiler st = Inr c \<Longrightarrow> c_ID c = s_ID st"
  by (auto split: if_splits option.splits sum.splits elim!: compiled_Inr)

lemma compileSteps_shape: "compileSteps compiler f args steps = Inr cs \<Longrightarrow> length cs = length steps"
  by (induction steps arbitrary: cs) (auto split: sum.splits)

lemma compileFanOut_shape: "compileFanOutBranches compiler fbs = Inr cfs \<Longrightarrow> length cfs = length fbs"
  by (induction fbs arbitrary: cfs) (auto split: sum.splits)

lemma compileBranches_names: "compileBranches compiler brs = Inr cbs \<Longrightarrow> map cb_name cbs = map b_Name brs"
  by (induction brs arbitrary: cbs) (auto split: sum.splits)

lemma branch_groups_names:
  "validateGroups (branch_groups ident names brs) ws = Inr ws' \<Longrightarrow> distinct (map b_Name brs) \<and> set (map b_Name brs) \<inter> set names = {}"
proof (induction ident names brs arbitrary: ws rule: branch_groups.induct)
  case (2 ident names br brs)
  then obtain ws1 where "b_Name br \<notin> set names" "validateGroups (branch_groups ident (b_Name br # names) brs) ws1 = Inr ws'"
    by (auto split: sum.splits)
  with "2.IH" show ?case by fastforce
qed simp

lemma plain_children:
  "compileSteps compiler f args steps = Inr cs \<Longrightarrow> \<forall>st \<in> set steps. \<not> control_flow st \<Longrightarrow>
    list_all plain cs \<and> (list_all (\<lambda>st. s_SuspendSchema st = []) steps \<longrightarrow> list_all (\<lambda>c. c_suspendSchema c = None) cs)"
proof (induction steps arbitrary: cs)
  case (Cons st steps)
  then obtain c cs' where c: "newCompiledStep compiler st = Inr c" "compileSteps compiler f args steps = Inr cs'" "cs = c # cs'"
    by (auto split: sum.splits)
  have "compiled compiler st (plain_control st) = Inr c" "plain_control st = Handle (s_Handler st)"
    using c(1) Cons.prems(2) by (auto simp: control_flow_def plain_control_def split: if_splits)
  then have "plain c \<and> (s_SuspendSchema st = [] \<longrightarrow> c_suspendSchema c = None)"
    by (auto simp: plain_def elim!: compiled_Inr)
  then show ?case using Cons.IH [OF c(2)] Cons.prems(2) c(3) by auto
qed simp

lemma compileSteps_nonempty: "compileSteps compiler f args steps = Inr cs \<Longrightarrow> steps \<noteq> [] \<Longrightarrow> cs \<noteq> []"
  using compileSteps_shape by fastforce

text \<open>The kinds of step that pass the checks, each with the children that are visited and how they are compiled.\<close>

lemma step_kinds:
  assumes "step_err st seen = None" "newCompiledStep compiler st = Inr c"
  obtains (branching) brs where "s_Branches st \<noteq> []" "step_groups st = branch_groups (s_ID st) [] (s_Branches st)"
      "compileBranches compiler (s_Branches st) = Inr brs" "compiled compiler st (Branching brs (s_Default st)) = Inr c"
  | (fanning) fo fbs pol where "s_Branches st = []" "s_FanOut st = Some fo" "step_groups st = fanout_groups (s_ID st) [] (fo_Branches fo)"
      "fanout_err st fo = None" "compileFanOutBranches compiler (fo_Branches fo) = Inr fbs"
      "pol = (if fo_FailurePolicy fo = [] then FanOutFailFast else fo_FailurePolicy fo)"
      "compiled compiler st (FanningOut fbs (at_least_one (fo_MaxParallel fo)) pol) = Inr c"
  | (foreach) fe cs where "s_Branches st = []" "s_FanOut st = None" "s_ForEach st = Some fe" "step_groups st = [(None, fe_Steps fe)]"
      "foreach_err st fe = None" "compileSteps compiler ''lebro: compile foreach step %q: %w'' [] (fe_Steps fe) = Inr cs"
      "compiled compiler st (ForEaching cs (at_least_one (fe_MaxParallel fe))) = Inr c"
  | (doWhile) lp cs where "s_Branches st = []" "s_FanOut st = None" "s_ForEach st = None" "s_DoWhile st = Some lp"
      "step_groups st = [(None, lp_Steps lp)]" "loop_err st lp = None"
      "compileSteps compiler ''lebro: compile loop step %q: %w'' [] (lp_Steps lp) = Inr cs"
      "compiled compiler st (Looping cs (lp_MaxIterations lp) (the (lp_Condition lp)) True) = Inr c"
  | (doUntil) lp cs where "s_Branches st = []" "s_FanOut st = None" "s_ForEach st = None" "s_DoWhile st = None" "s_DoUntil st = Some lp"
      "step_groups st = [(None, lp_Steps lp)]" "loop_err st lp = None"
      "compileSteps compiler ''lebro: compile loop step %q: %w'' [] (lp_Steps lp) = Inr cs"
      "compiled compiler st (Looping cs (lp_MaxIterations lp) (the (lp_Condition lp)) False) = Inr c"
  | (plain) "step_groups st = []" "compiled compiler st (plain_control st) = Inr c"
      "ids_control (plain_control st) = []" "wf_control (plain_control st)"
proof -
  note defs = step_err_def step_groups_def
  have one: "\<not> 1 < controlCount st" using assms(1) by (simp add: step_err_def)
  show ?thesis
  proof (cases "s_Branches st = []")
    case False
    then show ?thesis using assms(2) branching by (auto simp: step_groups_def split: sum.splits)
  next
    case nb: True
    show ?thesis
    proof (cases "s_FanOut st")
      case (Some fo)
      then have "fanout_err st fo = None" "step_groups st = fanout_groups (s_ID st) [] (fo_Branches fo)" using assms(1) nb by (simp_all add: defs)
      then show ?thesis using assms(2) nb Some fanning [OF nb Some] by (auto split: sum.splits)
    next
      case nf: None
      show ?thesis
      proof (cases "s_Map st")
        case (Some m)
        then have "s_ForEach st = None" "s_DoWhile st = None" "s_DoUntil st = None" "map_err st m = None" "step_groups st = []"
          using one assms(1) nb nf by (auto simp: controlCount_def defs split: if_splits)
        then show ?thesis using assms(2) nb nf Some plain by (auto simp: map_err_def plain_control_def)
      next
        case nm: None
        show ?thesis
        proof (cases "s_ForEach st")
          case (Some fe)
          then have "foreach_err st fe = None" "step_groups st = [(None, fe_Steps fe)]" using assms(1) nb nf nm by (simp_all add: defs)
          then show ?thesis using assms(2) nb nf Some foreach [OF nb nf Some] by (auto split: sum.splits)
        next
          case ne: None
          show ?thesis
          proof (cases "s_DoWhile st")
            case (Some lp)
            then have "loop_err st lp = None" "step_groups st = [(None, lp_Steps lp)]" using assms(1) nb nf nm ne by (simp_all add: defs)
            then show ?thesis using assms(2) nb nf ne Some doWhile [OF nb nf ne Some] by (auto split: sum.splits)
          next
            case nw: None
            show ?thesis
            proof (cases "s_DoUntil st")
              case (Some lp)
              then have "loop_err st lp = None" "step_groups st = [(None, lp_Steps lp)]" using assms(1) nb nf nm ne nw by (simp_all add: defs)
              then show ?thesis using assms(2) nb nf ne nw Some doUntil [OF nb nf ne nw Some] by (auto split: sum.splits)
            next
              case None
              have c: "compiled compiler st (plain_control st) = Inr c" "step_groups st = []"
                using assms(2) nb nf nm ne nw None by (simp_all add: step_groups_def)
              have "if s_Sleep st \<noteq> None \<or> s_SleepUntil st \<noteq> None then sleep_err st = None else handler_err st = None"
                using assms(1) nb nf nm ne nw None by (auto simp: step_err_def)
              then have "wf_control (plain_control st)" "ids_control (plain_control st) = []"
                by (auto simp: plain_control_def nm sleep_err_def handler_err_def split: option.splits if_splits)
              then show ?thesis using plain c by blast
            qed
          qed
        qed
      qed
    qed
  qed
qed

lemma step_compiled:
  assumes "step_err st seen = None" "newCompiledStep compiler st = Inr c" "compiled compiler st ctl = Inr c"
    "adds (ids_control ctl) (s_ID st # seen) seen'" "wf_control ctl"
  shows "adds (ids_step c) seen seen' \<and> wf_step c"
proof -
  have "s_ID st \<noteq> []" "s_ID st \<notin> set seen" "validateRetryPolicy (s_Retry st) = None"
    using assms(1,2) by (auto simp: step_err_def)
  with assms(3-5) show ?thesis by (auto intro: adds_Cons elim!: compiled_Inr)
qed

lemma branching_ok:
  assumes "compileBranches compiler brs = Inr cbs" "validateGroups (branch_groups ident [] brs) ws = Inr ws'" "brs \<noteq> []"
    "d = [] \<or> d \<in> b_Name ` set brs" "\<forall>b \<in> set cbs. wf_branch b"
  shows "wf_control (Branching cbs d)"
proof -
  have "cb_name ` set cbs = b_Name ` set brs" "cbs \<noteq> []"
    using compileBranches_names [OF assms(1)] assms(3) by (metis list.set_map, metis map_is_Nil_conv)
  then show ?thesis using assms branch_groups_names [OF assms(2)] compileBranches_names [OF assms(1)] by auto
qed

lemma loop_ok:
  assumes "compileSteps compiler f args (lp_Steps lp) = Inr cs" "loop_err st lp = None" "wf_steps cs"
  shows "wf_control (Looping cs (lp_MaxIterations lp) cond mode)"
proof -
  have "cs \<noteq> []" using compileSteps_nonempty [OF assms(1)] assms(2) by (auto simp: loop_err_def)
  then show ?thesis using assms(2,3) plain_children [OF assms(1)] by (auto simp: loop_err_def list_all_iff)
qed

lemma foreach_ok:
  assumes "compileSteps compiler f args (fe_Steps fe) = Inr cs" "foreach_err st fe = None" "wf_steps cs"
  shows "wf_control (ForEaching cs (at_least_one n))"
proof -
  have "cs \<noteq> []" using compileSteps_nonempty [OF assms(1)] assms(2) by (auto simp: foreach_err_def)
  then show ?thesis using assms(2,3) plain_children [OF assms(1)] by (auto simp: foreach_err_def at_least_one_def)
qed

lemma fanning_ok:
  assumes "compileFanOutBranches compiler (fo_Branches fo) = Inr cfs" "fanout_err st fo = None" "\<forall>b \<in> set cfs. wf_fan b"
    "pol = (if fo_FailurePolicy fo = [] then FanOutFailFast else fo_FailurePolicy fo)"
  shows "wf_control (FanningOut cfs (at_least_one n) pol)"
proof -
  have "cfs \<noteq> []" using compileFanOut_shape [OF assms(1)] assms(2) by (auto simp: fanout_err_def)
  then show ?thesis using assms(2-4) by (auto simp: fanout_err_def at_least_one_def)
qed

lemma tree_compiled:
  fixes st :: "('s, 'w) Step" and steps :: "('s, 'w) Step list" and brs :: "('s, 'w) Branch list" and fbs :: "('s, 'w) FanOutBranch list"
  shows "validateStep st ws = Inr ws' \<Longrightarrow> newCompiledStep compiler st = Inr c \<Longrightarrow> adds (ids_step c) (fst ws) (fst ws') \<and> wf_step c"
  "validateStepTree steps ws = Inr ws' \<Longrightarrow> compileSteps compiler f args steps = Inr cs \<Longrightarrow> adds (ids_steps cs) (fst ws) (fst ws') \<and> wf_steps cs"
  "validateGroups (branch_groups ident names brs) ws = Inr ws' \<Longrightarrow> compileBranches compiler brs = Inr cbs \<Longrightarrow>
     adds (concat (map ids_branch cbs)) (fst ws) (fst ws') \<and> (\<forall>b \<in> set (map wf_branch cbs). b)"
  "validateGroups (fanout_groups ident names fbs) ws = Inr ws' \<Longrightarrow> compileFanOutBranches compiler fbs = Inr cfs \<Longrightarrow>
     adds (concat (map ids_fan cfs)) (fst ws) (fst ws') \<and> (\<forall>b \<in> set (map wf_fan cfs). b)"
proof (induction compiler st and compiler f args steps and compiler brs and compiler fbs
    arbitrary: ws ws' c and ws ws' cs and ident names ws ws' cbs and ident names ws ws' cfs
    rule: newCompiledStep_compileSteps_compileBranches_compileFanOutBranches.induct)
  case (1 compiler st)
  let ?ws = "(s_ID st # fst ws, snd ws \<or> declares_schema st)"
  have err: "step_err st (fst ws) = None" "default_err st = None" and g: "validateGroups (step_groups st) ?ws = Inr ws'"
    using "1.prems"(1) by (auto split: sum.splits)
  note finish = step_compiled [OF err(1) "1.prems"(2)]
  from err(1) "1.prems"(2) show ?case
  proof (cases rule: step_kinds)
    case (branching brs)
    have gb: "validateGroups (branch_groups (s_ID st) [] (s_Branches st)) ?ws = Inr ws'" using g branching(2) by simp
    show ?thesis using finish [OF branching(4)] branching_ok [OF branching(3) gb branching(1)]
        "1.IH"(1) [OF branching(1) gb branching(3)] err(2) branching(1) by (auto simp: default_err_def)
  next
    case (fanning fo fbs pol)
    have gb: "validateGroups (fanout_groups (s_ID st) [] (fo_Branches fo)) ?ws = Inr ws'" using g fanning(3) by simp
    show ?thesis using finish [OF fanning(7)] fanning_ok [OF fanning(5,4) _ fanning(6)]
        "1.IH"(5) [OF _ fanning(2) gb fanning(5)] fanning(1) by auto
  next
    case (foreach fe cs)
    have gb: "validateStepTree (fe_Steps fe) ?ws = Inr ws'" using g foreach(4) by (auto split: sum.splits)
    show ?thesis using finish [OF foreach(7)] foreach_ok [OF foreach(6,5)] "1.IH"(4) [OF _ foreach(2,3) gb foreach(6)] foreach(1) by auto
  next
    case (doWhile lp cs)
    have gb: "validateStepTree (lp_Steps lp) ?ws = Inr ws'" using g doWhile(5) by (auto split: sum.splits)
    show ?thesis using finish [OF doWhile(8)] loop_ok [OF doWhile(7,6)] "1.IH"(3) [OF _ doWhile(2-4) gb doWhile(7)] doWhile(1) by auto
  next
    case (doUntil lp cs)
    have gb: "validateStepTree (lp_Steps lp) ?ws = Inr ws'" using g doUntil(6) by (auto split: sum.splits)
    show ?thesis using finish [OF doUntil(9)] loop_ok [OF doUntil(8,7)] "1.IH"(2) [OF _ doUntil(2-5) gb doUntil(8)] doUntil(1) by auto
  next
    case plain
    then show ?thesis using finish [OF plain(2)] g by auto
  qed
next
  case (2 compiler f args)
  then show ?case by simp
next
  case (3 compiler f args st steps)
  obtain ws1 where v: "validateStep st ws = Inr ws1" "validateStepTree steps ws1 = Inr ws'"
    using "3.prems"(1) by (auto split: sum.splits)
  obtain c cs1 where c: "newCompiledStep compiler st = Inr c" "compileSteps compiler f args steps = Inr cs1" "cs = c # cs1"
    using "3.prems"(2) by (auto split: sum.splits)
  show ?case using "3.IH"(1) [OF v(1) c(1)] "3.IH"(2) [OF c(1) v(2) c(2)] c(3) by (auto intro: adds_append)
next
  case (4 compiler)
  then show ?case by simp
next
  case (5 compiler br brs)
  obtain ws1 where v: "b_Steps br \<noteq> []" "validateStepTree (b_Steps br) ws = Inr ws1"
      "validateGroups (branch_groups ident (b_Name br # names) brs) ws1 = Inr ws'"
    using "5.prems"(1) by (auto split: sum.splits)
  obtain cs cbs1 where c: "compileSteps compiler ''lebro: compile branch %q step %q: %w'' [b_Name br] (b_Steps br) = Inr cs"
      "compileBranches compiler brs = Inr cbs1" "cbs = CompiledBranch (b_Name br) (the (b_Condition br)) cs (c_ID (hd cs)) # cbs1"
    using "5.prems"(2) by (auto split: sum.splits)
  have "cs \<noteq> []" using compileSteps_shape [OF c(1)] v(1) by auto
  then show ?case using "5.IH"(1) [OF v(2) c(1)] "5.IH"(2) [OF c(1) v(3) c(2)] c(3) by (auto intro: adds_append)
next
  case (6 compiler)
  then show ?case by simp
next
  case (7 compiler fb fbs)
  obtain ws1 where v: "fbr_Steps fb \<noteq> []" "validateStepTree (fbr_Steps fb) ws = Inr ws1"
      "validateGroups (fanout_groups ident (fbr_Name fb # names) fbs) ws1 = Inr ws'"
    using "7.prems"(1) by (auto split: sum.splits)
  obtain cs cfs1 where c: "compileSteps compiler ''lebro: compile fan-out branch %q step %q: %w'' [fbr_Name fb] (fbr_Steps fb) = Inr cs"
      "compileFanOutBranches compiler fbs = Inr cfs1" "cfs = CompiledFanOutBranch (fbr_Name fb) (fbr_InputMapper fb) cs # cfs1"
    using "7.prems"(2) by (auto split: sum.splits)
  have "cs \<noteq> []" using compileSteps_shape [OF c(1)] v(1) by auto
  then show ?case using "7.IH"(1) [OF v(2) c(1)] "7.IH"(2) [OF c(1) v(3) c(2)] c(3) by (auto intro: adds_append)
qed

lemma accepted_tree:
  assumes "NewLinearWorkflow ident vers steps compiler policy = Inr w"
  shows "lw_steps w \<noteq> [] \<and> distinct (ids_steps (lw_steps w)) \<and> [] \<notin> set (ids_steps (lw_steps w)) \<and> wf_steps (lw_steps w)"
proof -
  obtain ws cs where v: "steps \<noteq> []" "validateStepTree steps ([], False) = Inr ws"
      "compileSteps (the compiler) ''lebro: compile workflow step %q: %w'' [] steps = Inr cs" "lw_steps w = cs"
    using assms by (auto simp: NewLinearWorkflow_def split: if_splits sum.splits)
  have "cs \<noteq> []" by (rule compileSteps_nonempty [OF v(3,1)])
  then show ?thesis using tree_compiled(2) [OF v(2,3)] v(4) by (auto simp: adds_def)
qed

text \<open>C0 accepted_workflow_ok: an accepted workflow has steps, no two of its steps at any depth share an ID, none has an empty
  ID, and its compiled tree is well formed: branches and loop bodies are not empty, loop bounds, parallelism and retry
  policies are in range, the default of a branching step is one of its branches, loop and foreach bodies hold plain
  handler steps, and every plain step has a handler.\<close>

theorem accepted_workflow_ok:
  assumes "NewLinearWorkflow ident vers steps compiler policy = Inr w"
  shows "lw_steps w \<noteq> [] \<and> distinct (ids_steps (lw_steps w)) \<and> [] \<notin> set (ids_steps (lw_steps w)) \<and> wf_steps (lw_steps w)"
  by (rule accepted_tree [OF assms])

definition plain_step :: "string \<Rightarrow> ('s, 'w) handler \<Rightarrow> ('s, 'w) Step" where
  "plain_step ident h = Step ident [] [] [] None [] [] None None None None None None None (Some h)"

definition echo :: "('s, 'w) handler" where
  "echo iv input st w = (Output input, w)"

text \<open>A branching step with two branches, then a loop.\<close>

definition sample_steps :: "('s, 'w) Step list" where
  "sample_steps = [
     Step ''route'' [] [] [] None
       [Branch ''left'' (Some (\<lambda>_. Inr False)) [plain_step ''l'' echo], Branch ''right'' (Some (\<lambda>_. Inr True)) [plain_step ''r'' echo]]
       ''right'' None None None None None None None None,
     Step ''again'' [] [] [] None [] [] None None None
       (Some (Loop [plain_step ''body'' echo] 3 (Some (\<lambda>_ n. Inr (n < 2))))) None None None None]"

lemma sample_accepted: "\<exists>w. NewLinearWorkflow ''wf'' ''v1'' sample_steps None None = Inr w
    \<and> ids_steps (lw_steps w) = [''route'', ''l'', ''r'', ''again'', ''body'']"
  by (simp add: NewLinearWorkflow_def sample_steps_def plain_step_def step_err_def controlCount_def branching_err_def loop_err_def
      maxLoopIterations_def control_flow_def handler_err_def step_groups_def default_err_def declares_schema_def pass_def
      validateRetryPolicy_def compiled_def compile_schema_def plain_control_def)

theorem accepted_workflow_ok_witness:
  "\<exists>w. NewLinearWorkflow ''wf'' ''v1'' sample_steps None None = Inr w
     \<and> ids_steps (lw_steps w) = [''route'', ''l'', ''r'', ''again'', ''body''] \<and> wf_steps (lw_steps w)"
  using sample_accepted accepted_workflow_ok [of "''wf''" "''v1''" sample_steps None None] by blast

end
