(* ===== verification/Workflow_Run.thy ===== *)
theory Workflow_Run
  imports Workflow_Def Memory_Store
begin

text \<open>
  Execution of workflows (\<^verbatim>\<open>workflow.go\<close>): the retry loop of a step, loops, foreach and fan-out steps, the persistence
  of step boundaries in the in-memory store, the walk of \<^verbatim>\<open>executeFrames\<close> and \<^verbatim>\<open>Run\<close>.

  The store a run is bound to changes only by the run itself. Everything else is the world \<open>'w\<close> of the environment:
  the context and the clock are read from it, waiting and handlers change it. A child that runs in its own goroutine
  starts in a world of its own, \<open>en_Fork\<close>, which carries whatever its siblings do to it meanwhile, including the
  cancellation after a sibling's failure; \<open>en_Join\<close> is the world at the barrier. The functions of
  \<^verbatim>\<open>encoding/json\<close> on values whose form is not looked at are parameters, and so is the text of an error. Run events
  are not modelled.
\<close>

section \<open>The environment\<close>

datatype json = JNull | JBool bool | JNumber string | JString string | JArray "json list" | JObject "(string \<times> json) list"

record ForEachItemResult =
  fi_Index :: nat
  fi_Status :: string
  fi_Output :: RawMessage
  fi_Failure :: "WorkflowFailureData option"

record ForEachResult =
  fr_StepID :: string
  fr_Status :: string
  fr_Items :: "ForEachItemResult list"

record loopCheckpoint =
  lc_StepID :: string
  lc_Iterations :: int
  lc_Output :: RawMessage

record wakeEnvelope =
  wk_At :: Time
  wk_Token :: string

record suspendEnvelope =
  se_Contract :: RawMessage
  se_Payload :: RawMessage
  se_Wake :: "wakeEnvelope option"

record workflowSnapshotEnvelope =
  sv_Step :: int
  sv_StepID :: string
  sv_Output :: RawMessage
  sv_Outputs :: "RawMessage list"
  sv_Suspend :: "suspendEnvelope option"
  sv_Path :: "string list"
  sv_FanOut :: "FanOutJoinResult list"
  sv_ForEach :: "ForEachResult list"
  sv_Loops :: "loopCheckpoint list"

record 'w env =
  en_Ctx :: "'w \<Rightarrow> Context"
  en_Now :: "'w \<Rightarrow> Time \<times> 'w"
  en_Wait :: "int \<Rightarrow> 'w \<Rightarrow> go_error option \<times> 'w"
  en_Fork :: "nat \<Rightarrow> 'w \<Rightarrow> 'w"
  en_Join :: "'w list \<Rightarrow> 'w \<Rightarrow> 'w"
  en_NewRunID :: "'w \<Rightarrow> string \<times> 'w"
  en_Text :: "go_error \<Rightarrow> string"
  en_Decode :: "string \<Rightarrow> json result"
  en_Encode :: "json \<Rightarrow> string result"
  en_Items :: "string \<Rightarrow> RawMessage list result"
  en_EncodeItems :: "RawMessage list \<Rightarrow> string result"
  en_EncodeMetadata :: "(string, string) gomap \<Rightarrow> string option"
  en_DecodeMetadata :: "string \<Rightarrow> (string, string) gomap option"
  en_Marshal :: "workflowSnapshotEnvelope \<Rightarrow> string result"
  en_Unmarshal :: "string \<Rightarrow> workflowSnapshotEnvelope option"

text \<open>The state of a process: the store it is bound to, the IDs claimed by its runs, and the world.\<close>

record 'w wstate =
  ws_Store :: "MemoryStore option"
  ws_Claims :: "string list"
  ws_World :: 'w

abbreviation cloneRawMessage :: "RawMessage \<Rightarrow> RawMessage" where
  "cloneRawMessage \<equiv> cloneJSON"

definition RunStatusRunning :: string where "RunStatusRunning = ''running''"
definition RunStatusSucceeded :: string where "RunStatusSucceeded = ''succeeded''"
definition RunStatusFailed :: string where "RunStatusFailed = ''failed''"
definition RunStatusCancelled :: string where "RunStatusCancelled = ''cancelled''"
definition RunStatusSuspended :: string where "RunStatusSuspended = ''suspended''"

datatype WorkflowErrorKind = InvalidStepInput | InvalidStepOutput | StepFailed | StepPanicked | Cancelled | NoBranchMatched
  | BranchConditionFailed | InvalidBranchInput | FanOutBranchFailed | FanOutInputMapperFailed | InvalidFanOutInput
  | Unauthorized | MaxIterations

primrec kind_text :: "WorkflowErrorKind \<Rightarrow> string" where
  "kind_text InvalidStepInput = ''invalid_step_input''"
| "kind_text InvalidStepOutput = ''invalid_step_output''"
| "kind_text StepFailed = ''step_failed''"
| "kind_text StepPanicked = ''step_panicked''"
| "kind_text Cancelled = ''cancelled''"
| "kind_text NoBranchMatched = ''no_branch_matched''"
| "kind_text BranchConditionFailed = ''branch_condition_failed''"
| "kind_text InvalidBranchInput = ''invalid_branch_input''"
| "kind_text FanOutBranchFailed = ''fanout_branch_failed''"
| "kind_text FanOutInputMapperFailed = ''fanout_input_mapper_failed''"
| "kind_text InvalidFanOutInput = ''invalid_fanout_input''"
| "kind_text Unauthorized = ''unauthorized''"
| "kind_text MaxIterations = ''max_iterations''"

record WorkflowError =
  wx_Kind :: WorkflowErrorKind
  wx_Step :: int
  wx_StepID :: string
  wx_Err :: go_error

definition failure_data :: "'w env \<Rightarrow> WorkflowError \<Rightarrow> WorkflowFailureData" where
  "failure_data env e = \<lparr>wf_Kind = kind_text (wx_Kind e), wf_Step = wx_Step e, wf_StepID = wx_StepID e, wf_Message = en_Text env (wx_Err e)\<rparr>"

abbreviation err_at :: "WorkflowErrorKind \<Rightarrow> int \<Rightarrow> string \<Rightarrow> go_error \<Rightarrow> WorkflowError" where
  "err_at kind position ident e \<equiv> \<lparr>wx_Kind = kind, wx_Step = position, wx_StepID = ident, wx_Err = e\<rparr>"

section \<open>One step\<close>

text \<open>The identity of the run that its steps see, and the retry overrides of the run.\<close>

record run_args =
  ra_runID :: string
  ra_threadID :: string
  ra_metadata :: "(string, string) gomap"
  ra_overrides :: "(string, RetryPolicy) gomap"

type_synonym 'w step = "(MemoryStore option, 'w) compiledStep"

definition validateStepValue :: "schema option \<Rightarrow> string \<Rightarrow> RawMessage \<Rightarrow> go_error option" where
  "validateStepValue sch target v = (case sch of None \<Rightarrow> None | Some validate \<Rightarrow> wrap_err ''lebro: %s validation failed: %w'' [target] (validate v))"

definition preferContextError :: "go_error \<Rightarrow> go_error \<Rightarrow> go_error" where
  "preferContextError primary fallback = (if errors_Is primary ErrCanceled then ErrCanceled
     else if errors_Is primary ErrDeadlineExceeded then ErrDeadlineExceeded
     else if errors_Is fallback ErrCanceled then ErrCanceled
     else if errors_Is fallback ErrDeadlineExceeded then ErrDeadlineExceeded else primary)"

definition DefaultRetryable :: "go_error \<Rightarrow> bool" where
  "DefaultRetryable e = (if errors_Is e ErrCanceled \<or> errors_Is e ErrDeadlineExceeded then False else True)"

definition policy_retries :: "RetryPolicy option \<Rightarrow> go_error \<Rightarrow> bool" where
  "policy_retries p e = (case p of None \<Rightarrow> False
     | Some p \<Rightarrow> (case rt_Retryable p of Some f \<Rightarrow> f e | None \<Rightarrow> DefaultRetryable e))"

definition resolveRetryPolicy :: "RetryPolicy option \<Rightarrow> (string, RetryPolicy) gomap \<Rightarrow> string \<Rightarrow> RetryPolicy option" where
  "resolveRetryPolicy p overrides ident = (case mget overrides ident of Some q \<Rightarrow> Some q | None \<Rightarrow> p)"

datatype retryOutcome = RetryFailed go_error | RetryCancelled go_error | RetryPanicked go_error | RetryInvalidOutput go_error
  | RetrySuspended SuspendSignal

text \<open>Calling a nil handler panics, and the panic is recovered.\<close>

definition invokeStepHandler :: "'w step \<Rightarrow> workflowInvocation \<Rightarrow> RawMessage \<Rightarrow> MemoryStore option \<Rightarrow> 'w \<Rightarrow> step_return \<times> 'w" where
  "invokeStepHandler c iv input st w = (case c_control c of Handle (Some h) \<Rightarrow> h iv input st w
     | _ \<Rightarrow> (Panic ''runtime error: invalid memory address or nil pointer dereference'', w))"

definition StepPanicError :: "string \<Rightarrow> go_error" where
  "StepPanicError v = Errorf ''lebro: step handler panicked: %s'' [v]"

definition suspend_outcome :: "'w step \<Rightarrow> SuspendSignal option \<Rightarrow> go_error \<Rightarrow> retryOutcome" where
  "suspend_outcome c sig e = (case sig of
     None \<Rightarrow> RetryFailed (Wrapf ''lebro: handler returned an error matching ErrWorkflowSuspend but it carried no SuspendSignal: %w'' [] e)
   | Some s \<Rightarrow> if c_suspendSchema c = None then RetryInvalidOutput (Errorf ''lebro: step %q signalled suspend but declares no SuspendSchema'' [c_ID c])
       else (case (if raw_bytes (ss_Contract s) \<noteq> [] then validateStepValue (c_suspendSchema c) ''suspend_contract'' (ss_Contract s) else None) of
         Some e \<Rightarrow> RetryInvalidOutput e | None \<Rightarrow> RetrySuspended (s\<lparr>ss_StepID := c_ID c\<rparr>)))"

fun retry_loop :: "'w env \<Rightarrow> 'w step \<Rightarrow> workflowInvocation \<Rightarrow> RawMessage \<Rightarrow> RetryPolicy option \<Rightarrow> MemoryStore option
    \<Rightarrow> nat \<Rightarrow> bool \<Rightarrow> 'w \<Rightarrow> (retryOutcome + RawMessage) \<times> 'w" where
  "retry_loop env c iv input policy st 0 first w = (Inl (RetryFailed (Errorf ''lebro: step retry loop exited without result'' [])), w)"
| "retry_loop env c iv input policy st (Suc n) first w = (case cx_Err (en_Ctx env w) of Some e \<Rightarrow> (Inl (RetryCancelled e), w)
   | None \<Rightarrow> (case (case policy of Some p \<Rightarrow> if first \<or> rt_Delay p \<le> 0 then (None, w) else en_Wait env (rt_Delay p) w | None \<Rightarrow> (None, w)) of
       (Some e, w1) \<Rightarrow> (Inl (RetryCancelled e), w1)
     | (None, w1) \<Rightarrow> (case invokeStepHandler c iv (cloneRawMessage input) st w1 of (ret, w2) \<Rightarrow>
         (case cx_Err (en_Ctx env w2) of Some e \<Rightarrow> (Inl (RetryCancelled (preferContextError e e)), w2)
          | None \<Rightarrow> (case ret of
              Panic v \<Rightarrow> (Inl (RetryPanicked (StepPanicError v)), w2)
            | Suspending sig e \<Rightarrow> (Inl (suspend_outcome c sig e), w2)
            | Failure e \<Rightarrow> if errors_Is e ErrCanceled \<or> errors_Is e ErrDeadlineExceeded then (Inl (RetryCancelled e), w2)
                else if n = 0 \<or> \<not> policy_retries policy e then (Inl (RetryFailed e), w2)
                else retry_loop env c iv input policy st n False w2
            | Output out \<Rightarrow> (case validateStepValue (c_outputSchema c) ''step_output'' out of
                Some e \<Rightarrow> (Inl (RetryInvalidOutput e), w2) | None \<Rightarrow> (Inr out, w2)))))))"

definition runStepWithRetry :: "'w env \<Rightarrow> run_args \<Rightarrow> 'w step \<Rightarrow> int \<Rightarrow> RawMessage \<Rightarrow> MemoryStore option \<Rightarrow> 'w
    \<Rightarrow> (retryOutcome + RawMessage) \<times> 'w" where
  "runStepWithRetry env ra c position input st w =
    (let policy = resolveRetryPolicy (c_retry c) (ra_overrides ra) (c_ID c);
       iv = \<lparr>iv_runID = ra_runID ra, iv_step = position, iv_stepID = c_ID c, iv_threadID = ra_threadID ra, iv_metadata = ra_metadata ra\<rparr> in
     retry_loop env c iv input policy st (case policy of Some p \<Rightarrow> nat (max 1 (rt_Attempts p)) | None \<Rightarrow> 1) True w)"

section \<open>Children\<close>

definition child_error :: "int \<Rightarrow> string \<Rightarrow> retryOutcome \<Rightarrow> WorkflowError" where
  "child_error position ident out = (case out of
     RetryFailed e \<Rightarrow> err_at StepFailed position ident e
   | RetryCancelled e \<Rightarrow> err_at Cancelled position ident e
   | RetryPanicked e \<Rightarrow> err_at StepPanicked position ident e
   | RetryInvalidOutput e \<Rightarrow> err_at InvalidStepOutput position ident e
   | RetrySuspended s \<Rightarrow> err_at InvalidStepOutput position ident (Errorf ''lebro: workflow suspend at step %s'' [ss_StepID s]))"

text \<open>The children of one foreach item or one loop iteration; \<open>cancel_id\<close> is the step named when the context is done
  before a child.\<close>

fun run_children :: "'w env \<Rightarrow> run_args \<Rightarrow> int \<Rightarrow> ('w step \<Rightarrow> string) \<Rightarrow> 'w step list \<Rightarrow> RawMessage \<Rightarrow> MemoryStore option \<Rightarrow> 'w
    \<Rightarrow> (WorkflowError + RawMessage) \<times> 'w" where
  "run_children env ra position cancel_id [] current st w = (Inr current, w)"
| "run_children env ra position cancel_id (c # cs) current st w = (case cx_Err (en_Ctx env w) of
     Some e \<Rightarrow> (Inl (err_at Cancelled position (cancel_id c) e), w)
   | None \<Rightarrow> (case validateStepValue (c_inputSchema c) ''step_input'' current of
       Some e \<Rightarrow> (Inl (err_at InvalidStepInput position (c_ID c) e), w)
     | None \<Rightarrow> (case runStepWithRetry env ra c position current st w of
         (Inl out, w1) \<Rightarrow> (Inl (child_error position (c_ID c) out), w1)
       | (Inr out, w1) \<Rightarrow> run_children env ra position cancel_id cs (cloneRawMessage out) st w1)))"

definition item_result :: "'w env \<Rightarrow> nat \<Rightarrow> WorkflowError + RawMessage \<Rightarrow> ForEachItemResult" where
  "item_result env i r = (case r of
     Inr out \<Rightarrow> \<lparr>fi_Index = i, fi_Status = RunStatusSucceeded, fi_Output = cloneRawMessage out, fi_Failure = None\<rparr>
   | Inl e \<Rightarrow> \<lparr>fi_Index = i, fi_Status = RunStatusFailed, fi_Output = None, fi_Failure = Some (failure_data env e)\<rparr>)"

definition executeForEach :: "'w env \<Rightarrow> run_args \<Rightarrow> int \<Rightarrow> string \<Rightarrow> 'w step list \<Rightarrow> RawMessage \<Rightarrow> MemoryStore option \<Rightarrow> 'w
    \<Rightarrow> (WorkflowError + RawMessage) \<times> ForEachResult \<times> 'w" where
  "executeForEach env ra position ident children input st w =
    (let zero = \<lparr>fr_StepID = [], fr_Status = [], fr_Items = []\<rparr>;
       bad = Inl (err_at InvalidStepInput position ident (Errorf ''lebro: foreach input must be a JSON array'' [])) in
     if (case trim_space (raw_bytes input) of [] \<Rightarrow> True | b # _ \<Rightarrow> b \<noteq> CHR ''['') then (bad, zero, w)
     else case en_Items env (raw_bytes input) of Inl e \<Rightarrow> (bad, zero, w)
     | Inr items \<Rightarrow>
         let runs = map (\<lambda>(i, item). run_children env ra position (\<lambda>_. ident) children (cloneRawMessage item) st (en_Fork env i w)) (List.enumerate 0 items);
           rs = map fst runs; w' = en_Join env (map snd runs) w;
           result = \<lparr>fr_StepID = ident, fr_Status = (if list_all (\<lambda>r. \<not> isl r) rs then RunStatusSucceeded else RunStatusFailed),
             fr_Items = map (\<lambda>(i, r). item_result env i r) (List.enumerate 0 rs)\<rparr> in
         case List.map_filter (\<lambda>r. case r of Inl e \<Rightarrow> Some e | Inr _ \<Rightarrow> None) rs of
           e # _ \<Rightarrow> (Inl e, result, w')
         | [] \<Rightarrow> (case en_EncodeItems env (map projr rs) of
             Inl e \<Rightarrow> (Inl (err_at StepFailed position ident (Wrapf ''lebro: encode foreach output: %w'' [] e)), result, w')
           | Inr out \<Rightarrow> (Inr (Some out), result, w')))"

section \<open>Persistence\<close>

record WorkflowRunInput =
  wi_Input :: RawMessage
  wi_ThreadID :: string
  wi_RunID :: string
  wi_Namespace :: string
  wi_OwnerID :: string
  wi_Metadata :: "(string, string) gomap"
  wi_RetryOverrides :: "(string, RetryPolicy) gomap"

record runAnchor =
  an_runID :: string
  an_input :: WorkflowRunInput
  an_metadata :: "(string, string) gomap"
  an_startedAt :: Time

type_synonym 'w workflow = "(MemoryStore option, 'w) LinearWorkflow"

definition encodeMetadata :: "'w env \<Rightarrow> (string, string) gomap \<Rightarrow> RawMessage" where
  "encodeMetadata env m = (if m = [] then None else en_EncodeMetadata env m)"

definition baseRunRecord :: "'w env \<Rightarrow> 'w workflow \<Rightarrow> runAnchor \<Rightarrow> WorkflowRunRecord" where
  "baseRunRecord env lw an = \<lparr>wr_ID = an_runID an, wr_WorkflowID = lw_ID lw, wr_ThreadID = wi_ThreadID (an_input an),
     wr_Namespace = wi_Namespace (an_input an), wr_OwnerID = wi_OwnerID (an_input an), wr_Status = [],
     wr_Input = cloneRawMessage (wi_Input (an_input an)), wr_Output = None, wr_StepOutputs = [], wr_CurrentStep = 0, wr_CurrentStepID = [],
     wr_Path = [], wr_Failure = None, wr_FanOut = [], wr_WorkflowVersion = lw_Version lw, wr_Metadata = encodeMetadata env (an_metadata an),
     wr_StartedAt = an_startedAt an, wr_FinishedAt = None, wr_UpdatedAt = zero_time\<rparr>"

definition workflowSnapshotSequence :: "int \<Rightarrow> int \<Rightarrow> int" where
  "workflowSnapshotSequence position iteration = wrap64 (position * 4294967296) + iteration mod 4294967296"

definition workflowTerminalSnapshotSequence :: "int \<Rightarrow> int" where
  "workflowTerminalSnapshotSequence position = wrap64 (position * 4294967296) + 4294967295"

definition workflowSnapshotSchemaVersion :: int where "workflowSnapshotSchemaVersion = 7"

fun tx_seq :: "repo_op list \<Rightarrow> tx_prog" where
  "tx_seq [] = Return None"
| "tx_seq (oper # opers) = Call (Repo oper) (\<lambda>r. case r of Some e \<Rightarrow> Return (Some e) | None \<Rightarrow> tx_seq opers)"

text \<open>The common end of the functions that write a boundary: encode the envelope, read the clock, and write the snapshot and
  the records in one transaction.\<close>

definition write_boundary :: "'w env \<Rightarrow> string \<Rightarrow> runAnchor \<Rightarrow> string \<Rightarrow> int \<Rightarrow> workflowSnapshotEnvelope \<Rightarrow> (Time \<Rightarrow> repo_op list)
    \<Rightarrow> 'w wstate \<Rightarrow> go_error option \<times> 'w wstate" where
  "write_boundary env msg an ident sequence envelope opers s = (case ws_Store s of None \<Rightarrow> (None, s)
   | Some store \<Rightarrow> (case en_Marshal env envelope of Inl e \<Rightarrow> (Some (Wrapf msg [] e), s)
     | Inr raw \<Rightarrow> (case en_Now env (ws_World s) of (now, w) \<Rightarrow>
         let snapshot = \<lparr>sn_ID = ident, sn_RunID = an_runID an, sn_Sequence = sequence, sn_SchemaVersion = workflowSnapshotSchemaVersion,
           sn_State = Some raw, sn_CreatedAt = now\<rparr> in
         case Transaction (en_Ctx env w) (en_Ctx env w) (tx_seq (SaveWorkflowSnapshot snapshot # opers now)) store store of
           (store', r) \<Rightarrow> (r, s\<lparr>ws_Store := Some store', ws_World := w\<rparr>))))"

definition snapshot_id :: "runAnchor \<Rightarrow> int \<Rightarrow> string" where
  "snapshot_id an position = an_runID an @ ''-snapshot-'' @ itoa position"

definition boundary_record :: "'w env \<Rightarrow> 'w workflow \<Rightarrow> runAnchor \<Rightarrow> string \<Rightarrow> string list \<Rightarrow> int \<Rightarrow> string \<Rightarrow> RawMessage list \<Rightarrow> Time \<Rightarrow> WorkflowRunRecord" where
  "boundary_record env lw an status path position ident outputs now = (baseRunRecord env lw an)\<lparr>wr_Status := status, wr_CurrentStep := position,
     wr_CurrentStepID := ident, wr_StepOutputs := outputs, wr_Path := path, wr_UpdatedAt := now\<rparr>"

definition persistStep :: "'w env \<Rightarrow> 'w workflow \<Rightarrow> runAnchor \<Rightarrow> string list \<Rightarrow> int \<Rightarrow> string \<Rightarrow> RawMessage \<Rightarrow> RawMessage list
    \<Rightarrow> ForEachResult list \<Rightarrow> 'w wstate \<Rightarrow> go_error option \<times> 'w wstate" where
  "persistStep env lw an path position ident out completed results =
    (let outputs = map cloneRawMessage completed @ [cloneRawMessage out] in
     write_boundary env ''lebro: encode workflow snapshot: %w'' an (snapshot_id an position) (workflowTerminalSnapshotSequence position)
       \<lparr>sv_Step = position, sv_StepID = ident, sv_Output = cloneRawMessage out, sv_Outputs = outputs, sv_Suspend = None, sv_Path = path,
         sv_FanOut = [], sv_ForEach = results, sv_Loops = []\<rparr>
       (\<lambda>now. [SaveWorkflowRun (boundary_record env lw an RunStatusRunning path position ident outputs now)]))"

definition outputs_with :: "RawMessage list \<Rightarrow> RawMessage \<Rightarrow> RawMessage list" where
  "outputs_with completed out = map cloneRawMessage completed @ (if raw_bytes out \<noteq> [] then [cloneRawMessage out] else [])"

definition persistFanOutStep :: "'w env \<Rightarrow> 'w workflow \<Rightarrow> runAnchor \<Rightarrow> string list \<Rightarrow> int \<Rightarrow> string \<Rightarrow> RawMessage \<Rightarrow> RawMessage list
    \<Rightarrow> FanOutJoinResult list \<Rightarrow> 'w wstate \<Rightarrow> go_error option \<times> 'w wstate" where
  "persistFanOutStep env lw an path position ident out completed results =
    (let outputs = outputs_with completed out in
     write_boundary env ''lebro: encode workflow fan-out snapshot: %w'' an (snapshot_id an position) (workflowTerminalSnapshotSequence position)
       \<lparr>sv_Step = position, sv_StepID = ident, sv_Output = cloneRawMessage out, sv_Outputs = outputs, sv_Suspend = None, sv_Path = path,
         sv_FanOut = results, sv_ForEach = [], sv_Loops = []\<rparr>
       (\<lambda>now. [SaveWorkflowRun (boundary_record env lw an RunStatusRunning path position ident outputs now)]))"

definition persistForEachStep :: "'w env \<Rightarrow> 'w workflow \<Rightarrow> runAnchor \<Rightarrow> string list \<Rightarrow> int \<Rightarrow> string \<Rightarrow> RawMessage \<Rightarrow> RawMessage list
    \<Rightarrow> ForEachResult list \<Rightarrow> 'w wstate \<Rightarrow> go_error option \<times> 'w wstate" where
  "persistForEachStep env lw an path position ident out completed results =
    (let outputs = outputs_with completed out in
     write_boundary env ''lebro: encode workflow foreach snapshot: %w'' an (snapshot_id an position) (workflowTerminalSnapshotSequence position)
       \<lparr>sv_Step = position, sv_StepID = ident, sv_Output = cloneRawMessage out, sv_Outputs = outputs, sv_Suspend = None, sv_Path = path,
         sv_FanOut = [], sv_ForEach = results, sv_Loops = []\<rparr>
       (\<lambda>now. [SaveWorkflowRun (boundary_record env lw an RunStatusRunning path position ident outputs now)]))"

definition persistLoopCheckpoint :: "'w env \<Rightarrow> 'w workflow \<Rightarrow> runAnchor \<Rightarrow> int \<Rightarrow> string \<Rightarrow> int \<Rightarrow> RawMessage \<Rightarrow> RawMessage list
    \<Rightarrow> 'w wstate \<Rightarrow> go_error option \<times> 'w wstate" where
  "persistLoopCheckpoint env lw an position ident iteration out completed =
    (let outputs = map cloneRawMessage completed @ [cloneRawMessage out] in
     write_boundary env ''lebro: encode workflow loop checkpoint: %w'' an (snapshot_id an position @ ''-loop-'' @ itoa iteration)
       (workflowSnapshotSequence position iteration)
       \<lparr>sv_Step = position, sv_StepID = ident, sv_Output = cloneRawMessage out, sv_Outputs = outputs, sv_Suspend = None, sv_Path = [],
         sv_FanOut = [], sv_ForEach = [], sv_Loops = [\<lparr>lc_StepID = ident, lc_Iterations = iteration, lc_Output = cloneRawMessage out\<rparr>]\<rparr>
       (\<lambda>now. [SaveWorkflowRun (boundary_record env lw an RunStatusRunning [] position ident outputs now)]))"

definition persistSuspend :: "'w env \<Rightarrow> 'w workflow \<Rightarrow> runAnchor \<Rightarrow> string list \<Rightarrow> FanOutJoinResult list \<Rightarrow> ForEachResult list \<Rightarrow> int \<Rightarrow> string
    \<Rightarrow> RawMessage list \<Rightarrow> SuspendSignal \<Rightarrow> 'w wstate \<Rightarrow> go_error option \<times> 'w wstate" where
  "persistSuspend env lw an path fans results position ident completed sig =
    (let outputs = map cloneRawMessage completed in
     write_boundary env ''lebro: encode workflow suspend snapshot: %w'' an (snapshot_id an position) (workflowTerminalSnapshotSequence position)
       \<lparr>sv_Step = position, sv_StepID = ident, sv_Output = None, sv_Outputs = outputs,
         sv_Suspend = Some \<lparr>se_Contract = cloneRawMessage (ss_Contract sig), se_Payload = cloneRawMessage (ss_Payload sig), se_Wake = None\<rparr>,
         sv_Path = path, sv_FanOut = fans, sv_ForEach = results, sv_Loops = []\<rparr>
       (\<lambda>now. [SaveWorkflowRun (boundary_record env lw an RunStatusSuspended path position ident outputs now)]))"

definition wakeup_record :: "'w workflow \<Rightarrow> runAnchor \<Rightarrow> int \<Rightarrow> Time \<Rightarrow> string \<Rightarrow> Time \<Rightarrow> ScheduleRecord" where
  "wakeup_record lw an position wake token now = \<lparr>sd_ID = an_runID an @ ''-wake-'' @ itoa position, sd_WorkflowID = lw_ID lw,
     sd_Namespace = wi_Namespace (an_input an), sd_OwnerID = wi_OwnerID (an_input an), sd_Spec = ''@once'', sd_Paused = False,
     sd_Concurrency = [], sd_Input = None, sd_Metadata = None, sd_NextFireAt = Some wake, sd_LastFireAt = None,
     sd_WakeRunID = an_runID an, sd_WakeToken = token, sd_CreatedAt = now, sd_UpdatedAt = now\<rparr>"

definition persistSleep :: "'w env \<Rightarrow> 'w workflow \<Rightarrow> runAnchor \<Rightarrow> string list \<Rightarrow> FanOutJoinResult list \<Rightarrow> ForEachResult list \<Rightarrow> int \<Rightarrow> string
    \<Rightarrow> RawMessage list \<Rightarrow> RawMessage \<Rightarrow> Time \<Rightarrow> string \<Rightarrow> 'w wstate \<Rightarrow> go_error option \<times> 'w wstate" where
  "persistSleep env lw an path fans results position ident completed input wake token s =
    (let outputs = map cloneRawMessage completed in
     if ws_Store s = None then (Some (Errorf ''lebro: durable sleep requires a bound store'' []), s)
     else write_boundary env ''lebro: encode workflow sleep snapshot: %w'' an (snapshot_id an position) (workflowTerminalSnapshotSequence position)
       \<lparr>sv_Step = position, sv_StepID = ident, sv_Output = None, sv_Outputs = outputs,
         sv_Suspend = Some \<lparr>se_Contract = None, se_Payload = cloneRawMessage input, se_Wake = Some \<lparr>wk_At = wake, wk_Token = token\<rparr>\<rparr>,
         sv_Path = path, sv_FanOut = fans, sv_ForEach = results, sv_Loops = []\<rparr>
       (\<lambda>now. [SaveWorkflowRun (boundary_record env lw an RunStatusSuspended path position ident outputs now),
         SaveSchedule (wakeup_record lw an position wake token now)]) s)"

definition persistRunStart :: "'w env \<Rightarrow> 'w workflow \<Rightarrow> runAnchor \<Rightarrow> 'w wstate \<Rightarrow> go_error option \<times> 'w wstate" where
  "persistRunStart env lw an s = (case ws_Store s of None \<Rightarrow> (None, s)
   | Some store \<Rightarrow> (case en_Now env (ws_World s) of (now, w) \<Rightarrow>
       (case MemoryStore_exec (en_Ctx env w) (Repo (SaveWorkflowRun ((baseRunRecord env lw an)\<lparr>wr_Status := RunStatusRunning, wr_UpdatedAt := now\<rparr>))) store of
         (store', r) \<Rightarrow> (r, s\<lparr>ws_Store := Some store', ws_World := w\<rparr>))))"

definition terminal_record :: "'w env \<Rightarrow> 'w workflow \<Rightarrow> runAnchor \<Rightarrow> string list \<Rightarrow> int \<Rightarrow> string \<Rightarrow> FanOutJoinResult list \<Rightarrow> RawMessage list
    \<Rightarrow> string \<Rightarrow> WorkflowError option \<Rightarrow> Time \<Rightarrow> WorkflowRunRecord" where
  "terminal_record env lw an path position ident fans completed status failure now =
    (boundary_record env lw an status path position ident (map cloneRawMessage completed) now)\<lparr>wr_FinishedAt := Some now,
      wr_Failure := map_option (failure_data env) failure,
      wr_Output := (if status = RunStatusSucceeded \<and> completed \<noteq> [] then cloneRawMessage (last completed) else None),
      wr_FanOut := fans\<rparr>"

definition persistTerminal :: "'w env \<Rightarrow> 'w workflow \<Rightarrow> runAnchor \<Rightarrow> string list \<Rightarrow> int \<Rightarrow> string \<Rightarrow> FanOutJoinResult list \<Rightarrow> RawMessage list
    \<Rightarrow> string \<Rightarrow> WorkflowError option \<Rightarrow> 'w wstate \<Rightarrow> go_error option \<times> 'w wstate" where
  "persistTerminal env lw an path position ident fans completed status failure s = (case ws_Store s of None \<Rightarrow> (None, s)
   | Some store \<Rightarrow> (case en_Now env (ws_World s) of (now, w) \<Rightarrow>
       (case MemoryStore_exec background (Repo (SaveWorkflowRun (terminal_record env lw an path position ident fans completed status failure now))) store of
         (store', r) \<Rightarrow> ((if status = RunStatusSucceeded then r else None), s\<lparr>ws_Store := Some store', ws_World := w\<rparr>))))"

section \<open>Loops\<close>

definition loop_condition :: "(RawMessage \<Rightarrow> int \<Rightarrow> bool result) \<Rightarrow> bool \<Rightarrow> RawMessage \<Rightarrow> int \<Rightarrow> bool result" where
  "loop_condition cond while_mode current iteration = (case cond (cloneRawMessage current) iteration of
     Inl e \<Rightarrow> Inl (Wrapf ''lebro: loop condition failed: %w'' [] e) | Inr matched \<Rightarrow> Inr (if while_mode then matched else \<not> matched))"

fun loop_iterations :: "'w env \<Rightarrow> 'w workflow \<Rightarrow> runAnchor \<Rightarrow> run_args \<Rightarrow> int \<Rightarrow> string \<Rightarrow> 'w step list \<Rightarrow> (RawMessage \<Rightarrow> int \<Rightarrow> bool result) \<Rightarrow> bool
    \<Rightarrow> RawMessage list \<Rightarrow> nat \<Rightarrow> int \<Rightarrow> RawMessage \<Rightarrow> 'w wstate \<Rightarrow> (WorkflowError + RawMessage) \<times> 'w wstate" where
  "loop_iterations env lw an ra position ident children cond mode completed 0 iteration current s =
     (Inl (err_at MaxIterations position ident (Errorf ''lebro: workflow max iterations reached'' [])), s)"
| "loop_iterations env lw an ra position ident children cond mode completed (Suc n) iteration current s =
    (case cx_Err (en_Ctx env (ws_World s)) of Some e \<Rightarrow> (Inl (err_at Cancelled position ident e), s)
     | None \<Rightarrow> (case run_children env ra position c_ID children current (ws_Store s) (ws_World s) of
         (Inl e, w1) \<Rightarrow> (Inl e, s\<lparr>ws_World := w1\<rparr>)
       | (Inr out, w1) \<Rightarrow> (case persistLoopCheckpoint env lw an position ident iteration out completed (s\<lparr>ws_World := w1\<rparr>) of
           (Some e, s2) \<Rightarrow> (Inl (err_at StepFailed position ident
              (Wrapf ''lebro: persist workflow loop checkpoint %q iteration %d: %w'' [ident, itoa iteration] e)), s2)
         | (None, s2) \<Rightarrow> (case cx_Err (en_Ctx env (ws_World s2)) of Some e \<Rightarrow> (Inl (err_at Cancelled position ident e), s2)
           | None \<Rightarrow> (case loop_condition cond mode out iteration of Inl e \<Rightarrow> (Inl (err_at StepFailed position ident e), s2)
             | Inr continue_loop \<Rightarrow> (case cx_Err (en_Ctx env (ws_World s2)) of Some e \<Rightarrow> (Inl (err_at Cancelled position ident e), s2)
               | None \<Rightarrow> if \<not> continue_loop then (Inr out, s2)
                   else if n = 0 then (Inl (err_at MaxIterations position ident
                     (Wrapf ''%w: step %q (%d)'' [ident, itoa iteration] (Errorf ''lebro: workflow max iterations reached'' []))), s2)
                   else loop_iterations env lw an ra position ident children cond mode completed n (iteration + 1) out s2))))))"

definition executeLoop :: "'w env \<Rightarrow> 'w workflow \<Rightarrow> runAnchor \<Rightarrow> run_args \<Rightarrow> int \<Rightarrow> string \<Rightarrow> 'w step list \<Rightarrow> int \<Rightarrow> (RawMessage \<Rightarrow> int \<Rightarrow> bool result) \<Rightarrow> bool
    \<Rightarrow> RawMessage list \<Rightarrow> RawMessage \<Rightarrow> 'w wstate \<Rightarrow> (WorkflowError + RawMessage) \<times> 'w wstate" where
  "executeLoop env lw an ra position ident children maxIterations cond mode completed input s =
     loop_iterations env lw an ra position ident children cond mode completed (nat maxIterations) 1 (cloneRawMessage input) s"

section \<open>Branching and fan-out\<close>

definition ErrWorkflowNoBranchMatched :: go_error where
  "ErrWorkflowNoBranchMatched = Errorf ''lebro: workflow no branch matched'' []"

fun match_branch :: "(MemoryStore option, 'w) compiledBranch list \<Rightarrow> RawMessage \<Rightarrow> (MemoryStore option, 'w) compiledBranch option result" where
  "match_branch [] input = Inr None"
| "match_branch (br # brs) input = (case cb_condition br input of
     Inl e \<Rightarrow> Inl (Wrapf ''lebro: branch %q condition failed: %w'' [cb_name br] e)
   | Inr True \<Rightarrow> Inr (Some br) | Inr False \<Rightarrow> match_branch brs input)"

definition selectBranch :: "(MemoryStore option, 'w) compiledBranch list \<Rightarrow> string \<Rightarrow> RawMessage \<Rightarrow> (MemoryStore option, 'w) compiledBranch result" where
  "selectBranch brs dflt input = (case match_branch brs input of Inl e \<Rightarrow> Inl e | Inr (Some br) \<Rightarrow> Inr br
   | Inr None \<Rightarrow> (case (if dflt \<noteq> [] then find (\<lambda>br. cb_name br = dflt) brs else None) of
       Some br \<Rightarrow> Inr br | None \<Rightarrow> Inl ErrWorkflowNoBranchMatched))"

lemma match_branch_in: "match_branch brs input = Inr (Some br) \<Longrightarrow> br \<in> set brs"
  by (induction brs) (auto split: sum.splits bool.splits)

lemma selectBranch_in: "selectBranch brs dflt input = Inr br \<Longrightarrow> br \<in> set brs"
  by (auto simp: selectBranch_def find_Some_iff dest: match_branch_in split: sum.splits option.splits if_splits)

definition branch_error_kind :: "go_error \<Rightarrow> WorkflowErrorKind" where
  "branch_error_kind e = (if errors_Is e ErrWorkflowNoBranchMatched then NoBranchMatched else BranchConditionFailed)"

record fanOutBranchOutcome =
  bo_output :: RawMessage
  bo_status :: string
  bo_failure :: "WorkflowError option"

definition branch_failed :: "string \<Rightarrow> WorkflowError \<Rightarrow> fanOutBranchOutcome" where
  "branch_failed status e = \<lparr>bo_output = None, bo_status = status, bo_failure = Some e\<rparr>"

definition fan_child_error :: "string \<Rightarrow> int \<Rightarrow> string \<Rightarrow> retryOutcome \<Rightarrow> fanOutBranchOutcome" where
  "fan_child_error name position ident out = (case out of
     RetrySuspended s \<Rightarrow> branch_failed RunStatusFailed (err_at InvalidStepOutput position ident
       (Errorf ''lebro: fan-out branch %q step %q signalled suspend, which is not supported within fan-out'' [name, ident]))
   | RetryCancelled e \<Rightarrow> branch_failed RunStatusCancelled (err_at Cancelled position ident e)
   | RetryPanicked e \<Rightarrow> branch_failed RunStatusFailed (err_at StepPanicked position ident e)
   | RetryInvalidOutput e \<Rightarrow> branch_failed RunStatusFailed (err_at InvalidStepOutput position ident e)
   | RetryFailed e \<Rightarrow> branch_failed RunStatusFailed (err_at StepFailed position ident e))"

lemma branch_size: "br \<in> set brs \<Longrightarrow> size_list size (cb_steps br) < size_list size brs"
proof (induction brs)
  case (Cons b brs)
  then show ?case by (cases b) auto
qed simp

lemma branching_size:
  "c_control c = Branching brs d \<Longrightarrow> selectBranch brs d' input = Inr br \<Longrightarrow> size_list size (cb_steps br) < size c"
  using branch_size [OF selectBranch_in] by (cases c) fastforce

function fan_steps :: "'w env \<Rightarrow> run_args \<Rightarrow> int \<Rightarrow> string \<Rightarrow> MemoryStore option \<Rightarrow> 'w step list \<Rightarrow> RawMessage \<Rightarrow> 'w \<Rightarrow> fanOutBranchOutcome \<times> 'w" where
  "fan_steps env ra position name st [] current w = (\<lparr>bo_output = current, bo_status = RunStatusSucceeded, bo_failure = None\<rparr>, w)"
| "fan_steps env ra position name st (c # remaining) current w = (case cx_Err (en_Ctx env w) of
     Some e \<Rightarrow> (branch_failed RunStatusCancelled (err_at Cancelled position (c_ID c) e), w)
   | None \<Rightarrow> (case c_control c of
       Branching brs dflt \<Rightarrow> (case validateStepValue (c_inputSchema c) ''step_input'' current of
           Some e \<Rightarrow> (branch_failed RunStatusFailed (err_at InvalidBranchInput position (c_ID c) e), w)
         | None \<Rightarrow> (case selectBranch brs dflt current of
             Inl e \<Rightarrow> (branch_failed RunStatusFailed (err_at (branch_error_kind e) position (c_ID c) e), w)
           | Inr br \<Rightarrow> fan_steps env ra position name st (cb_steps br @ remaining) current w))
     | _ \<Rightarrow> (case validateStepValue (c_inputSchema c) ''step_input'' current of
           Some e \<Rightarrow> (branch_failed RunStatusFailed (err_at InvalidStepInput position (c_ID c) e), w)
         | None \<Rightarrow> (case runStepWithRetry env ra c position current st w of
             (Inl out, w1) \<Rightarrow> (fan_child_error name position (c_ID c) out, w1)
           | (Inr out, w1) \<Rightarrow> fan_steps env ra position name st remaining (cloneRawMessage out) w1))))"
  by pat_completeness auto
termination
  by (relation "measure (\<lambda>(env, ra, position, name, st, remaining, current, w). size_list size remaining)")
    (auto simp: size_list_append dest: branching_size)

definition executeFanOutBranch :: "'w env \<Rightarrow> run_args \<Rightarrow> int \<Rightarrow> string \<Rightarrow> (MemoryStore option, 'w) compiledFanOutBranch \<Rightarrow> RawMessage \<Rightarrow> MemoryStore option \<Rightarrow> 'w
    \<Rightarrow> fanOutBranchOutcome \<times> 'w" where
  "executeFanOutBranch env ra position ident branch input st w = (case cx_Err (en_Ctx env w) of
     Some e \<Rightarrow> (branch_failed RunStatusCancelled (err_at Cancelled position ident e), w)
   | None \<Rightarrow> (case (case cf_inputMapper branch of None \<Rightarrow> Inr (cloneRawMessage input) | Some f \<Rightarrow> map_sum id cloneRawMessage (f (cloneRawMessage input))) of
       Inl e \<Rightarrow> (branch_failed RunStatusFailed (err_at FanOutInputMapperFailed position ident
         (Wrapf ''lebro: fan-out branch %q input mapper failed: %w'' [cf_name branch] e)), w)
     | Inr branch_input \<Rightarrow> fan_steps env ra position (cf_name branch) st (cf_steps branch) branch_input w))"

definition branch_result :: "'w env \<Rightarrow> string \<Rightarrow> fanOutBranchOutcome \<Rightarrow> FanOutBranchResult" where
  "branch_result env name out = \<lparr>fb_Name = name, fb_Status = bo_status out,
     fb_Output = (if bo_status out = RunStatusSucceeded then cloneRawMessage (bo_output out) else None),
     fb_Failure = (if bo_status out = RunStatusSucceeded then None else map_option (failure_data env) (bo_failure out))\<rparr>"

text \<open>The barrier: the status of the join and the failure that is reported, over the outcomes in order of declaration.\<close>

definition join_one :: "bool \<Rightarrow> fanOutBranchOutcome \<Rightarrow> string \<times> WorkflowError option \<Rightarrow> string \<times> WorkflowError option" where
  "join_one cancelled out acc = (case acc of (status, primary) \<Rightarrow>
     let status = (if bo_status out \<noteq> RunStatusSucceeded \<and> bo_failure out \<noteq> None \<and> status \<noteq> RunStatusCancelled then RunStatusFailed else status) in
     (case (bo_failure out, primary) of
        (Some e, None) \<Rightarrow> if wx_Kind e = Cancelled then (if cancelled then (RunStatusCancelled, Some e) else (status, None)) else (status, Some e)
      | _ \<Rightarrow> (status, primary)))"

definition joined_output :: "'w env \<Rightarrow> FanOutBranchResult list \<Rightarrow> json" where
  "joined_output env results = JArray (map (\<lambda>r. JObject [(''name'', JString (fb_Name r)), (''output'',
     if raw_bytes (fb_Output r) = [] then JNull
     else (case en_Decode env (raw_bytes (fb_Output r)) of Inr v \<Rightarrow> v | Inl _ \<Rightarrow> JNull))]) results)"

definition executeFanOut :: "'w env \<Rightarrow> run_args \<Rightarrow> int \<Rightarrow> string \<Rightarrow> (MemoryStore option, 'w) compiledFanOutBranch list \<Rightarrow> RawMessage \<Rightarrow> MemoryStore option \<Rightarrow> 'w
    \<Rightarrow> (WorkflowError + RawMessage) \<times> FanOutJoinResult \<times> 'w" where
  "executeFanOut env ra position ident branches input st w =
    (let runs = map (\<lambda>(i, br). executeFanOutBranch env ra position ident br input st (en_Fork env i w)) (List.enumerate 0 branches);
       outs = map fst runs; w' = en_Join env (map snd runs) w;
       cancelled = (case cx_Err (en_Ctx env w') of None \<Rightarrow> False | Some e \<Rightarrow> errors_Is e ErrCanceled \<or> errors_Is e ErrDeadlineExceeded);
       results = map2 (\<lambda>br out. branch_result env (cf_name br) out) branches outs;
       (status, primary) = fold (join_one cancelled) outs (RunStatusSucceeded, None);
       join = \<lparr>fj_StepID = ident, fj_Status = status, fj_Branches = results\<rparr> in
     case primary of
       Some e \<Rightarrow> (Inl (err_at (if wx_Kind e \<noteq> Cancelled \<and> wx_Kind e \<noteq> FanOutInputMapperFailed then FanOutBranchFailed else wx_Kind e) position (wx_StepID e)
         (Wrapf ''lebro: fan-out branch failed at step %q: %w'' [wx_StepID e] (wx_Err e))), join, w')
     | None \<Rightarrow> (case en_Encode env (joined_output env results) of
         Inl e \<Rightarrow> (Inl (err_at StepFailed position ident (Wrapf ''lebro: encode fan-out joined output: %w'' [] e)), join, w')
       | Inr out \<Rightarrow> (Inr (Some out), join, w')))"

section \<open>Map steps\<close>

fun map_path :: "string list \<Rightarrow> json \<Rightarrow> json result" where
  "map_path [] value = Inr value"
| "map_path (part # parts) value = (case value of
     JObject object \<Rightarrow> (case map_of object part of Some v \<Rightarrow> map_path parts v | None \<Rightarrow> Inl (Errorf ''does not exist'' []))
   | _ \<Rightarrow> Inl (Errorf ''is not an object'' []))"

definition splitMapPath :: "string \<Rightarrow> string list" where
  "splitMapPath path = filter (\<lambda>part. part \<noteq> []) (split_byte CHR ''.'' path)"

definition mapPathValue :: "json \<Rightarrow> string \<Rightarrow> json result" where
  "mapPathValue value0 path = (if path = ''.'' then Inr value0 else map_path (splitMapPath path) value0)"

fun map_fields :: "json \<Rightarrow> (string, string) gomap \<Rightarrow> (string \<times> json) list result" where
  "map_fields value0 [] = Inr []"
| "map_fields value0 ((key, path) # fs) = (case mapPathValue value0 path of
     Inl e \<Rightarrow> Inl (Wrapf ''lebro: map field %q path %q: %w'' [key, path] e)
   | Inr v \<Rightarrow> (case map_fields value0 fs of Inl e \<Rightarrow> Inl e | Inr vs \<Rightarrow> Inr ((key, v) # vs)))"

definition executeMap :: "'w env \<Rightarrow> MapStep \<Rightarrow> RawMessage \<Rightarrow> RawMessage result" where
  "executeMap env m input = (case en_Decode env (raw_bytes input) of Inl e \<Rightarrow> Inl (Wrapf ''lebro: decode map input: %w'' [] e)
   | Inr value0 \<Rightarrow> (case (if mp_Path m \<noteq> [] then (case mapPathValue value0 (mp_Path m) of
         Inl e \<Rightarrow> Inl (Wrapf ''lebro: map path %q: %w'' [mp_Path m] e) | Inr v \<Rightarrow> Inr v)
       else (case map_fields value0 (mp_Fields m) of Inl e \<Rightarrow> Inl e | Inr vs \<Rightarrow> Inr (JObject vs))) of
       Inl e \<Rightarrow> Inl e
     | Inr v \<Rightarrow> (case en_Encode env v of Inl e \<Rightarrow> Inl (Wrapf ''lebro: encode map output: %w'' [] e) | Inr out \<Rightarrow> Inr (Some out))))"

section \<open>The walk\<close>

record SuspendResult =
  su_Step :: int
  su_StepID :: string
  su_Contract :: RawMessage
  su_Payload :: RawMessage

record WorkflowRunResult =
  rr_ID :: string
  rr_Status :: string
  rr_Output :: RawMessage
  rr_Metadata :: "(string, string) gomap"
  rr_Suspend :: "SuspendResult option"
  rr_Path :: "string list"
  rr_FanOut :: "FanOutJoinResult list"
  rr_ForEach :: "ForEachResult list"

text \<open>The local variables of \<^verbatim>\<open>executeFrames\<close>. A frame is a list of steps and the index of the next one; the first frame is the
  top of the stack.\<close>

record 'w exec_config =
  x_frames :: "('w step list \<times> nat) list"
  x_path :: "string list"
  x_position :: int
  x_current :: RawMessage
  x_outputs :: "RawMessage list"
  x_fanOut :: "FanOutJoinResult list"
  x_forEach :: "ForEachResult list"
  x_lastStepID :: string
  x_lastPosition :: int
  x_state :: "'w wstate"

type_synonym 'w finished = "(WorkflowError option \<times> WorkflowRunResult) \<times> 'w wstate"

fun advance_top :: "('w step list \<times> nat) list \<Rightarrow> ('w step list \<times> nat) list" where
  "advance_top [] = []"
| "advance_top ((steps, i) # rest) = (steps, Suc i) # rest"

definition run_result :: "run_args \<Rightarrow> string \<Rightarrow> string list \<Rightarrow> FanOutJoinResult list \<Rightarrow> ForEachResult list \<Rightarrow> WorkflowRunResult" where
  "run_result ra status path fans each = \<lparr>rr_ID = ra_runID ra, rr_Status = status, rr_Output = None, rr_Metadata = ra_metadata ra,
     rr_Suspend = None, rr_Path = path, rr_FanOut = fans, rr_ForEach = each\<rparr>"

definition fail :: "run_args \<Rightarrow> 'w exec_config \<Rightarrow> WorkflowError \<Rightarrow> WorkflowError option \<times> WorkflowRunResult" where
  "fail ra x e = (Some e, run_result ra RunStatusFailed (x_path x) (x_fanOut x) [])"

definition cancelled :: "run_args \<Rightarrow> 'w exec_config \<Rightarrow> int \<Rightarrow> string \<Rightarrow> go_error \<Rightarrow> WorkflowError option \<times> WorkflowRunResult" where
  "cancelled ra x position ident e = (Some (err_at Cancelled position ident (preferContextError e e)),
     run_result ra RunStatusCancelled (x_path x) (x_fanOut x) [])"

definition persistTerminalBestEffort :: "'w env \<Rightarrow> 'w workflow \<Rightarrow> runAnchor \<Rightarrow> 'w exec_config \<Rightarrow> string \<Rightarrow> WorkflowError \<Rightarrow> 'w wstate \<Rightarrow> 'w wstate" where
  "persistTerminalBestEffort env lw an x status e s =
     snd (persistTerminal env lw an (x_path x) (x_lastPosition x) (x_lastStepID x) (x_fanOut x) (x_outputs x) status (Some e) s)"

definition stop_failed :: "'w env \<Rightarrow> 'w workflow \<Rightarrow> runAnchor \<Rightarrow> run_args \<Rightarrow> 'w exec_config \<Rightarrow> WorkflowError \<Rightarrow> 'w wstate \<Rightarrow> 'w finished" where
  "stop_failed env lw an ra x e s = (fail ra x e, persistTerminalBestEffort env lw an x RunStatusFailed e s)"

text \<open>A child's error ends the run as cancelled when it is a cancellation.\<close>

definition stop_child :: "'w env \<Rightarrow> 'w workflow \<Rightarrow> runAnchor \<Rightarrow> run_args \<Rightarrow> 'w exec_config \<Rightarrow> int \<Rightarrow> string \<Rightarrow> WorkflowError \<Rightarrow> 'w wstate \<Rightarrow> 'w finished" where
  "stop_child env lw an ra x position ident e s = (if wx_Kind e = Cancelled
     then (cancelled ra x position ident (wx_Err e), persistTerminalBestEffort env lw an x RunStatusCancelled e s)
     else stop_failed env lw an ra x e s)"

definition complete_step :: "'w exec_config \<Rightarrow> int \<Rightarrow> string \<Rightarrow> RawMessage \<Rightarrow> 'w wstate \<Rightarrow> 'w exec_config" where
  "complete_step x position ident out s = x\<lparr>x_frames := advance_top (x_frames x), x_position := position, x_current := cloneRawMessage out,
     x_outputs := x_outputs x @ [cloneRawMessage out], x_lastStepID := ident, x_lastPosition := position, x_state := s\<rparr>"

definition exec_branching :: "'w env \<Rightarrow> 'w workflow \<Rightarrow> runAnchor \<Rightarrow> run_args \<Rightarrow> 'w exec_config \<Rightarrow> int \<Rightarrow> 'w step
    \<Rightarrow> (MemoryStore option, 'w) compiledBranch list \<Rightarrow> string \<Rightarrow> 'w exec_config + 'w finished" where
  "exec_branching env lw an ra x position c brs dflt = (case validateStepValue (c_inputSchema c) ''step_input'' (x_current x) of
     Some e \<Rightarrow> Inr (stop_failed env lw an ra x (err_at InvalidBranchInput position (c_ID c) e) (x_state x))
   | None \<Rightarrow> (case selectBranch brs dflt (x_current x) of
       Inl e \<Rightarrow> Inr (stop_failed env lw an ra x (err_at (branch_error_kind e) position (c_ID c) e) (x_state x))
     | Inr br \<Rightarrow> Inl (x\<lparr>x_frames := (cb_steps br, 0) # x_frames x, x_path := x_path x @ [cb_entryID br], x_position := position\<rparr>)))"

definition exec_map :: "'w env \<Rightarrow> 'w workflow \<Rightarrow> runAnchor \<Rightarrow> run_args \<Rightarrow> 'w exec_config \<Rightarrow> int \<Rightarrow> 'w step \<Rightarrow> MapStep \<Rightarrow> 'w exec_config + 'w finished" where
  "exec_map env lw an ra x position c m = (case validateStepValue (c_inputSchema c) ''step_input'' (x_current x) of
     Some e \<Rightarrow> Inr (stop_failed env lw an ra x (err_at InvalidStepInput position (c_ID c) e) (x_state x))
   | None \<Rightarrow> (case executeMap env m (x_current x) of
       Inl e \<Rightarrow> Inr (stop_failed env lw an ra x (err_at StepFailed position (c_ID c) e) (x_state x))
     | Inr out \<Rightarrow> (case validateStepValue (c_outputSchema c) ''step_output'' out of
         Some e \<Rightarrow> Inr (stop_failed env lw an ra x (err_at InvalidStepOutput position (c_ID c) e) (x_state x))
       | None \<Rightarrow> (case persistStep env lw an (x_path x) position (c_ID c) out (x_outputs x) (x_forEach x) (x_state x) of
           (Some e, s) \<Rightarrow> Inr (stop_failed env lw an ra x (err_at StepFailed position (c_ID c) (Wrapf ''lebro: persist workflow map step %q: %w'' [c_ID c] e)) s)
         | (None, s) \<Rightarrow> Inl (complete_step x position (c_ID c) out s)))))"

definition with_each :: "ForEachResult list \<Rightarrow> 'w finished \<Rightarrow> 'w finished" where
  "with_each each f = (case f of ((e, r), s) \<Rightarrow> ((e, r\<lparr>rr_ForEach := each\<rparr>), s))"

definition exec_foreach :: "'w env \<Rightarrow> 'w workflow \<Rightarrow> runAnchor \<Rightarrow> run_args \<Rightarrow> 'w exec_config \<Rightarrow> int \<Rightarrow> 'w step \<Rightarrow> 'w step list \<Rightarrow> 'w exec_config + 'w finished" where
  "exec_foreach env lw an ra x position c children = (case validateStepValue (c_inputSchema c) ''step_input'' (x_current x) of
     Some e \<Rightarrow> Inr (stop_failed env lw an ra x (err_at InvalidStepInput position (c_ID c) e) (x_state x))
   | None \<Rightarrow> (case executeForEach env ra position (c_ID c) children (x_current x) (ws_Store (x_state x)) (ws_World (x_state x)) of
       (r, result, w) \<Rightarrow>
         let each = x_forEach x @ [result]; s = (x_state x)\<lparr>ws_World := w\<rparr> in
         (case r of Inl e \<Rightarrow> Inr (with_each each (stop_child env lw an ra x position (c_ID c) e s))
          | Inr out \<Rightarrow> (case persistForEachStep env lw an (x_path x) position (c_ID c) out (x_outputs x) each s of
              (Some e, s') \<Rightarrow> Inr (fail ra x (err_at StepFailed position (c_ID c) (Wrapf ''lebro: persist workflow foreach step %q: %w'' [c_ID c] e)), s')
            | (None, s') \<Rightarrow> Inl ((complete_step x position (c_ID c) out s')\<lparr>x_forEach := each\<rparr>)))))"

definition exec_loop :: "'w env \<Rightarrow> 'w workflow \<Rightarrow> runAnchor \<Rightarrow> run_args \<Rightarrow> 'w exec_config \<Rightarrow> int \<Rightarrow> 'w step \<Rightarrow> 'w step list \<Rightarrow> int
    \<Rightarrow> (RawMessage \<Rightarrow> int \<Rightarrow> bool result) \<Rightarrow> bool \<Rightarrow> 'w exec_config + 'w finished" where
  "exec_loop env lw an ra x position c children maxIterations cond mode = (case validateStepValue (c_inputSchema c) ''step_input'' (x_current x) of
     Some e \<Rightarrow> Inr (stop_failed env lw an ra x (err_at InvalidStepInput position (c_ID c) e) (x_state x))
   | None \<Rightarrow> (case executeLoop env lw an ra position (c_ID c) children maxIterations cond mode (x_outputs x) (x_current x) (x_state x) of
       (Inl e, s) \<Rightarrow> Inr (stop_child env lw an ra x position (c_ID c) e s)
     | (Inr out, s) \<Rightarrow> (case persistStep env lw an (x_path x) position (c_ID c) out (x_outputs x) (x_forEach x) s of
         (Some e, s') \<Rightarrow> Inr (fail ra x (err_at StepFailed position (c_ID c) (Wrapf ''lebro: persist workflow loop step %q: %w'' [c_ID c] e)), s')
       | (None, s') \<Rightarrow> Inl (complete_step x position (c_ID c) out s'))))"

definition exec_fanout :: "'w env \<Rightarrow> 'w workflow \<Rightarrow> runAnchor \<Rightarrow> run_args \<Rightarrow> 'w exec_config \<Rightarrow> int \<Rightarrow> 'w step
    \<Rightarrow> (MemoryStore option, 'w) compiledFanOutBranch list \<Rightarrow> 'w exec_config + 'w finished" where
  "exec_fanout env lw an ra x position c branches = (case validateStepValue (c_inputSchema c) ''step_input'' (x_current x) of
     Some e \<Rightarrow> Inr (stop_failed env lw an ra x (err_at InvalidFanOutInput position (c_ID c) e) (x_state x))
   | None \<Rightarrow> (case executeFanOut env ra position (c_ID c) branches (x_current x) (ws_Store (x_state x)) (ws_World (x_state x)) of
       (r, join, w) \<Rightarrow>
         let x' = x\<lparr>x_fanOut := x_fanOut x @ [join]\<rparr>; s = (x_state x)\<lparr>ws_World := w\<rparr> in
         (case r of Inl e \<Rightarrow> Inr (stop_child env lw an ra x' position (c_ID c) e s)
          | Inr out \<Rightarrow> (case persistFanOutStep env lw an (x_path x) position (c_ID c) out (x_outputs x) [join] s of
              (Some e, s') \<Rightarrow> Inr (stop_failed env lw an ra x (err_at StepFailed position (c_ID c) (Wrapf ''lebro: persist workflow fan-out step %q: %w'' [c_ID c] e)) s')
            | (None, s') \<Rightarrow> Inl (complete_step x' position (c_ID c) out s')))))"

definition suspended :: "run_args \<Rightarrow> 'w exec_config \<Rightarrow> SuspendResult \<Rightarrow> ForEachResult list \<Rightarrow> WorkflowError option \<times> WorkflowRunResult" where
  "suspended ra x su each = (None, (run_result ra RunStatusSuspended (x_path x) (x_fanOut x) each)\<lparr>rr_Suspend := Some su\<rparr>)"

definition exec_sleep :: "'w env \<Rightarrow> 'w workflow \<Rightarrow> runAnchor \<Rightarrow> run_args \<Rightarrow> 'w exec_config \<Rightarrow> int \<Rightarrow> 'w step \<Rightarrow> (Time \<Rightarrow> Time) \<Rightarrow> 'w exec_config + 'w finished" where
  "exec_sleep env lw an ra x position c until = (case validateStepValue (c_inputSchema c) ''step_input'' (x_current x) of
     Some e \<Rightarrow> Inr (stop_failed env lw an ra x (err_at InvalidStepInput position (c_ID c) e) (x_state x))
   | None \<Rightarrow> (case validateStepValue (c_outputSchema c) ''step_output'' (x_current x) of
       Some e \<Rightarrow> Inr (stop_failed env lw an ra x (err_at InvalidStepOutput position (c_ID c) e) (x_state x))
     | None \<Rightarrow> (case en_Now env (ws_World (x_state x)) of (now, w) \<Rightarrow>
         (case persistSleep env lw an (x_path x) (x_fanOut x) (x_forEach x) position (c_ID c) (x_outputs x) (x_current x) (until now)
             (ra_runID ra @ ''-wake-'' @ itoa position) ((x_state x)\<lparr>ws_World := w\<rparr>) of
           (Some e, s) \<Rightarrow> Inr (stop_failed env lw an ra x (err_at StepFailed position (c_ID c) (Wrapf ''lebro: persist workflow sleep at step %q: %w'' [c_ID c] e)) s)
         | (None, s) \<Rightarrow> Inr (suspended ra x \<lparr>su_Step = position, su_StepID = c_ID c, su_Contract = None, su_Payload = cloneRawMessage (x_current x)\<rparr> (x_forEach x), s)))))"

definition exec_handler :: "'w env \<Rightarrow> 'w workflow \<Rightarrow> runAnchor \<Rightarrow> run_args \<Rightarrow> 'w exec_config \<Rightarrow> int \<Rightarrow> 'w step \<Rightarrow> 'w exec_config + 'w finished" where
  "exec_handler env lw an ra x position c = (case validateStepValue (c_inputSchema c) ''step_input'' (x_current x) of
     Some e \<Rightarrow> Inr (stop_failed env lw an ra x (err_at InvalidStepInput position (c_ID c) e) (x_state x))
   | None \<Rightarrow> (case runStepWithRetry env ra c position (x_current x) (ws_Store (x_state x)) (ws_World (x_state x)) of (r, w) \<Rightarrow>
       let s = (x_state x)\<lparr>ws_World := w\<rparr> in
       (case r of
          Inl (RetrySuspended sig) \<Rightarrow> (case persistSuspend env lw an (x_path x) (x_fanOut x) (x_forEach x) position (c_ID c) (x_outputs x) sig s of
              (Some e, s') \<Rightarrow> Inr (stop_failed env lw an ra x (err_at StepFailed position (c_ID c) (Wrapf ''lebro: persist workflow suspend at step %q: %w'' [c_ID c] e)) s')
            | (None, s') \<Rightarrow> Inr (suspended ra x \<lparr>su_Step = position, su_StepID = ss_StepID sig, su_Contract = cloneRawMessage (ss_Contract sig),
                su_Payload = cloneRawMessage (ss_Payload sig)\<rparr> [], s'))
        | Inl out \<Rightarrow> Inr (stop_child env lw an ra x position (c_ID c) (child_error position (c_ID c) out) s)
        | Inr out \<Rightarrow> (case persistStep env lw an (x_path x) position (c_ID c) out (x_outputs x) (x_forEach x) s of
            (Some e, s') \<Rightarrow> Inr (stop_failed env lw an ra x (err_at StepFailed position (c_ID c) (Wrapf ''lebro: persist workflow step %q: %w'' [c_ID c] e)) s')
          | (None, s') \<Rightarrow> Inl (complete_step x position (c_ID c) out s')))))"

definition exec_control :: "'w env \<Rightarrow> 'w workflow \<Rightarrow> runAnchor \<Rightarrow> run_args \<Rightarrow> 'w exec_config \<Rightarrow> int \<Rightarrow> 'w step \<Rightarrow> 'w exec_config + 'w finished" where
  "exec_control env lw an ra x position c = (case c_control c of
     Branching brs dflt \<Rightarrow> exec_branching env lw an ra x position c brs dflt
   | Mapping m \<Rightarrow> exec_map env lw an ra x position c m
   | ForEaching children n \<Rightarrow> exec_foreach env lw an ra x position c children
   | Looping children n cond mode \<Rightarrow> exec_loop env lw an ra x position c children n cond mode
   | FanningOut branches n pol \<Rightarrow> exec_fanout env lw an ra x position c branches
   | Sleeping d \<Rightarrow> exec_sleep env lw an ra x position c (\<lambda>now. now + d)
   | SleepingUntil t \<Rightarrow> exec_sleep env lw an ra x position c (\<lambda>_. t)
   | Handle h \<Rightarrow> exec_handler env lw an ra x position c)"

definition finish_run :: "'w env \<Rightarrow> 'w workflow \<Rightarrow> runAnchor \<Rightarrow> run_args \<Rightarrow> 'w exec_config \<Rightarrow> 'w finished" where
  "finish_run env lw an ra x = (case persistTerminal env lw an (x_path x) (x_lastPosition x) (x_lastStepID x) (x_fanOut x) (x_outputs x) RunStatusSucceeded None (x_state x) of
     (Some e, s) \<Rightarrow> (fail ra x (err_at StepFailed 0 [] (Wrapf ''lebro: persist workflow terminal state: %w'' [] e)), s)
   | (None, s) \<Rightarrow> ((None, (run_result ra RunStatusSucceeded (x_path x) (x_fanOut x) (x_forEach x))\<lparr>rr_Output := cloneRawMessage (x_current x)\<rparr>), s))"

definition exec_step :: "'w env \<Rightarrow> 'w workflow \<Rightarrow> runAnchor \<Rightarrow> run_args \<Rightarrow> 'w exec_config \<Rightarrow> 'w exec_config + 'w finished" where
  "exec_step env lw an ra x = (case x_frames x of
     [] \<Rightarrow> Inr (finish_run env lw an ra x)
   | (steps, i) # rest \<Rightarrow> if length steps \<le> i then Inl (x\<lparr>x_frames := advance_top rest\<rparr>)
       else let c = steps ! i; position = x_position x + 1 in
         (case cx_Err (en_Ctx env (ws_World (x_state x))) of
            Some e \<Rightarrow> Inr (cancelled ra x position (c_ID c) e, persistTerminalBestEffort env lw an x RunStatusCancelled (err_at Cancelled position (c_ID c) e) (x_state x))
          | None \<Rightarrow> exec_control env lw an ra x position c))"

partial_function (option) executeFrames :: "'w env \<Rightarrow> 'w workflow \<Rightarrow> runAnchor \<Rightarrow> run_args \<Rightarrow> 'w exec_config \<Rightarrow> 'w finished option" where
  "executeFrames env lw an ra x = (case exec_step env lw an ra x of Inr f \<Rightarrow> Some f | Inl x' \<Rightarrow> executeFrames env lw an ra x')"

section \<open>Run\<close>

definition validateSuppliedRunID :: "string \<Rightarrow> go_error option" where
  "validateSuppliedRunID ident = (if ident = [] then None else first_err [
     chk (128 < length ident) ErrInvalidRunID,
     chk (trim_space ident = []) ErrInvalidRunID,
     chk (list_ex (\<lambda>r. r < 0x20 \<or> r = 0x7F) (runes ident)) ErrInvalidRunID])"

definition ErrRunIDAlreadyExists :: go_error where
  "ErrRunIDAlreadyExists = Errorf ''lebro: run ID already exists'' []"

definition ActionWorkflowRun :: string where "ActionWorkflowRun = ''workflow.run''"
definition ResourceKindWorkflow :: string where "ResourceKindWorkflow = ''workflow''"

definition authorize_run :: "'w workflow \<Rightarrow> Context \<Rightarrow> go_error option" where
  "authorize_run lw ctx = authorize ctx (lw_policy lw) ActionWorkflowRun (resource ResourceKindWorkflow (lw_ID lw) [] [])"

definition zero_result :: WorkflowRunResult where
  "zero_result = \<lparr>rr_ID = [], rr_Status = [], rr_Output = None, rr_Metadata = [], rr_Suspend = None, rr_Path = [], rr_FanOut = [], rr_ForEach = []\<rparr>"

definition invalid_override :: "(string, RetryPolicy) gomap \<Rightarrow> (string \<times> go_error) option" where
  "invalid_override overrides = (case List.map_filter (\<lambda>k. map_option (Pair k) (validateRetryPolicy (mget overrides k))) (sort (mkeys overrides)) of
     [] \<Rightarrow> None | e # _ \<Rightarrow> Some e)"

definition validateRetryOverrides :: "(string, RetryPolicy) gomap \<Rightarrow> (string \<times> go_error) option" where
  "validateRetryOverrides overrides = (case invalid_override overrides of None \<Rightarrow> None
     | Some (ident, e) \<Rightarrow> Some (ident, Wrapf ''lebro: invalid retry override for step %q: %s'' [ident] e))"

definition stepPosition :: "'w workflow \<Rightarrow> string \<Rightarrow> int" where
  "stepPosition lw ident = (case find (\<lambda>i. c_ID (lw_steps lw ! i) = ident) [0..<length (lw_steps lw)] of Some i \<Rightarrow> int i + 1 | None \<Rightarrow> 0)"

definition newAnchor :: "'w env \<Rightarrow> string \<Rightarrow> WorkflowRunInput \<Rightarrow> 'w wstate \<Rightarrow> runAnchor \<times> 'w wstate" where
  "newAnchor env ident input s = (case ws_Store s of
     None \<Rightarrow> (\<lparr>an_runID = ident, an_input = input, an_metadata = wi_Metadata input, an_startedAt = zero_time\<rparr>, s)
   | Some _ \<Rightarrow> (case en_Now env (ws_World s) of (now, w) \<Rightarrow>
       (\<lparr>an_runID = ident, an_input = input, an_metadata = wi_Metadata input, an_startedAt = now\<rparr>, s\<lparr>ws_World := w\<rparr>)))"

definition initial_config :: "'w workflow \<Rightarrow> RawMessage \<Rightarrow> 'w wstate \<Rightarrow> 'w exec_config" where
  "initial_config lw input s = \<lparr>x_frames = [(lw_steps lw, 0)], x_path = [], x_position = 0, x_current = cloneRawMessage input, x_outputs = [],
     x_fanOut = [], x_forEach = [], x_lastStepID = [], x_lastPosition = 0, x_state = s\<rparr>"

definition args_of :: "string \<Rightarrow> WorkflowRunInput \<Rightarrow> run_args" where
  "args_of ident input = \<lparr>ra_runID = ident, ra_threadID = wi_ThreadID input, ra_metadata = wi_Metadata input, ra_overrides = wi_RetryOverrides input\<rparr>"

text \<open>\<^verbatim>\<open>Run\<close> after the run ID is settled: it ends, or the walk starts.\<close>

definition start_run :: "'w env \<Rightarrow> 'w workflow \<Rightarrow> string \<Rightarrow> WorkflowRunInput \<Rightarrow> 'w wstate \<Rightarrow> runAnchor \<times> ('w exec_config + 'w finished)" where
  "start_run env lw ident input s = (case newAnchor env ident input s of (an, s1) \<Rightarrow>
     let ra = args_of ident input; x = initial_config lw (wi_Input input) s1 in
     (an, case cx_Err (en_Ctx env (ws_World s)) of
        Some e \<Rightarrow> Inr (cancelled ra x 0 [] e, persistTerminalBestEffort env lw an x RunStatusCancelled (err_at Cancelled 0 [] e) s1)
      | None \<Rightarrow> (case authorize_run lw (en_Ctx env (ws_World s1)) of
          Some e \<Rightarrow> Inr (stop_failed env lw an ra x (err_at Unauthorized 0 [] e) s1)
        | None \<Rightarrow> (case validateRetryOverrides (wi_RetryOverrides input) of
            Some (k, e) \<Rightarrow> Inr (stop_failed env lw an ra x (err_at StepFailed (stepPosition lw k) k e) s1)
          | None \<Rightarrow> (case persistRunStart env lw an s1 of
              (Some e, s2) \<Rightarrow> Inr (stop_failed env lw an ra x (err_at StepFailed 0 [] (Wrapf ''lebro: persist workflow run start: %w'' [] e)) s2)
            | (None, s2) \<Rightarrow> Inl (x\<lparr>x_state := s2\<rparr>))))))"

definition run_body :: "'w env \<Rightarrow> 'w workflow \<Rightarrow> string \<Rightarrow> WorkflowRunInput \<Rightarrow> 'w wstate \<Rightarrow> 'w finished option" where
  "run_body env lw ident input s = (case start_run env lw ident input s of
     (an, Inr f) \<Rightarrow> Some f | (an, Inl x) \<Rightarrow> executeFrames env lw an (args_of ident input) x)"

text \<open>The check that a supplied ID names no stored run.\<close>

definition supplied_err :: "'w env \<Rightarrow> string \<Rightarrow> 'w wstate \<Rightarrow> WorkflowError option" where
  "supplied_err env ident s = (case ws_Store s of None \<Rightarrow> None
   | Some store \<Rightarrow> let ctx = en_Ctx env (ws_World s) in (case cx_Err ctx of Some e \<Rightarrow> Some (err_at Cancelled 0 [] e)
     | None \<Rightarrow> (case getWorkflowRun ctx (state store) ident of Inr _ \<Rightarrow> Some (err_at StepFailed 0 [] ErrRunIDAlreadyExists)
       | Inl e \<Rightarrow> if errors_Is e ErrNotFound then None
           else Some (err_at StepFailed 0 [] (Wrapf ''lebro: check supplied workflow run ID: %w'' [] e)))))"

definition Claim :: "string \<Rightarrow> string list \<Rightarrow> string list option" where
  "Claim ident active = (if ident \<in> set active then None else Some (ident # active))"

definition Release :: "string \<Rightarrow> string list \<Rightarrow> string list" where
  "Release ident active = removeAll ident active"

definition Run :: "'w env \<Rightarrow> 'w workflow \<Rightarrow> WorkflowRunInput \<Rightarrow> 'w wstate \<Rightarrow> 'w finished option" where
  "Run env lw input s = (case validateSuppliedRunID (wi_RunID input) of
     Some e \<Rightarrow> Some ((Some (err_at StepFailed 0 [] e), zero_result), s)
   | None \<Rightarrow> if wi_RunID input = [] then (case en_NewRunID env (ws_World s) of (ident, w) \<Rightarrow> run_body env lw ident input (s\<lparr>ws_World := w\<rparr>))
       else (case Claim (wi_RunID input) (ws_Claims s) of
         None \<Rightarrow> Some ((Some (err_at StepFailed 0 [] ErrRunIDAlreadyExists), zero_result), s)
       | Some active \<Rightarrow> let s1 = s\<lparr>ws_Claims := active\<rparr> in
           map_option (\<lambda>(r, s2). (r, s2\<lparr>ws_Claims := Release (wi_RunID input) (ws_Claims s2)\<rparr>))
             (case supplied_err env (wi_RunID input) s1 of Some e \<Rightarrow> Some ((Some e, zero_result), s1)
              | None \<Rightarrow> run_body env lw (wi_RunID input) input s1)))"

end
