(* ===== verification/Workflow_Durable.thy ===== *)
theory Workflow_Durable
  imports Workflow_Run "HOL-Library.Sublist"
begin

text \<open>
  What a run leaves in the bound store, for every workflow and every behaviour of its handlers: the walk of
  \<^verbatim>\<open>executeFrames\<close> ends, each step goes on only after its boundary is written in one transaction, and the stored record
  of the run agrees with the walk between any two steps and with the result at the end.
\<close>

section \<open>The walk ends\<close>

fun frame_weight :: "('w step list \<times> nat) \<Rightarrow> nat" where
  "frame_weight (steps, i) = Suc (size_list size (drop (Suc i) steps))"

fun weight :: "('w step list \<times> nat) list \<Rightarrow> nat" where
  "weight [] = 0"
| "weight ((steps, i) # rest) = Suc (size_list size (drop i steps)) + sum_list (map frame_weight rest)"

lemma weight_pop: "length steps \<le> i \<Longrightarrow> weight (advance_top rest) < weight ((steps, i) # rest)"
  by (cases rest) auto

lemma drop_size: "i < length steps \<Longrightarrow> size_list size (drop i steps) = Suc (size (steps ! i) + size_list size (drop (Suc i) steps))"
  by (subst Cons_nth_drop_Suc [symmetric]) simp_all

lemma weight_advance: "i < length steps \<Longrightarrow> weight (advance_top ((steps, i) # rest)) < weight ((steps, i) # rest)"
  by (simp add: drop_size)

lemma weight_push:
  "i < length steps \<Longrightarrow> c_control (steps ! i) = Branching brs d \<Longrightarrow> selectBranch brs d' input = Inr br \<Longrightarrow>
    weight ((cb_steps br, 0) # (steps, i) # rest) < weight ((steps, i) # rest)"
  using branching_size [of "steps ! i" brs d d' input br] by (simp add: drop_size)

text \<open>How a step goes on: the next step of the frame, or into a branch.\<close>

lemma complete_frames [simp]: "x_frames (complete_step x position ident out s) = advance_top (x_frames x)"
  "x_path (complete_step x position ident out s) = x_path x"
  "x_position (complete_step x position ident out s) = position"
  by (simp_all add: complete_step_def)

lemma exec_control_Inl:
  assumes "exec_control env lw an ra x position c = Inl x'"
  shows "(x_frames x' = advance_top (x_frames x) \<and> x_path x' = x_path x \<and> (\<forall>brs d. c_control c \<noteq> Branching brs d) \<or>
    (\<exists>brs d br. c_control c = Branching brs d \<and> selectBranch brs d (x_current x) = Inr br
      \<and> x_frames x' = (cb_steps br, 0) # x_frames x \<and> x_path x' = x_path x @ [cb_entryID br])) \<and> x_position x' = position"
proof (cases "c_control c")
  case (Branching brs d)
  then show ?thesis using assms by (auto simp: exec_control_def exec_branching_def split: option.splits sum.splits)
next
  case (Handle h)
  then show ?thesis using assms
    by (auto simp: exec_control_def exec_handler_def Let_def split: option.splits sum.splits prod.splits retryOutcome.splits)
next
  case (FanningOut branches n pol)
  then show ?thesis using assms by (auto simp: exec_control_def exec_fanout_def Let_def split: option.splits sum.splits prod.splits)
next
  case (Mapping m)
  then show ?thesis using assms by (auto simp: exec_control_def exec_map_def split: option.splits sum.splits prod.splits)
next
  case (ForEaching children n)
  then show ?thesis using assms by (auto simp: exec_control_def exec_foreach_def Let_def split: option.splits sum.splits prod.splits)
next
  case (Looping children n cond mode)
  then show ?thesis using assms by (auto simp: exec_control_def exec_loop_def split: option.splits sum.splits prod.splits)
next
  case (Sleeping d)
  then show ?thesis using assms by (auto simp: exec_control_def exec_sleep_def split: option.splits sum.splits prod.splits)
next
  case (SleepingUntil t)
  then show ?thesis using assms by (auto simp: exec_control_def exec_sleep_def split: option.splits sum.splits prod.splits)
qed

lemma exec_step_Inl:
  assumes "exec_step env lw an ra x = Inl x'"
  obtains (pop) steps i rest where "x_frames x = (steps, i) # rest" "length steps \<le> i" "x' = x\<lparr>x_frames := advance_top rest\<rparr>"
  | (run) steps i rest where "x_frames x = (steps, i) # rest" "i < length steps"
      "exec_control env lw an ra x (x_position x + 1) (steps ! i) = Inl x'"
  using assms by (auto simp: exec_step_def Let_def split: list.splits if_splits option.splits)

lemma exec_step_weight: "exec_step env lw an ra x = Inl x' \<Longrightarrow> weight (x_frames x') < weight (x_frames x)"
proof (erule exec_step_Inl)
  fix steps i rest
  assume x: "x_frames x = (steps, i) # rest" "length steps \<le> i" "x' = x\<lparr>x_frames := advance_top rest\<rparr>"
  then show ?thesis using weight_pop [OF x(2)] by simp
next
  fix steps i rest
  assume x: "x_frames x = (steps, i) # rest" "i < length steps" "exec_control env lw an ra x (x_position x + 1) (steps ! i) = Inl x'"
  show ?thesis using exec_control_Inl [OF x(3)] weight_advance [OF x(2)] weight_push [OF x(2)] x(1) by auto
qed

lemma executeFrames_returns: "\<exists>f. executeFrames env lw an ra x = Some f"
proof (induction "weight (x_frames x)" arbitrary: x rule: less_induct)
  case less
  show ?case
  proof (cases "exec_step env lw an ra x")
    case (Inl x')
    then show ?thesis using less.hyps [OF exec_step_weight [OF Inl]] by (simp add: executeFrames.simps [of env lw an ra x])
  next
    case (Inr f)
    then show ?thesis by (simp add: executeFrames.simps [of env lw an ra x])
  qed
qed

section \<open>What a boundary stores\<close>

lemma save_run_effect:
  "saveWorkflowRun ctx s r = (s', None) \<Longrightarrow> s' = s\<lparr>runs := mset_at (wr_ID r) (cloneWorkflowRunRecord r) (runs s)\<rparr>"
  by (auto simp: saveWorkflowRun_def commit_if_def split: option.splits)

lemma save_schedule_effect: "saveSchedule ctx s v = (s', None) \<Longrightarrow> runs s' = runs s \<and> snapshots s' = snapshots s"
  by (auto simp: saveSchedule_def commit_if_def split: option.splits)

lemma set_insert_at: "set (take n xs @ y # drop n xs) = insert y (set xs)"
  by (metis append_take_drop_id list.set(2) set_append Un_insert_right)

lemma save_snapshot_effect:
  assumes "saveWorkflowSnapshot ctx s v = (s', None)"
  shows "runs s' = runs s" "sn_ID v \<noteq> []"
    "set (mslice (snapshots s') (sn_RunID v)) = insert (cloneWorkflowSnapshotRecord v) (set (mslice (snapshots s) (sn_RunID v)))"
proof -
  let ?sns = "mslice (snapshots s) (sn_RunID v)"
  have "runs s' = runs s \<and> sn_ID v \<noteq> [] \<and> snapshots s' = mset_at (sn_RunID v) (take (snapshot_index ?sns (sn_Sequence v)) ?sns
      @ cloneWorkflowSnapshotRecord v # drop (snapshot_index ?sns (sn_Sequence v)) ?sns) (snapshots s)"
    using assms by (simp add: saveWorkflowSnapshot_def insert_snapshot_def snapshot_checks_def Let_def split: option.splits if_splits) (auto split: if_splits)
  then show "runs s' = runs s" "sn_ID v \<noteq> []"
    "set (mslice (snapshots s') (sn_RunID v)) = insert (cloneWorkflowSnapshotRecord v) (set (mslice (snapshots s) (sn_RunID v)))"
    by (simp_all add: set_insert_at del: set_append)
qed

text \<open>The records of a run as the bound store holds them.\<close>

definition stored_run :: "runAnchor \<Rightarrow> 'w wstate \<Rightarrow> WorkflowRunRecord option" where
  "stored_run an s = (case ws_Store s of None \<Rightarrow> None | Some store \<Rightarrow> mget (runs (state store)) (an_runID an))"

definition stored_snapshots :: "runAnchor \<Rightarrow> 'w wstate \<Rightarrow> WorkflowSnapshotRecord list" where
  "stored_snapshots an s = (case ws_Store s of None \<Rightarrow> [] | Some store \<Rightarrow> mslice (snapshots (state store)) (an_runID an))"

lemma stored_world [simp]: "stored_run an (s\<lparr>ws_World := w\<rparr>) = stored_run an s" "stored_snapshots an (s\<lparr>ws_World := w\<rparr>) = stored_snapshots an s"
  by (simp_all add: stored_run_def stored_snapshots_def)

lemma tx_seq_Cons_ok:
  "run_tx (tx_seq (oper # opers)) ctx tx = (tx', None) \<longleftrightarrow>
    (\<exists>tx1. repositories_exec ctx (Repo oper) tx = (tx1, None) \<and> run_tx (tx_seq opers) ctx tx1 = (tx', None))"
  by (auto split: prod.splits option.splits)

lemma repositories_ok:
  "repositories_exec ctx oper tx = (tx', None) \<Longrightarrow> exec_op ctx oper (tx_state tx) = (tx_state tx', None) \<and> dirty tx' = (dirty tx \<or> sets_dirty oper)"
  by (auto simp: repositories_exec_def split: prod.splits option.splits)

lemma tx_schedules:
  "run_tx (tx_seq opers) ctx tx = (tx', None) \<Longrightarrow> set opers \<subseteq> range SaveSchedule \<Longrightarrow>
    runs (tx_state tx') = runs (tx_state tx) \<and> snapshots (tx_state tx') = snapshots (tx_state tx) \<and> (dirty tx \<longrightarrow> dirty tx')"
proof (induction opers arbitrary: tx)
  case (Cons oper opers)
  then obtain v tx1 where o: "oper = SaveSchedule v" "repositories_exec ctx (Repo oper) tx = (tx1, None)" "run_tx (tx_seq opers) ctx tx1 = (tx', None)"
    unfolding tx_seq_Cons_ok by auto
  have "runs (tx_state tx1) = runs (tx_state tx) \<and> snapshots (tx_state tx1) = snapshots (tx_state tx) \<and> dirty tx1"
    using repositories_ok [OF o(2)] o(1) save_schedule_effect [of ctx "tx_state tx" v] by simp
  then show ?case using Cons.IH [OF o(3)] Cons.prems(2) by simp
qed simp

lemma tx_boundary:
  assumes "run_tx (tx_seq (SaveWorkflowSnapshot sn # SaveWorkflowRun r # extra)) ctx tx = (tx', None)" "set extra \<subseteq> range SaveSchedule"
  shows "dirty tx'" "sn_ID sn \<noteq> []" "runs (tx_state tx') = mset_at (wr_ID r) (cloneWorkflowRunRecord r) (runs (tx_state tx))"
    "set (mslice (snapshots (tx_state tx')) (sn_RunID sn)) = insert (cloneWorkflowSnapshotRecord sn) (set (mslice (snapshots (tx_state tx)) (sn_RunID sn)))"
proof -
  obtain tx1 tx2 where t: "repositories_exec ctx (Repo (SaveWorkflowSnapshot sn)) tx = (tx1, None)"
      "repositories_exec ctx (Repo (SaveWorkflowRun r)) tx1 = (tx2, None)" "run_tx (tx_seq extra) ctx tx2 = (tx', None)"
    using assms(1) unfolding tx_seq_Cons_ok by blast
  have a: "saveWorkflowSnapshot ctx (tx_state tx) sn = (tx_state tx1, None)" and b: "saveWorkflowRun ctx (tx_state tx1) r = (tx_state tx2, None)"
      and d: "dirty tx2"
    using repositories_ok [OF t(1)] repositories_ok [OF t(2)] by simp_all
  note e = save_snapshot_effect [OF a] save_run_effect [OF b] tx_schedules [OF t(3) assms(2)]
  show "dirty tx'" "sn_ID sn \<noteq> []" "runs (tx_state tx') = mset_at (wr_ID r) (cloneWorkflowRunRecord r) (runs (tx_state tx))"
    "set (mslice (snapshots (tx_state tx')) (sn_RunID sn)) = insert (cloneWorkflowSnapshotRecord sn) (set (mslice (snapshots (tx_state tx)) (sn_RunID sn)))"
    using e d by simp_all
qed

text \<open>What a boundary leaves in the store: the run record \<open>r\<close>, and one more snapshot that holds the envelope.\<close>

definition boundary :: "'w env \<Rightarrow> runAnchor \<Rightarrow> int \<Rightarrow> workflowSnapshotEnvelope \<Rightarrow> (Time \<Rightarrow> WorkflowRunRecord) \<Rightarrow> 'w wstate \<Rightarrow> 'w wstate \<Rightarrow> bool" where
  "boundary env an sequence envelope r s s' \<longleftrightarrow> (if ws_Store s = None then s' = s
     else ws_Store s' \<noteq> None \<and> (\<exists>now raw sn. en_Marshal env envelope = Inr raw \<and> stored_run an s' = Some (cloneWorkflowRunRecord (r now))
       \<and> sn_ID sn \<noteq> [] \<and> raw_bytes (sn_State sn) = raw \<and> sn_Sequence sn = sequence
       \<and> set (stored_snapshots an s') = insert sn (cloneWorkflowSnapshotRecord ` set (stored_snapshots an s))))"

lemma write_boundary_ok:
  assumes "write_boundary env msg an ident sequence envelope opers s = (None, s')"
    "\<And>now. opers now = SaveWorkflowRun (r now) # extra now" "\<And>now. wr_ID (r now) = an_runID an" "\<And>now. set (extra now) \<subseteq> range SaveSchedule"
  shows "boundary env an sequence envelope r s s'"
proof (cases "ws_Store s")
  case None
  then show ?thesis using assms(1) by (simp add: write_boundary_def boundary_def)
next
  case (Some store)
  then obtain raw now w where m: "en_Marshal env envelope = Inr raw" "en_Now env (ws_World s) = (now, w)"
    using assms(1) by (auto simp: write_boundary_def split: sum.splits prod.splits)
  let ?sn = "\<lparr>sn_ID = ident, sn_RunID = an_runID an, sn_Sequence = sequence, sn_SchemaVersion = workflowSnapshotSchemaVersion,
    sn_State = Some raw, sn_CreatedAt = now\<rparr>"
  let ?fn = "tx_seq (SaveWorkflowSnapshot ?sn # SaveWorkflowRun (r now) # extra now)" and ?ctx = "en_Ctx env w"
  obtain store' where t: "Transaction ?ctx ?ctx ?fn store store = (store', None)" and s': "ws_Store s' = Some store'"
    using assms(1) Some m unfolding write_boundary_def assms(2) by (auto simp: Let_def split: prod.splits)
  then obtain tx where r: "run_tx ?fn ?ctx (tx_begin store) = (tx, None)" and c: "tx_commit (version store) tx store = (store', None)"
    by (auto simp: Transaction_def simp del: tx_seq.simps split: option.splits prod.splits)
  note b = tx_boundary [OF r assms(4)]
  have st: "state store' = tx_state tx" using tx_commit_dirty [OF b(1) c] by simp
  show ?thesis unfolding boundary_def
    using Some s' m b(2-4) st
    by (auto simp: stored_run_def stored_snapshots_def assms(3) tx_begin_def cloneMemoryState_def
        intro!: exI [of _ "cloneWorkflowSnapshotRecord ?sn"] exI [of _ now]) (simp_all add: cloneWorkflowSnapshotRecord_def)
qed

lemma boundary_record_ID [simp]: "wr_ID (boundary_record env lw an status path position ident outputs now) = an_runID an"
  by (simp add: boundary_record_def baseRunRecord_def)

lemma boundary_record_fields [simp]:
  "wr_Status (boundary_record env lw an status path position ident outputs now) = status"
  "wr_CurrentStep (boundary_record env lw an status path position ident outputs now) = position"
  "wr_CurrentStepID (boundary_record env lw an status path position ident outputs now) = ident"
  "wr_StepOutputs (boundary_record env lw an status path position ident outputs now) = outputs"
  "wr_Path (boundary_record env lw an status path position ident outputs now) = path"
  by (simp_all add: boundary_record_def)

lemma clone_run_fields [simp]:
  "wr_CurrentStep (cloneWorkflowRunRecord v) = wr_CurrentStep v" "wr_CurrentStepID (cloneWorkflowRunRecord v) = wr_CurrentStepID v"
  "wr_StepOutputs (cloneWorkflowRunRecord v) = map cloneJSON (wr_StepOutputs v)" "wr_Path (cloneWorkflowRunRecord v) = wr_Path v"
  "wr_Output (cloneWorkflowRunRecord v) = cloneJSON (wr_Output v)"
  by (simp_all add: cloneWorkflowRunRecord_def)

section \<open>Every step is a boundary\<close>

text \<open>Documented behaviour of \<^verbatim>\<open>encoding/json\<close>: no value is encoded as the empty text.\<close>

definition json_nonempty :: "'w env \<Rightarrow> bool" where
  "json_nonempty env \<longleftrightarrow> (\<forall>v. en_Encode env v \<noteq> Inr []) \<and> (\<forall>vs. en_EncodeItems env vs \<noteq> Inr [])"

definition step_written :: "'w env \<Rightarrow> 'w workflow \<Rightarrow> runAnchor \<Rightarrow> string \<Rightarrow> string list \<Rightarrow> int \<Rightarrow> string \<Rightarrow> RawMessage list \<Rightarrow> 'w wstate \<Rightarrow> 'w wstate \<Rightarrow> bool" where
  "step_written env lw an status path position ident outputs s s' \<longleftrightarrow> (\<exists>envelope.
     boundary env an (workflowTerminalSnapshotSequence position) envelope (boundary_record env lw an status path position ident outputs) s s')"

lemma persistStep_ok:
  "persistStep env lw an path position ident out completed results s = (None, s') \<Longrightarrow>
    step_written env lw an RunStatusRunning path position ident (map cloneJSON completed @ [cloneJSON out]) s s'"
  unfolding persistStep_def step_written_def Let_def by (rule exI, erule write_boundary_ok) auto

lemma persistForEachStep_ok:
  "persistForEachStep env lw an path position ident out completed results s = (None, s') \<Longrightarrow> raw_bytes out \<noteq> [] \<Longrightarrow>
    step_written env lw an RunStatusRunning path position ident (map cloneJSON completed @ [cloneJSON out]) s s'"
  unfolding persistForEachStep_def step_written_def Let_def by (rule exI, erule write_boundary_ok) (auto simp: outputs_with_def)

lemma persistFanOutStep_ok:
  "persistFanOutStep env lw an path position ident out completed results s = (None, s') \<Longrightarrow> raw_bytes out \<noteq> [] \<Longrightarrow>
    step_written env lw an RunStatusRunning path position ident (map cloneJSON completed @ [cloneJSON out]) s s'"
  unfolding persistFanOutStep_def step_written_def Let_def by (rule exI, erule write_boundary_ok) (auto simp: outputs_with_def)

lemma executeForEach_output:
  "executeForEach env ra position ident children input st w = (Inr out, result, w') \<Longrightarrow> json_nonempty env \<Longrightarrow> raw_bytes out \<noteq> []"
  by (auto simp: executeForEach_def json_nonempty_def Let_def split: if_splits sum.splits list.splits)

lemma executeFanOut_output:
  "executeFanOut env ra position ident branches input st w = (Inr out, join, w') \<Longrightarrow> json_nonempty env \<Longrightarrow> raw_bytes out \<noteq> []"
  by (auto simp: executeFanOut_def json_nonempty_def Let_def split: option.splits sum.splits prod.splits)

text \<open>A bound on the sequence numbers of the snapshots of the run.\<close>

definition seq_below :: "runAnchor \<Rightarrow> int \<Rightarrow> 'w wstate \<Rightarrow> bool" where
  "seq_below an n s \<longleftrightarrow> (\<forall>sn \<in> set (stored_snapshots an s). sn_Sequence sn \<le> n)"

lemma seq_below_world [simp]: "seq_below an n (s\<lparr>ws_World := w\<rparr>) = seq_below an n s"
  by (simp add: seq_below_def)

lemma boundary_store: "boundary env an sequence envelope r s s' \<Longrightarrow> ws_Store s' = None \<longleftrightarrow> ws_Store s = None"
  by (auto simp: boundary_def split: if_splits)

lemma boundary_below: "boundary env an sequence envelope r s s' \<Longrightarrow> sequence \<le> n \<Longrightarrow> seq_below an n s \<Longrightarrow> seq_below an n s'"
  by (auto simp: boundary_def seq_below_def split: if_splits)

lemma iteration_sequence: "workflowSnapshotSequence position iteration \<le> workflowTerminalSnapshotSequence position"
  by (simp add: workflowSnapshotSequence_def workflowTerminalSnapshotSequence_def)

lemma loop_keeps:
  assumes "loop_iterations env lw an ra position ident children cond mode completed n iteration current s = (Inr out, s')"
  shows "(ws_Store s' = None \<longleftrightarrow> ws_Store s = None) \<and>
    (seq_below an (workflowTerminalSnapshotSequence position) s \<longrightarrow> seq_below an (workflowTerminalSnapshotSequence position) s')"
  using assms
proof (induction n arbitrary: iteration current s)
  case (Suc n)
  obtain out1 w1 s2 where c: "run_children env ra position c_ID children current (ws_Store s) (ws_World s) = (Inr out1, w1)"
      "persistLoopCheckpoint env lw an position ident iteration out1 completed (s\<lparr>ws_World := w1\<rparr>) = (None, s2)"
      "(out1 = out \<and> s2 = s') \<or> loop_iterations env lw an ra position ident children cond mode completed n (iteration + 1) out1 s2 = (Inr out, s')"
    using Suc.prems by (auto split: option.splits sum.splits prod.splits if_splits)
  obtain envelope r where b: "boundary env an (workflowSnapshotSequence position iteration) envelope r (s\<lparr>ws_World := w1\<rparr>) s2"
    using write_boundary_ok [OF c(2) [unfolded persistLoopCheckpoint_def Let_def]] by force
  from c(3) show ?case
  proof
    assume "out1 = out \<and> s2 = s'"
    then show ?thesis using boundary_store [OF b] boundary_below [OF b iteration_sequence] by simp
  next
    assume "loop_iterations env lw an ra position ident children cond mode completed n (iteration + 1) out1 s2 = (Inr out, s')"
    from Suc.IH [OF this] show ?thesis using boundary_store [OF b] boundary_below [OF b iteration_sequence] by simp
  qed
qed simp

text \<open>A step that is not a branching step goes on only after its boundary is written.\<close>

lemma exec_control_written:
  assumes "exec_control env lw an ra x position c = Inl x'" "\<forall>brs d. c_control c \<noteq> Branching brs d" "json_nonempty env"
  shows "\<exists>out s. x_outputs x' = x_outputs x @ [cloneJSON out] \<and> x_current x' = cloneJSON out \<and> x_lastStepID x' = c_ID c \<and> x_lastPosition x' = position
    \<and> step_written env lw an RunStatusRunning (x_path x) position (c_ID c) (map cloneJSON (x_outputs x) @ [cloneJSON out]) s (x_state x')
    \<and> (ws_Store s = None \<longleftrightarrow> ws_Store (x_state x) = None)
    \<and> (seq_below an (workflowTerminalSnapshotSequence position) (x_state x) \<longrightarrow> seq_below an (workflowTerminalSnapshotSequence position) s)"
proof (cases "c_control c")
  case (Branching brs d)
  then show ?thesis using assms(2) by simp
next
  case (Handle h)
  then obtain out w s' where r: "persistStep env lw an (x_path x) position (c_ID c) out (x_outputs x) (x_forEach x) ((x_state x)\<lparr>ws_World := w\<rparr>) = (None, s')"
      "x' = complete_step x position (c_ID c) out s'"
    using assms(1) by (auto simp: exec_control_def exec_handler_def Let_def split: option.splits sum.splits prod.splits retryOutcome.splits)
  show ?thesis using persistStep_ok [OF r(1)] r(2) by (intro exI [of _ out] exI [of _ "(x_state x)\<lparr>ws_World := w\<rparr>"]) (auto simp: complete_step_def)
next
  case (FanningOut branches n pol)
  then obtain out join w s' where r: "executeFanOut env ra position (c_ID c) branches (x_current x) (ws_Store (x_state x)) (ws_World (x_state x)) = (Inr out, join, w)"
      "persistFanOutStep env lw an (x_path x) position (c_ID c) out (x_outputs x) [join] ((x_state x)\<lparr>ws_World := w\<rparr>) = (None, s')"
      "x' = complete_step (x\<lparr>x_fanOut := x_fanOut x @ [join]\<rparr>) position (c_ID c) out s'"
    using assms(1) by (auto simp: exec_control_def exec_fanout_def Let_def split: option.splits sum.splits prod.splits)
  show ?thesis using persistFanOutStep_ok [OF r(2) executeFanOut_output [OF r(1) assms(3)]] r(3)
    by (intro exI [of _ out] exI [of _ "(x_state x)\<lparr>ws_World := w\<rparr>"]) (auto simp: complete_step_def)
next
  case (Mapping m)
  then obtain out s' where r: "persistStep env lw an (x_path x) position (c_ID c) out (x_outputs x) (x_forEach x) (x_state x) = (None, s')"
      "x' = complete_step x position (c_ID c) out s'"
    using assms(1) by (auto simp: exec_control_def exec_map_def split: option.splits sum.splits prod.splits)
  show ?thesis using persistStep_ok [OF r(1)] r(2) by (intro exI [of _ out] exI [of _ "x_state x"]) (auto simp: complete_step_def)
next
  case (ForEaching children n)
  then obtain out result w s' where r: "executeForEach env ra position (c_ID c) children (x_current x) (ws_Store (x_state x)) (ws_World (x_state x)) = (Inr out, result, w)"
      "persistForEachStep env lw an (x_path x) position (c_ID c) out (x_outputs x) (x_forEach x @ [result]) ((x_state x)\<lparr>ws_World := w\<rparr>) = (None, s')"
      "x' = (complete_step x position (c_ID c) out s')\<lparr>x_forEach := x_forEach x @ [result]\<rparr>"
    using assms(1) by (auto simp: exec_control_def exec_foreach_def Let_def split: option.splits sum.splits prod.splits)
  show ?thesis using persistForEachStep_ok [OF r(2) executeForEach_output [OF r(1) assms(3)]] r(3)
    by (intro exI [of _ out] exI [of _ "(x_state x)\<lparr>ws_World := w\<rparr>"]) (auto simp: complete_step_def)
next
  case (Looping children n cond mode)
  then obtain out s s' where r: "executeLoop env lw an ra position (c_ID c) children n cond mode (x_outputs x) (x_current x) (x_state x) = (Inr out, s)"
      "persistStep env lw an (x_path x) position (c_ID c) out (x_outputs x) (x_forEach x) s = (None, s')"
      "x' = complete_step x position (c_ID c) out s'"
    using assms(1) by (auto simp: exec_control_def exec_loop_def split: option.splits sum.splits prod.splits)
  show ?thesis using persistStep_ok [OF r(2)] r(3) loop_keeps [OF r(1) [unfolded executeLoop_def]]
    by (intro exI [of _ out] exI [of _ "s"]) (auto simp: complete_step_def)
next
  case (Sleeping d)
  then show ?thesis using assms(1) by (auto simp: exec_control_def exec_sleep_def split: option.splits sum.splits prod.splits)
next
  case (SleepingUntil d)
  then show ?thesis using assms(1) by (auto simp: exec_control_def exec_sleep_def split: option.splits sum.splits prod.splits)
qed

section \<open>The record of a run\<close>

inductive walk :: "'w env \<Rightarrow> 'w workflow \<Rightarrow> runAnchor \<Rightarrow> run_args \<Rightarrow> 'w exec_config \<Rightarrow> 'w exec_config \<Rightarrow> bool"
  for env lw an ra x where
  walk_refl: "walk env lw an ra x x"
| walk_step: "walk env lw an ra x y \<Longrightarrow> exec_step env lw an ra y = Inl z \<Longrightarrow> walk env lw an ra x z"

lemma walk_front: "walk env lw an ra y z \<Longrightarrow> exec_step env lw an ra x = Inl y \<Longrightarrow> walk env lw an ra x z"
  by (induction rule: walk.induct) (blast intro: walk.intros)+

lemma executeFrames_walk: "executeFrames env lw an ra x = Some f \<Longrightarrow> \<exists>y. walk env lw an ra x y \<and> exec_step env lw an ra y = Inr f"
proof (induction "weight (x_frames x)" arbitrary: x rule: less_induct)
  case less
  show ?case
  proof (cases "exec_step env lw an ra x")
    case (Inl x')
    then show ?thesis using less.hyps [OF exec_step_weight [OF Inl]] less.prems walk_front [OF _ Inl]
      by (auto simp: executeFrames.simps [of env lw an ra x])
  next
    case (Inr g)
    then show ?thesis using less.prems walk_refl by (fastforce simp: executeFrames.simps [of env lw an ra x])
  qed
qed

definition recorded :: "runAnchor \<Rightarrow> 'w exec_config \<Rightarrow> bool" where
  "recorded an x \<longleftrightarrow> map cloneJSON (x_outputs x) = x_outputs x \<and> (x_outputs x \<noteq> [] \<longrightarrow> x_current x = last (x_outputs x)) \<and>
     (ws_Store (x_state x) = None \<or> (\<exists>r. stored_run an (x_state x) = Some r \<and> wr_Status r = RunStatusRunning \<and> wr_StepOutputs r = x_outputs x
        \<and> wr_CurrentStep r = x_lastPosition x \<and> wr_CurrentStepID r = x_lastStepID x \<and> prefix (wr_Path r) (x_path x)))"

lemma exec_step_store: "exec_step env lw an ra x = Inl y \<Longrightarrow> json_nonempty env \<Longrightarrow> ws_Store (x_state y) = None \<longleftrightarrow> ws_Store (x_state x) = None"
proof (erule exec_step_Inl)
  fix steps i rest
  assume j: "json_nonempty env" and e: "exec_control env lw an ra x (x_position x + 1) (steps ! i) = Inl y"
  show ?thesis
  proof (cases "\<exists>brs d. c_control (steps ! i) = Branching brs d")
    case True
    then show ?thesis using e by (auto simp: exec_control_def exec_branching_def split: option.splits sum.splits)
  next
    case False
    then show ?thesis using exec_control_written [OF e _ j] by (auto simp: step_written_def dest: boundary_store)
  qed
qed simp

lemma exec_step_recorded:
  assumes "exec_step env lw an ra x = Inl y" "json_nonempty env" "recorded an x"
  shows "recorded an y"
  using assms(1)
proof (cases rule: exec_step_Inl)
  case (pop steps i rest)
  then show ?thesis using assms(3) by (simp add: recorded_def)
next
  case (run steps i rest)
  let ?c = "steps ! i"
  show ?thesis
  proof (cases "\<exists>brs d. c_control ?c = Branching brs d")
    case True
    then show ?thesis using run(3) assms(3) by (auto simp: recorded_def exec_control_def exec_branching_def split: option.splits sum.splits)
  next
    case False
    then obtain out s where w: "x_outputs y = x_outputs x @ [cloneJSON out]" "x_current y = cloneJSON out" "x_lastStepID y = c_ID ?c"
        "x_lastPosition y = x_position x + 1"
        "step_written env lw an RunStatusRunning (x_path x) (x_position x + 1) (c_ID ?c) (map cloneJSON (x_outputs x) @ [cloneJSON out]) s (x_state y)"
        "ws_Store s = None \<longleftrightarrow> ws_Store (x_state x) = None"
      using exec_control_written [OF run(3) _ assms(2)] by auto
    have p: "x_path y = x_path x" using exec_control_Inl [OF run(3)] False by auto
    show ?thesis using w p assms(3) by (auto simp: recorded_def step_written_def boundary_def split: if_splits)
  qed
qed

lemma walk_recorded_inv:
  "walk env lw an ra x y \<Longrightarrow> json_nonempty env \<Longrightarrow> recorded an x \<Longrightarrow>
    recorded an y \<and> (ws_Store (x_state y) = None \<longleftrightarrow> ws_Store (x_state x) = None)"
  by (induction rule: walk.induct) (auto dest: exec_step_recorded exec_step_store)

lemma exec_save_run:
  "MemoryStore_exec ctx (Repo (SaveWorkflowRun r)) store = (store', None) \<Longrightarrow>
    runs (state store') = mset_at (wr_ID r) (cloneWorkflowRunRecord r) (runs (state store)) \<and> snapshots (state store') = snapshots (state store)"
  by (auto simp: MemoryStore_exec_def dest!: save_run_effect split: prod.splits option.splits)

lemma start_run_anchor: "start_run env lw ident input s = (an, r) \<Longrightarrow> an_runID an = ident"
  by (auto simp: start_run_def newAnchor_def Let_def split: prod.splits option.splits)

lemma start_run_inv:
  assumes "start_run env lw ident input s = (an, Inl x)"
  shows "recorded an x" "x_frames x = [(lw_steps lw, 0)]" "x_path x = []" "x_position x = 0" "ws_Store (x_state x) = None \<longleftrightarrow> ws_Store s = None"
    "stored_snapshots an (x_state x) = stored_snapshots an s"
proof -
  obtain s1 s2 where s: "newAnchor env ident input s = (an, s1)" "persistRunStart env lw an s1 = (None, s2)"
      "x = (initial_config lw (wi_Input input) s1)\<lparr>x_state := s2\<rparr>"
    using assms by (auto simp: start_run_def Let_def split: prod.splits option.splits)
  have st: "ws_Store s1 = ws_Store s" using s(1) by (auto simp: newAnchor_def split: option.splits prod.splits)
  show "recorded an x" "ws_Store (x_state x) = None \<longleftrightarrow> ws_Store s = None" "stored_snapshots an (x_state x) = stored_snapshots an s"
    using s(2,3) st
    by (auto simp: recorded_def initial_config_def persistRunStart_def stored_run_def stored_snapshots_def baseRunRecord_def
        dest!: exec_save_run split: option.splits prod.splits)
  show "x_frames x = [(lw_steps lw, 0)]" "x_path x = []" "x_position x = 0"
    using s(3) by (simp_all add: initial_config_def)
qed

lemma retry_suspends:
  "retry_loop env c iv input policy st n first w = (Inl (RetrySuspended sig), w') \<Longrightarrow> ss_StepID sig = c_ID c \<and> c_suspendSchema c \<noteq> None"
proof (induction n arbitrary: first w)
  case (Suc n)
  have "ss_StepID sig = c_ID c \<and> c_suspendSchema c \<noteq> None" if "suspend_outcome c sig' e = RetrySuspended sig" for sig' e
    using that by (auto simp: suspend_outcome_def split: option.splits if_splits)
  then show ?case using Suc.prems Suc.IH by (auto split: option.splits prod.splits step_return.splits if_splits)
qed simp

text \<open>The envelope of a suspension.\<close>

definition suspend_envelope :: "'w exec_config \<Rightarrow> string \<Rightarrow> suspendEnvelope \<Rightarrow> workflowSnapshotEnvelope" where
  "suspend_envelope x ident se = \<lparr>sv_Step = x_position x + 1, sv_StepID = ident, sv_Output = None, sv_Outputs = map cloneJSON (x_outputs x),
     sv_Suspend = Some se, sv_Path = x_path x, sv_FanOut = x_fanOut x, sv_ForEach = x_forEach x, sv_Loops = []\<rparr>"

definition suspension :: "'w env \<Rightarrow> 'w workflow \<Rightarrow> runAnchor \<Rightarrow> 'w exec_config \<Rightarrow> string \<Rightarrow> suspendEnvelope \<Rightarrow> 'w wstate \<Rightarrow> bool" where
  "suspension env lw an x ident se s' \<longleftrightarrow> (\<exists>w. boundary env an (workflowTerminalSnapshotSequence (x_position x + 1)) (suspend_envelope x ident se)
     (boundary_record env lw an RunStatusSuspended (x_path x) (x_position x + 1) ident (map cloneJSON (x_outputs x))) ((x_state x)\<lparr>ws_World := w\<rparr>) s')"

lemma exec_handler_done:
  assumes "exec_handler env lw an ra x (x_position x + 1) c = Inr ((None, r), s')"
  shows "\<exists>su. r = (run_result ra RunStatusSuspended (x_path x) (x_fanOut x) [])\<lparr>rr_Suspend := Some su\<rparr> \<and> su_Step su = x_position x + 1 \<and> su_StepID su = c_ID c
    \<and> c_suspendSchema c \<noteq> None \<and> suspension env lw an x (c_ID c) \<lparr>se_Contract = su_Contract su, se_Payload = su_Payload su, se_Wake = None\<rparr> s'"
proof -
  obtain sig w where g: "runStepWithRetry env ra c (x_position x + 1) (x_current x) (ws_Store (x_state x)) (ws_World (x_state x)) = (Inl (RetrySuspended sig), w)"
      "persistSuspend env lw an (x_path x) (x_fanOut x) (x_forEach x) (x_position x + 1) (c_ID c) (x_outputs x) sig ((x_state x)\<lparr>ws_World := w\<rparr>) = (None, s')"
      "r = (run_result ra RunStatusSuspended (x_path x) (x_fanOut x) [])\<lparr>rr_Suspend := Some \<lparr>su_Step = x_position x + 1, su_StepID = ss_StepID sig,
        su_Contract = cloneRawMessage (ss_Contract sig), su_Payload = cloneRawMessage (ss_Payload sig)\<rparr>\<rparr>"
    using assms by (auto simp: exec_handler_def Let_def suspended_def stop_child_def stop_failed_def cancelled_def fail_def
        split: option.splits sum.splits prod.splits retryOutcome.splits if_splits)
  have k: "ss_StepID sig = c_ID c" "c_suspendSchema c \<noteq> None"
    using g(1) by (auto simp: runStepWithRetry_def Let_def dest: retry_suspends)
  have "suspension env lw an x (c_ID c) \<lparr>se_Contract = cloneRawMessage (ss_Contract sig), se_Payload = cloneRawMessage (ss_Payload sig), se_Wake = None\<rparr> s'"
    unfolding suspension_def suspend_envelope_def
    by (rule exI [of _ w], rule write_boundary_ok [OF g(2) [unfolded persistSuspend_def Let_def]]) auto
  then show ?thesis using g(3) k
    by (intro exI [of _ "\<lparr>su_Step = x_position x + 1, su_StepID = c_ID c,
        su_Contract = cloneRawMessage (ss_Contract sig), su_Payload = cloneRawMessage (ss_Payload sig)\<rparr>"]) simp
qed

lemma exec_sleep_done:
  assumes "exec_sleep env lw an ra x (x_position x + 1) c until = Inr ((None, r), s')"
  shows "\<exists>su t. r = (run_result ra RunStatusSuspended (x_path x) (x_fanOut x) (x_forEach x))\<lparr>rr_Suspend := Some su\<rparr> \<and> su_Step su = x_position x + 1 \<and> su_StepID su = c_ID c
    \<and> ws_Store (x_state x) \<noteq> None \<and> suspension env lw an x (c_ID c) \<lparr>se_Contract = None, se_Payload = cloneJSON (x_current x),
      se_Wake = Some \<lparr>wk_At = t, wk_Token = ra_runID ra @ ''-wake-'' @ itoa (x_position x + 1)\<rparr>\<rparr> s'"
proof -
  obtain now w where g: "persistSleep env lw an (x_path x) (x_fanOut x) (x_forEach x) (x_position x + 1) (c_ID c) (x_outputs x) (x_current x) (until now)
             (ra_runID ra @ ''-wake-'' @ itoa (x_position x + 1)) ((x_state x)\<lparr>ws_World := w\<rparr>) = (None, s')"
      "r = (run_result ra RunStatusSuspended (x_path x) (x_fanOut x) (x_forEach x))\<lparr>rr_Suspend := Some \<lparr>su_Step = x_position x + 1, su_StepID = c_ID c,
        su_Contract = None, su_Payload = cloneRawMessage (x_current x)\<rparr>\<rparr>"
    using assms by (auto simp: exec_sleep_def suspended_def stop_failed_def fail_def split: option.splits prod.splits)
  have st: "\<not> ws_Store ((x_state x)\<lparr>ws_World := w\<rparr>) = None" using g(1) by (auto simp: persistSleep_def Let_def split: if_splits)
  have "suspension env lw an x (c_ID c) \<lparr>se_Contract = None, se_Payload = cloneJSON (x_current x),
      se_Wake = Some \<lparr>wk_At = until now, wk_Token = ra_runID ra @ ''-wake-'' @ itoa (x_position x + 1)\<rparr>\<rparr> s'"
    unfolding suspension_def suspend_envelope_def
    by (rule exI [of _ w], rule write_boundary_ok [OF g(1) [unfolded persistSleep_def Let_def if_not_P [OF st]]]) auto
  then show ?thesis using g(2) st
    by (intro exI [of _ "\<lparr>su_Step = x_position x + 1, su_StepID = c_ID c, su_Contract = None, su_Payload = cloneRawMessage (x_current x)\<rparr>"]
        exI [of _ "until now"]) simp
qed

definition sleeps :: "'w step \<Rightarrow> bool" where
  "sleeps c \<longleftrightarrow> (case c_control c of Sleeping d \<Rightarrow> True | SleepingUntil t \<Rightarrow> True | _ \<Rightarrow> False)"

lemma exec_step_done:
  assumes "exec_step env lw an ra x = Inr ((None, r), s')"
  obtains (finished) "x_frames x = []" "r = (run_result ra RunStatusSucceeded (x_path x) (x_fanOut x) (x_forEach x))\<lparr>rr_Output := cloneJSON (x_current x)\<rparr>"
      "persistTerminal env lw an (x_path x) (x_lastPosition x) (x_lastStepID x) (x_fanOut x) (x_outputs x) RunStatusSucceeded None (x_state x) = (None, s')"
  | (suspended) steps i rest su se each where "x_frames x = (steps, i) # rest" "i < length steps" "su_Step su = x_position x + 1" "su_StepID su = c_ID (steps ! i)"
      "r = (run_result ra RunStatusSuspended (x_path x) (x_fanOut x) each)\<lparr>rr_Suspend := Some su\<rparr>"
      "suspension env lw an x (c_ID (steps ! i)) se s'"
      "if sleeps (steps ! i) then se_Payload se = cloneJSON (x_current x) \<and> map_option wk_Token (se_Wake se) = Some (ra_runID ra @ ''-wake-'' @ itoa (x_position x + 1))
       else se_Wake se = None \<and> c_suspendSchema (steps ! i) \<noteq> None \<and> se_Contract se = su_Contract su"
proof (cases "x_frames x")
  case Nil
  then show ?thesis using assms that(1) by (auto simp: exec_step_def finish_run_def fail_def split: prod.splits option.splits)
next
  case (Cons f rest)
  obtain steps i where f: "f = (steps, i)" by fastforce
  have i: "i < length steps" and e: "exec_control env lw an ra x (x_position x + 1) (steps ! i) = Inr ((None, r), s')"
    using assms Cons f by (auto simp: exec_step_def Let_def cancelled_def split: if_splits option.splits)
  note d = that(2) [OF Cons [unfolded f] i]
  show ?thesis
  proof (cases "c_control (steps ! i)")
    case (Handle h)
    then obtain su where "r = (run_result ra RunStatusSuspended (x_path x) (x_fanOut x) [])\<lparr>rr_Suspend := Some su\<rparr>" "su_Step su = x_position x + 1"
        "su_StepID su = c_ID (steps ! i)" "c_suspendSchema (steps ! i) \<noteq> None"
        "suspension env lw an x (c_ID (steps ! i)) \<lparr>se_Contract = su_Contract su, se_Payload = su_Payload su, se_Wake = None\<rparr> s'"
      using e exec_handler_done by (fastforce simp: exec_control_def)
    then show ?thesis using d [of su] Handle by (simp add: sleeps_def)
  next
    case (Sleeping n)
    then show ?thesis using e d exec_sleep_done [of env lw an ra x "steps ! i" "\<lambda>now. now + n" r s'] by (fastforce simp: exec_control_def sleeps_def)
  next
    case (SleepingUntil n)
    then show ?thesis using e d exec_sleep_done [of env lw an ra x "steps ! i" "\<lambda>now. n" r s'] by (fastforce simp: exec_control_def sleeps_def)
  next
    case (Branching brs dflt)
    then show ?thesis using e by (auto simp: exec_control_def exec_branching_def stop_failed_def fail_def split: option.splits sum.splits)
  next
    case (FanningOut branches n pol)
    then show ?thesis using e by (auto simp: exec_control_def exec_fanout_def stop_child_def cancelled_def stop_failed_def fail_def Let_def
          split: option.splits sum.splits prod.splits if_splits)
  next
    case (Mapping m)
    then show ?thesis using e by (auto simp: exec_control_def exec_map_def stop_failed_def fail_def split: option.splits sum.splits prod.splits)
  next
    case (ForEaching children n)
    then show ?thesis using e by (auto simp: exec_control_def exec_foreach_def with_each_def stop_child_def cancelled_def stop_failed_def fail_def Let_def
          split: option.splits sum.splits prod.splits if_splits)
  next
    case (Looping children n cond mode)
    then show ?thesis using e by (auto simp: exec_control_def exec_loop_def stop_child_def cancelled_def stop_failed_def fail_def
          split: option.splits sum.splits prod.splits if_splits)
  qed
qed

lemma terminal_record_ID [simp]: "wr_ID (terminal_record env lw an path position ident fans completed status failure now) = an_runID an"
  by (simp add: terminal_record_def)

lemma terminal_stored:
  assumes "persistTerminal env lw an path position ident fans completed RunStatusSucceeded None s = (None, s')" "ws_Store s \<noteq> None"
  shows "\<exists>now. stored_run an s' = Some (cloneWorkflowRunRecord (terminal_record env lw an path position ident fans completed RunStatusSucceeded None now))"
  using assms
  by (auto simp: persistTerminal_def stored_run_def dest!: exec_save_run split: prod.splits) (rule exI, rule refl)

text \<open>C0 run_terminates: \<^verbatim>\<open>Run\<close> returns, whatever the steps of the workflow, the handlers, the store and the context do: the
  frames of the walk shrink with every step, loops are bounded and retries are bounded.\<close>

theorem run_terminates: "\<exists>r s'. Run env lw input s = Some (r, s')"
proof -
  have b: "run_body env lw ident input s1 \<noteq> None" for ident s1
    using executeFrames_returns by (fastforce simp: run_body_def split: prod.splits sum.splits)
  have "Run env lw input s \<noteq> None"
    by (auto simp: Run_def Let_def b simp del: not_None_eq split: option.splits prod.splits)
  then show ?thesis by auto
qed

text \<open>C0 walk_recorded: between any two steps of a run that is bound to a store, whichever steps ran before, the stored record
  of the run says that it is running, holds the outputs of exactly the steps that are complete, in order, names the last
  complete step and its position, and its path is a prefix of the branches taken.\<close>

theorem walk_recorded:
  assumes "start_run env lw ident input s = (an, Inl x)" "walk env lw an (args_of ident input) x y" "json_nonempty env" "ws_Store s \<noteq> None"
  shows "\<exists>store r. ws_Store (x_state y) = Some store \<and> mget (runs (state store)) ident = Some r \<and> wr_Status r = RunStatusRunning
    \<and> wr_StepOutputs r = x_outputs y \<and> wr_CurrentStep r = x_lastPosition y \<and> wr_CurrentStepID r = x_lastStepID y
    \<and> prefix (wr_Path r) (x_path y)"
  using walk_recorded_inv [OF assms(2,3) start_run_inv(1) [OF assms(1)]] start_run_inv(5) [OF assms(1)] start_run_anchor [OF assms(1)] assms(4)
  by (auto simp: recorded_def stored_run_def)

lemma recorded_outcome:
  assumes "executeFrames env lw an ra x = Some ((None, r), s')" "recorded an x" "json_nonempty env" "ws_Store (x_state x) \<noteq> None"
  shows "\<exists>v. stored_run an s' = Some v \<and> wr_Status v = rr_Status r \<and> wr_Path v = rr_Path r \<and>
    (rr_Status r = RunStatusSucceeded \<and> (wr_StepOutputs v \<noteq> [] \<longrightarrow> wr_Output v = rr_Output r) \<or>
     rr_Status r = RunStatusSuspended \<and> (\<exists>su. rr_Suspend r = Some su \<and> wr_CurrentStep v = su_Step su \<and> wr_CurrentStepID v = su_StepID su))"
proof -
  obtain y where y: "walk env lw an ra x y" "exec_step env lw an ra y = Inr ((None, r), s')"
    using executeFrames_walk [OF assms(1)] by blast
  have inv: "recorded an y" "ws_Store (x_state y) \<noteq> None" using walk_recorded_inv [OF y(1) assms(3,2)] assms(4) by simp_all
  from y(2) show ?thesis
  proof (cases rule: exec_step_done)
    case finished
    obtain now where "stored_run an s' = Some (cloneWorkflowRunRecord (terminal_record env lw an (x_path y) (x_lastPosition y) (x_lastStepID y)
        (x_fanOut y) (x_outputs y) RunStatusSucceeded None now))"
      using terminal_stored [OF finished(3) inv(2)] by blast
    then show ?thesis using finished(2) inv(1) by (auto simp: terminal_record_def run_result_def recorded_def)
  next
    case (suspended steps i rest su se each)
    then show ?thesis using inv(2) by (auto simp: suspension_def boundary_def run_result_def)
  qed
qed

text \<open>C0 run_outcome_recorded: when \<^verbatim>\<open>Run\<close> on a bound store returns no error, the store holds the record of the run under the
  returned ID with the returned status and path; for a run that succeeded it holds the returned output, and for a run that
  is suspended it names the step that suspended it.\<close>

theorem run_outcome_recorded:
  assumes "Run env lw input s = Some ((None, r), s')" "json_nonempty env" "ws_Store s \<noteq> None"
  shows "\<exists>store v. ws_Store s' = Some store \<and> mget (runs (state store)) (rr_ID r) = Some v \<and> wr_Status v = rr_Status r \<and> wr_Path v = rr_Path r \<and>
    (rr_Status r = RunStatusSucceeded \<and> (wr_StepOutputs v \<noteq> [] \<longrightarrow> wr_Output v = rr_Output r) \<or>
     rr_Status r = RunStatusSuspended \<and> (\<exists>su. rr_Suspend r = Some su \<and> wr_CurrentStep v = su_Step su \<and> wr_CurrentStepID v = su_StepID su))"
proof -
  obtain ident s1 s2 where b: "run_body env lw ident input s1 = Some ((None, r), s2)" "ws_Store s' = ws_Store s2" "ws_Store s1 = ws_Store s"
    using assms(1) by (auto simp: Run_def Let_def split: option.splits prod.splits if_splits)
  obtain an x where x: "start_run env lw ident input s1 = (an, Inl x)" "executeFrames env lw an (args_of ident input) x = Some ((None, r), s2)"
    using b(1) by (auto simp: run_body_def start_run_def Let_def cancelled_def stop_failed_def fail_def split: prod.splits option.splits)
  have st: "ws_Store (x_state x) \<noteq> None" using start_run_inv(5) [OF x(1)] b(3) assms(3) by simp
  have "rr_ID r = ident" using executeFrames_walk [OF x(2)]
    by (auto simp: run_result_def args_of_def elim!: exec_step_done)
  then show ?thesis using recorded_outcome [OF x(2) start_run_inv(1) [OF x(1)] assms(2) st] start_run_anchor [OF x(1)] b(2)
    by (auto simp: stored_run_def split: option.splits)
qed

section \<open>A sample run\<close>

text \<open>Two steps: \<open>first\<close> returns its input, \<open>ask\<close> suspends the run.\<close>

definition ask :: "(MemoryStore option, unit) handler" where
  "ask iv input st w = (Suspending (Some \<lparr>ss_StepID = [], ss_Contract = None, ss_Payload = Some ''7''\<rparr>) (Errorf ''suspend'' []), w)"

definition sample_flow :: "unit workflow" where
  "sample_flow = \<lparr>lw_ID = ''wf'', lw_Version = ''v1'', lw_steps = [CompiledStep ''first'' None None None None (Handle (Some echo)),
     CompiledStep ''ask'' None None (Some (\<lambda>_. None)) None (Handle (Some ask))], lw_policy = None\<rparr>"

definition sample_envelope :: workflowSnapshotEnvelope where
  "sample_envelope = \<lparr>sv_Step = 2, sv_StepID = ''ask'', sv_Output = None, sv_Outputs = [Some ''1''],
     sv_Suspend = Some \<lparr>se_Contract = None, se_Payload = Some ''7'', se_Wake = None\<rparr>, sv_Path = [], sv_FanOut = [], sv_ForEach = [], sv_Loops = []\<rparr>"

definition sample_env :: "unit env" where
  "sample_env = \<lparr>en_Ctx = (\<lambda>_. background), en_Now = (\<lambda>w. (1000, w)), en_Wait = (\<lambda>d w. (None, w)), en_Fork = (\<lambda>i w. w), en_Join = (\<lambda>ws w. w),
     en_NewRunID = (\<lambda>w. (''run'', w)), en_Text = (\<lambda>_. ''error''), en_Decode = (\<lambda>b. Inr (JString b)), en_Encode = (\<lambda>v. Inr ''null''),
     en_Items = (\<lambda>b. Inr []), en_EncodeItems = (\<lambda>vs. Inr ''[]''), en_EncodeMetadata = (\<lambda>m. None), en_DecodeMetadata = (\<lambda>b. None),
     en_Marshal = (\<lambda>e. if sv_Suspend e = None then Inr ''null'' else if e = sample_envelope then Inr ''{}'' else Inl (Errorf ''encode'' [])),
     en_Unmarshal = (\<lambda>b. if b = ''{}'' then Some sample_envelope else None)\<rparr>"

definition sample_input :: WorkflowRunInput where
  "sample_input = \<lparr>wi_Input = Some ''1'', wi_ThreadID = [], wi_RunID = [], wi_Namespace = [], wi_OwnerID = [], wi_Metadata = [], wi_RetryOverrides = []\<rparr>"

definition sample_state :: "unit wstate" where
  "sample_state = \<lparr>ws_Store = Some NewMemoryStore, ws_Claims = [], ws_World = ()\<rparr>"

lemma sample_nonempty: "json_nonempty sample_env"
  by (simp add: json_nonempty_def sample_env_def)

declare executeFrames.simps [code]

lemma sample_step:
  "case start_run sample_env sample_flow ''run'' sample_input sample_state of (an, Inl x) \<Rightarrow>
     (case exec_step sample_env sample_flow an (args_of ''run'' sample_input) x of Inl y \<Rightarrow> x_outputs y = [Some ''1''] | _ \<Rightarrow> False) | _ \<Rightarrow> False"
  by code_simp

theorem walk_recorded_witness:
  "\<exists>an x y store r. start_run sample_env sample_flow ''run'' sample_input sample_state = (an, Inl x)
     \<and> walk sample_env sample_flow an (args_of ''run'' sample_input) x y \<and> ws_Store (x_state y) = Some store
     \<and> mget (runs (state store)) ''run'' = Some r \<and> wr_StepOutputs r = [Some ''1'']"
proof -
  obtain an x y where x: "start_run sample_env sample_flow ''run'' sample_input sample_state = (an, Inl x)"
      "exec_step sample_env sample_flow an (args_of ''run'' sample_input) x = Inl y" "x_outputs y = [Some ''1'']"
    using sample_step by (auto split: prod.splits sum.splits)
  have w: "walk sample_env sample_flow an (args_of ''run'' sample_input) x y" using x(2) by (blast intro: walk.intros)
  show ?thesis using walk_recorded [OF x(1) w sample_nonempty] x w by (fastforce simp: sample_state_def)
qed

lemma sample_run:
  "case Run sample_env sample_flow sample_input sample_state of Some ((None, r), s) \<Rightarrow> rr_Status r = RunStatusSuspended | _ \<Rightarrow> False"
  by code_simp

theorem run_outcome_recorded_witness:
  "\<exists>r s store v. Run sample_env sample_flow sample_input sample_state = Some ((None, r), s) \<and> ws_Store s = Some store
     \<and> mget (runs (state store)) (rr_ID r) = Some v \<and> wr_Status v = RunStatusSuspended \<and> rr_Suspend r \<noteq> None"
proof -
  obtain r s where r: "Run sample_env sample_flow sample_input sample_state = Some ((None, r), s)" "rr_Status r = RunStatusSuspended"
    using sample_run by (auto split: option.splits prod.splits)
  show ?thesis using run_outcome_recorded [OF r(1) sample_nonempty] r
    by (fastforce simp: sample_state_def RunStatusSuspended_def RunStatusSucceeded_def)
qed

end
