(* ===== verification/Workflow_Resume.thy ===== *)
theory Workflow_Resume
  imports Workflow_Durable
begin

text \<open>
  Resuming a suspended run (\<^verbatim>\<open>workflow.go\<close>): the frames rebuilt from the persisted path, the snapshot that is loaded,
  \<^verbatim>\<open>Resume\<close> for suspensions and \<^verbatim>\<open>resumeWake\<close> for durable sleeps. The lemmas follow a suspended run through the store:
  what is resumed is the walk as it stood, past the step that suspended it.
\<close>

section \<open>Rebuilding the frames\<close>

definition branch_entry :: "'w step \<Rightarrow> string list \<Rightarrow> (MemoryStore option, 'w) compiledBranch option" where
  "branch_entry c path = (case c_control c of
     Branching brs dflt \<Rightarrow> (case path of [] \<Rightarrow> None | p # _ \<Rightarrow> find (\<lambda>br. cb_entryID br = p) brs) | _ \<Rightarrow> None)"

lemma branch_entry_size: "branch_entry c path = Some br \<Longrightarrow> size_list size (cb_steps br) < size c"
proof -
  assume "branch_entry c path = Some br"
  then obtain brs dflt where b: "c_control c = Branching brs dflt" "br \<in> set brs"
    by (auto simp: branch_entry_def find_Some_iff split: control.splits list.splits)
  then show ?thesis using branch_size [OF b(2)] by (cases c) auto
qed

function resume_walk :: "string \<Rightarrow> string list \<Rightarrow> ('w step list \<times> nat) list \<Rightarrow> ('w step list \<times> nat) list option" where
  "resume_walk sid path [] = None"
| "resume_walk sid path ((steps, i) # rest) = (if length steps \<le> i then resume_walk sid path (advance_top rest)
     else if c_ID (steps ! i) = sid then Some (advance_top ((steps, i) # rest))
     else case branch_entry (steps ! i) path of
       Some br \<Rightarrow> resume_walk sid (tl path) ((cb_steps br, 0) # (steps, i) # rest)
     | None \<Rightarrow> resume_walk sid path (advance_top ((steps, i) # rest)))"
  by pat_completeness auto
termination
proof (relation "measure (\<lambda>(sid, path, frames). weight frames)", goal_cases)
  case (2 sid path steps i rest)
  then show ?case using weight_pop [of steps i rest] by simp
next
  case (3 sid path steps i rest)
  then show ?case by (simp add: drop_size)
next
  case (4 sid path steps i rest br)
  then show ?case using branch_entry_size [of "steps ! i" path br] by (simp add: drop_size)
qed simp

definition resumeFrames :: "'w workflow \<Rightarrow> string list \<Rightarrow> string \<Rightarrow> ('w step list \<times> nat) list option" where
  "resumeFrames lw path sid = resume_walk sid path [(lw_steps lw, 0)]"

section \<open>Loading a suspension\<close>

definition better_snapshot :: "'w env \<Rightarrow> WorkflowSnapshotRecord
    \<Rightarrow> (WorkflowSnapshotRecord \<times> workflowSnapshotEnvelope \<times> suspendEnvelope) option \<Rightarrow> (WorkflowSnapshotRecord \<times> workflowSnapshotEnvelope \<times> suspendEnvelope) option" where
  "better_snapshot env cand best = (case en_Unmarshal env (raw_bytes (sn_State cand)) of None \<Rightarrow> best
   | Some e \<Rightarrow> (case sv_Suspend e of None \<Rightarrow> best
     | Some se \<Rightarrow> (case best of None \<Rightarrow> Some (cand, e, se)
       | Some (b, _) \<Rightarrow> if sn_ID b = [] \<or> sn_Sequence b < sn_Sequence cand then Some (cand, e, se) else best)))"

definition loadSuspendSnapshot :: "'w env \<Rightarrow> Context \<Rightarrow> memoryState \<Rightarrow> string \<Rightarrow> (workflowSnapshotEnvelope \<times> suspendEnvelope) result option" where
  "loadSuspendSnapshot env ctx st ident = map_option (\<lambda>r. case r of
       Inl e \<Rightarrow> Inl (Wrapf ''lebro: list snapshots for run %q: %w'' [ident] e)
     | Inr records \<Rightarrow> if records = [] then Inl (Errorf ''lebro: no snapshot for suspended run %q'' [ident])
         else (case fold (better_snapshot env) records None of
           Some (b, e, se) \<Rightarrow> if sn_ID b = [] then Inl (Errorf ''lebro: no suspend snapshot for run %q'' [ident]) else Inr (e, se)
         | None \<Rightarrow> Inl (Errorf ''lebro: no suspend snapshot for run %q'' [ident])))
     (collect_pages (listWorkflowSnapshots ctx st ident) 1000 [] [])"

fun first_some :: "'a option list \<Rightarrow> 'a option" where
  "first_some [] = None"
| "first_some (None # xs) = first_some xs"
| "first_some (Some v # xs) = Some v"

primrec findSuspendSchema :: "('s, 'w) compiledStep \<Rightarrow> string \<Rightarrow> schema option"
  and find_in_control :: "('s, 'w) control \<Rightarrow> string \<Rightarrow> schema option"
  and find_in_branch :: "('s, 'w) compiledBranch \<Rightarrow> string \<Rightarrow> schema option"
  and find_in_fan :: "('s, 'w) compiledFanOutBranch \<Rightarrow> string \<Rightarrow> schema option" where
  "findSuspendSchema (CompiledStep ident insch outsch susp retry ctl) = (\<lambda>sid. if ident = sid then susp else find_in_control ctl sid)"
| "find_in_control (Handle h) = (\<lambda>sid. None)"
| "find_in_control (Branching brs d) = (\<lambda>sid. first_some (map (\<lambda>f. f sid) (map find_in_branch brs)))"
| "find_in_control (FanningOut fbs n p) = (\<lambda>sid. None)"
| "find_in_control (Mapping m) = (\<lambda>sid. None)"
| "find_in_control (ForEaching steps n) = (\<lambda>sid. None)"
| "find_in_control (Looping steps n c mode) = (\<lambda>sid. None)"
| "find_in_control (Sleeping d) = (\<lambda>sid. None)"
| "find_in_control (SleepingUntil t) = (\<lambda>sid. None)"
| "find_in_branch (CompiledBranch name c steps e) = (\<lambda>sid. first_some (map (\<lambda>f. f sid) (map findSuspendSchema steps)))"
| "find_in_fan (CompiledFanOutBranch name f steps) = (\<lambda>sid. None)"

abbreviation find_schema :: "('s, 'w) compiledStep list \<Rightarrow> string \<Rightarrow> schema option" where
  "find_schema steps sid \<equiv> first_some (map (\<lambda>c. findSuspendSchema c sid) steps)"

definition suspendSchemaForStep :: "'w workflow \<Rightarrow> string \<Rightarrow> schema option" where
  "suspendSchemaForStep lw sid = find_schema (lw_steps lw) sid"

definition decodeMetadata :: "'w env \<Rightarrow> RawMessage \<Rightarrow> (string, string) gomap" where
  "decodeMetadata env raw = (if raw_bytes raw = [] then [] else case en_DecodeMetadata env (raw_bytes raw) of None \<Rightarrow> [] | Some m \<Rightarrow> m)"

text \<open>Decoded values are compared by \<^verbatim>\<open>reflect.DeepEqual\<close>: the decoder is taken to give equal values one form.\<close>

definition rawJSONEqual :: "'w env \<Rightarrow> RawMessage \<Rightarrow> RawMessage \<Rightarrow> bool" where
  "rawJSONEqual env a b = (if raw_bytes a = [] \<or> raw_bytes b = [] then length (raw_bytes a) = length (raw_bytes b)
     else case (en_Decode env (raw_bytes a), en_Decode env (raw_bytes b)) of (Inr av, Inr bv) \<Rightarrow> av = bv | _ \<Rightarrow> False)"

section \<open>Resume\<close>

definition ErrNotSuspended :: go_error where "ErrNotSuspended = Errorf ''lebro: workflow run is not suspended'' []"
definition ErrInvalidResumeInput :: go_error where "ErrInvalidResumeInput = Errorf ''lebro: workflow resume input invalid'' []"
definition ErrWorkflowResumeRequiresStore :: go_error where
  "ErrWorkflowResumeRequiresStore = Errorf ''lebro: workflow resume requires a bound store'' []"
definition ErrWorkflowSleepRequiresScheduler :: go_error where
  "ErrWorkflowSleepRequiresScheduler = Errorf ''lebro: workflow sleep resumes via scheduler'' []"
definition errWorkflowWakeupStale :: go_error where "errWorkflowWakeupStale = Errorf ''lebro: workflow wakeup is stale'' []"

record WorkflowResumeInput =
  ri_RunID :: string
  ri_Input :: RawMessage
  ri_Metadata :: "(string, string) gomap"

definition resumed_input :: "WorkflowRunRecord \<Rightarrow> (string, string) gomap \<Rightarrow> WorkflowRunInput" where
  "resumed_input run metadata = \<lparr>wi_Input = cloneRawMessage (wr_Input run), wi_ThreadID = wr_ThreadID run, wi_RunID = wr_ID run,
     wi_Namespace = wr_Namespace run, wi_OwnerID = wr_OwnerID run, wi_Metadata = metadata, wi_RetryOverrides = []\<rparr>"

definition resumed_anchor :: "WorkflowRunRecord \<Rightarrow> (string, string) gomap \<Rightarrow> runAnchor" where
  "resumed_anchor run metadata = \<lparr>an_runID = wr_ID run, an_input = resumed_input run metadata, an_metadata = metadata, an_startedAt = wr_StartedAt run\<rparr>"

definition resumed_config :: "workflowSnapshotEnvelope \<Rightarrow> ('w step list \<times> nat) list \<Rightarrow> RawMessage \<Rightarrow> 'w wstate \<Rightarrow> 'w exec_config" where
  "resumed_config e frames current s = \<lparr>x_frames = frames, x_path = sv_Path e, x_position = sv_Step e, x_current = current,
     x_outputs = map cloneRawMessage (sv_Outputs e), x_fanOut = sv_FanOut e, x_forEach = sv_ForEach e, x_lastStepID = [], x_lastPosition = 0, x_state = s\<rparr>"

definition resume_input_err :: "'w env \<Rightarrow> 'w workflow \<Rightarrow> workflowSnapshotEnvelope \<Rightarrow> suspendEnvelope \<Rightarrow> RawMessage \<Rightarrow> go_error option" where
  "resume_input_err env lw e se input = (if se_Wake se \<noteq> None then Some ErrWorkflowSleepRequiresScheduler
     else case suspendSchemaForStep lw (sv_StepID e) of
       None \<Rightarrow> Some (Errorf ''lebro: cannot resolve SuspendSchema for step %q to validate resume input'' [sv_StepID e])
     | Some sch \<Rightarrow> (case validateStepValue (Some sch) ''resume_input'' input of
         Some v \<Rightarrow> Some (Wrapf ''lebro: %w: %s'' [en_Text env v] ErrInvalidResumeInput)
       | None \<Rightarrow> chk (raw_bytes (se_Contract se) \<noteq> [] \<and> \<not> rawJSONEqual env input (se_Contract se))
           (Wrapf ''lebro: %w: resume input does not match the persisted contract'' [] ErrInvalidResumeInput)))"

definition suspended_run :: "'w workflow \<Rightarrow> Context \<Rightarrow> memoryState \<Rightarrow> string \<Rightarrow> WorkflowError + WorkflowRunRecord" where
  "suspended_run lw ctx st ident = (case getWorkflowRun ctx st ident of
     Inl e \<Rightarrow> Inl (err_at StepFailed 0 [] (Wrapf ''lebro: load suspended run %q: %w'' [ident] e))
   | Inr run \<Rightarrow> if wr_WorkflowID run \<noteq> lw_ID lw
         then Inl (err_at StepFailed 0 [] (Errorf ''lebro: run %q belongs to workflow %q, not %q'' [ident, wr_WorkflowID run, lw_ID lw]))
       else if wr_Status run \<noteq> RunStatusSuspended then Inl (err_at StepFailed 0 [] (Wrapf ''lebro: run %q %w: %s'' [ident, wr_Status run] ErrNotSuspended))
       else (case authorize_run lw ctx of Some e \<Rightarrow> Inl (err_at Unauthorized 0 [] e) | None \<Rightarrow> Inr run))"

text \<open>The checks of \<^verbatim>\<open>Resume\<close> and of \<^verbatim>\<open>resumeWake\<close> come to an error, or to the walk that is continued.\<close>

type_synonym 'w resumption = "runAnchor \<times> run_args \<times> 'w exec_config"

definition resumption :: "WorkflowRunRecord \<Rightarrow> (string, string) gomap \<Rightarrow> workflowSnapshotEnvelope \<Rightarrow> ('w step list \<times> nat) list
    \<Rightarrow> RawMessage \<Rightarrow> 'w wstate \<Rightarrow> 'w resumption" where
  "resumption run metadata e frames current s =
     (resumed_anchor run metadata, args_of (wr_ID run) (resumed_input run metadata), resumed_config e frames current s)"

definition resume_point :: "'w env \<Rightarrow> 'w workflow \<Rightarrow> WorkflowResumeInput \<Rightarrow> 'w wstate \<Rightarrow> (WorkflowError + 'w resumption) option" where
  "resume_point env lw input s = (let stop = (\<lambda>e. Some (Inl e)); ctx = en_Ctx env (ws_World s) in
     case ws_Store s of None \<Rightarrow> stop (err_at StepFailed 0 [] ErrWorkflowResumeRequiresStore)
     | Some store \<Rightarrow> (case cx_Err ctx of Some e \<Rightarrow> stop (err_at Cancelled 0 [] e)
     | None \<Rightarrow> (case suspended_run lw ctx (state store) (ri_RunID input) of Inl e \<Rightarrow> stop e
     | Inr run \<Rightarrow> (case loadSuspendSnapshot env ctx (state store) (ri_RunID input) of None \<Rightarrow> None
     | Some (Inl e) \<Rightarrow> stop (err_at StepFailed 0 [] e)
     | Some (Inr (e, se)) \<Rightarrow> let resumeInput = cloneRawMessage (ri_Input input) in
         (case resume_input_err env lw e se resumeInput of Some err \<Rightarrow> stop (err_at StepFailed 0 [] err)
         | None \<Rightarrow> (case resumeFrames lw (sv_Path e) (sv_StepID e) of
             None \<Rightarrow> stop (err_at StepFailed 0 [] (Errorf ''lebro: cannot resolve resume frame for suspended step %q'' [sv_StepID e]))
           | Some frames \<Rightarrow> Some (Inr (resumption run (fold (\<lambda>(k, v) m. mset_at k v m) (ri_Metadata input) (decodeMetadata env (wr_Metadata run)))
               e frames resumeInput s))))))))"

definition Resume :: "'w env \<Rightarrow> 'w workflow \<Rightarrow> WorkflowResumeInput \<Rightarrow> 'w wstate \<Rightarrow> 'w finished option" where
  "Resume env lw input s = (case resume_point env lw input s of None \<Rightarrow> None
     | Some (Inl e) \<Rightarrow> Some ((Some e, zero_result), s)
     | Some (Inr (an, ra, x)) \<Rightarrow> executeFrames env lw an ra x)"

definition wake_point :: "'w env \<Rightarrow> 'w workflow \<Rightarrow> string \<Rightarrow> string \<Rightarrow> 'w wstate \<Rightarrow> (go_error + 'w resumption) option" where
  "wake_point env lw ident token s = (let stop = (\<lambda>e. Some (Inl e)); ctx = en_Ctx env (ws_World s) in
     case ws_Store s of None \<Rightarrow> stop errWorkflowWakeupStale
     | Some store \<Rightarrow> (case cx_Err ctx of Some e \<Rightarrow> stop e
     | None \<Rightarrow> (case getWorkflowRun ctx (state store) ident of Inl e \<Rightarrow> stop e
     | Inr run \<Rightarrow> if wr_WorkflowID run \<noteq> lw_ID lw \<or> wr_Status run \<noteq> RunStatusSuspended then stop errWorkflowWakeupStale
         else (case loadSuspendSnapshot env ctx (state store) ident of None \<Rightarrow> None
         | Some (Inl e) \<Rightarrow> stop e
         | Some (Inr (e, se)) \<Rightarrow> if map_option wk_Token (se_Wake se) \<noteq> Some token then stop errWorkflowWakeupStale
             else (case authorize_run lw ctx of Some err \<Rightarrow> stop err
             | None \<Rightarrow> (case resumeFrames lw (sv_Path e) (sv_StepID e) of
                 None \<Rightarrow> stop (Errorf ''lebro: cannot resolve resume frame for sleep step %q'' [sv_StepID e])
               | Some frames \<Rightarrow> Some (Inr (resumption run (decodeMetadata env (wr_Metadata run)) e frames (cloneRawMessage (se_Payload se)) s))))))))"

definition resumeWake :: "'w env \<Rightarrow> 'w workflow \<Rightarrow> string \<Rightarrow> string \<Rightarrow> 'w wstate \<Rightarrow> (go_error + 'w finished) option" where
  "resumeWake env lw ident token s = (case wake_point env lw ident token s of None \<Rightarrow> None
     | Some (Inl e) \<Rightarrow> Some (Inl e)
     | Some (Inr (an, ra, x)) \<Rightarrow> map_option Inr (executeFrames env lw an ra x))"

section \<open>Where the walk is\<close>

lemma first_some_only: "\<forall>y \<in> set ys \<union> set zs. y = None \<Longrightarrow> first_some (ys @ v # zs) = v"
proof (induction ys)
  case Nil
  have "\<forall>y \<in> set zs. y = None \<Longrightarrow> first_some zs = None" by (induction zs) auto
  then show ?case using Nil by (cases v) auto
qed auto

lemma find_None:
  fixes c :: "('s, 'w) compiledStep" and ctl :: "('s, 'w) control" and br :: "('s, 'w) compiledBranch" and fb :: "('s, 'w) compiledFanOutBranch"
  shows "sid \<notin> set (ids_step c) \<Longrightarrow> findSuspendSchema c sid = None" "sid \<notin> set (ids_control ctl) \<Longrightarrow> find_in_control ctl sid = None"
    "sid \<notin> set (ids_branch br) \<Longrightarrow> find_in_branch br sid = None" "sid \<notin> set (ids_fan fb) \<Longrightarrow> find_in_fan fb sid = None"
proof (induction c and ctl and br and fb)
  case (Branching brs d)
  have "first_some xs = None" if "\<forall>y \<in> set xs. y = None" for xs :: "schema option list" using that by (induction xs) auto
  then show ?case using Branching by (auto simp: image_iff)
next
  case (CompiledBranch name c steps e)
  have "first_some xs = None" if "\<forall>y \<in> set xs. y = None" for xs :: "schema option list" using that by (induction xs) auto
  then show ?case using CompiledBranch by (auto simp: image_iff)
qed auto

lemma distinct_concat_only:
  "distinct (concat (map f (as @ b # bs))) \<Longrightarrow> v \<in> set (f b) \<Longrightarrow> a \<in> set as \<union> set bs \<Longrightarrow> v \<notin> set (f a)"
  by auto

lemma find_child:
  assumes "c \<in> set steps" "distinct (ids_steps steps)" "sid \<in> set (ids_step c)"
  shows "find_schema steps sid = findSuspendSchema c sid"
proof -
  obtain as bs where s: "steps = as @ c # bs" using split_list [OF assms(1)] by blast
  have "\<forall>y \<in> set (map (\<lambda>c. findSuspendSchema c sid) as) \<union> set (map (\<lambda>c. findSuspendSchema c sid) bs). y = None"
    using assms(2,3) by (auto simp: s intro!: find_None)
  from first_some_only [OF this] show ?thesis by (simp add: s)
qed

lemma find_in_branch_steps: "find_in_branch br sid = find_schema (cb_steps br) sid"
  by (cases br) (simp add: comp_def)

lemma ids_branch_steps: "ids_branch br = ids_steps (cb_steps br)"
  by (cases br) simp

lemma find_branch_child:
  assumes "c_control c = Branching brs d" "br \<in> set brs" "distinct (ids_step c)" "sid \<in> set (ids_steps (cb_steps br))"
  shows "findSuspendSchema c sid = find_schema (cb_steps br) sid"
proof -
  obtain as bs where s: "brs = as @ br # bs" using split_list [OF assms(2)] by blast
  obtain ident insch outsch susp retry where c: "c = CompiledStep ident insch outsch susp retry (Branching brs d)"
    using assms(1) by (cases c) auto
  have "\<forall>y \<in> set (map (\<lambda>b. find_in_branch b sid) as) \<union> set (map (\<lambda>b. find_in_branch b sid) bs). y = None"
    using assms(3,4) distinct_concat_only [of ids_branch as br bs sid] by (auto simp: s c ids_branch_steps [symmetric] intro!: find_None)
  from first_some_only [OF this] have "first_some (map (\<lambda>b. find_in_branch b sid) brs) = find_in_branch br sid" by (simp add: s)
  moreover have "ident \<noteq> sid" using assms(2-4) by (auto simp: c ids_branch_steps [symmetric])
  ultimately show ?thesis by (simp add: c comp_def find_in_branch_steps)
qed

lemma entry_unique:
  "distinct (concat (map ids_branch brs)) \<Longrightarrow> \<forall>b \<in> set (map wf_branch brs). b \<Longrightarrow> br \<in> set brs \<Longrightarrow> find (\<lambda>b. cb_entryID b = cb_entryID br) brs = Some br"
proof (induction brs)
  case (Cons b brs)
  have entry: "cb_entryID b' \<in> set (ids_branch b')" if "wf_branch b'" for b' :: "('a, 'b) compiledBranch"
  proof (cases b')
    case (CompiledBranch name c steps e)
    then show ?thesis using that by (cases steps; cases "hd steps") auto
  qed
  show ?case
  proof (cases "br = b")
    case False
    then have "cb_entryID b \<noteq> cb_entryID br" using Cons.prems entry [of b] entry [of br] by auto
    then show ?thesis using Cons False by auto
  qed simp
qed simp

text \<open>The IDs of the steps that are not yet reached, within each frame and in the frames below.\<close>

fun ahead :: "('w step list \<times> nat) list \<Rightarrow> string list" where
  "ahead [] = []"
| "ahead ((steps, i) # rest) = ids_steps (drop i steps) @ concat (map (\<lambda>(steps, i). ids_steps (drop (Suc i) steps)) rest)"

definition known :: "'w workflow \<Rightarrow> 'w step list \<Rightarrow> bool" where
  "known lw steps \<longleftrightarrow> wf_steps steps \<and> distinct (ids_steps steps) \<and> (\<forall>sid \<in> set (ids_steps steps). find_schema steps sid = suspendSchemaForStep lw sid)"

definition tracked :: "'w workflow \<Rightarrow> ('w step list \<times> nat) list \<Rightarrow> string list \<Rightarrow> int \<Rightarrow> bool" where
  "tracked lw frames path position \<longleftrightarrow> distinct (ahead frames) \<and> set (ahead frames) \<subseteq> set (ids_steps (lw_steps lw))
     \<and> set path \<subseteq> set (ids_steps (lw_steps lw))
     \<and> (\<forall>sid \<in> set (ahead frames). \<forall>p. resumeFrames lw (path @ p) sid = resume_walk sid p frames)
     \<and> (\<forall>f \<in> set frames. known lw (fst f)) \<and> 0 \<le> position \<and> position + length (ahead frames) \<le> length (ids_steps (lw_steps lw))"

lemma tracked_init: "distinct (ids_steps (lw_steps lw)) \<Longrightarrow> wf_steps (lw_steps lw) \<Longrightarrow> tracked lw [(lw_steps lw, 0)] [] 0"
  by (simp add: tracked_def known_def resumeFrames_def suspendSchemaForStep_def del: resume_walk.simps)

lemma ahead_pop: "length steps \<le> i \<Longrightarrow> ahead (advance_top rest) = ahead ((steps, i) # rest)"
  by (cases rest) auto

lemma ids_drop: "i < length steps \<Longrightarrow> ids_steps (drop i steps) = ids_step (steps ! i) @ ids_steps (drop (Suc i) steps)"
  by (subst Cons_nth_drop_Suc [symmetric]) simp_all

lemma c_ID_ids: "ids_step c = c_ID c # ids_control (c_control c)"
  by (cases c) simp

lemma known_advance: "(\<forall>f \<in> set (advance_top frames). known lw (fst f)) \<longleftrightarrow> (\<forall>f \<in> set frames. known lw (fst f))"
  by (cases frames) auto

text \<open>A move of the walk that the walk of \<^verbatim>\<open>resumeFrames\<close> makes too, for every step that is still ahead.\<close>

lemma tracked_move:
  assumes "tracked lw frames path position" "distinct (ahead frames')" "set (ahead frames') \<subseteq> set (ahead frames)"
    "set entry \<subseteq> set (ahead frames)" "\<And>sid p. sid \<in> set (ahead frames') \<Longrightarrow> resume_walk sid (entry @ p) frames = resume_walk sid p frames'"
    "\<forall>f \<in> set frames'. known lw (fst f)" "0 \<le> (n :: int)" "n + length (ahead frames') \<le> length (ahead frames)"
  shows "tracked lw frames' (path @ entry) (position + n)"
proof -
  have "resumeFrames lw ((path @ entry) @ p) sid = resume_walk sid p frames'" if "sid \<in> set (ahead frames')" for sid p
    using assms(1,3) assms(5) [OF that] that by (auto simp: tracked_def)
  then show ?thesis using assms unfolding tracked_def by auto
qed

lemma tracked_pop:
  assumes "tracked lw ((steps, i) # rest) path position" "length steps \<le> i"
  shows "tracked lw (advance_top rest) path position"
  using tracked_move [OF assms(1), of "advance_top rest" "[]" 0] assms
  by (simp add: ahead_pop [of steps i rest] known_advance del: ahead.simps) (simp add: tracked_def del: ahead.simps)

lemma tracked_advance:
  assumes "tracked lw ((steps, i) # rest) path position" "i < length steps" "\<forall>brs d. c_control (steps ! i) \<noteq> Branching brs d"
  shows "tracked lw (advance_top ((steps, i) # rest)) path (position + 1)"
proof -
  let ?old = "(steps, i) # rest" and ?new = "advance_top ((steps, i) # rest)"
  have d: "distinct (ahead ?old)" "\<forall>f \<in> set ?old. known lw (fst f)" using assms(1) by (simp_all add: tracked_def del: ahead.simps)
  have a: "ahead ?old = c_ID (steps ! i) # ids_control (c_control (steps ! i)) @ ahead ?new" using assms(2) by (simp add: ids_drop c_ID_ids)
  have "branch_entry (steps ! i) p = None" for p using assms(3) by (auto simp: branch_entry_def split: control.splits)
  then have m: "resume_walk sid ([] @ p) ?old = resume_walk sid p ?new" if "sid \<in> set (ahead ?new)" for sid p
    using that d(1) assms(2) unfolding a by auto
  have "tracked lw ?new (path @ []) (position + 1)"
  proof (rule tracked_move [OF assms(1)])
    show "\<forall>f \<in> set ?new. known lw (fst f)" unfolding known_advance by (rule d(2))
  qed (use d(1) m in \<open>auto simp: a simp del: ahead.simps advance_top.simps resume_walk.simps\<close>)
  then show ?thesis by simp
qed

lemma tracked_push:
  assumes "tracked lw ((steps, i) # rest) path position" "i < length steps" "c_control (steps ! i) = Branching brs d" "br \<in> set brs"
  shows "tracked lw ((cb_steps br, 0) # (steps, i) # rest) (path @ [cb_entryID br]) (position + 1)"
proof -
  let ?c = "steps ! i" and ?old = "(steps, i) # rest" and ?new = "(cb_steps br, 0) # (steps, i) # rest"
  have k: "known lw steps" and d: "distinct (ahead ?old)" "\<forall>f \<in> set ?old. known lw (fst f)"
    using assms(1) by (simp_all add: tracked_def del: ahead.simps)
  have c: "?c \<in> set steps" using assms(2) by simp
  have w: "wf_step ?c" and dc: "distinct (ids_step ?c)"
    using k c assms(2) d(1) by (auto simp: known_def ids_drop)
  have wb: "\<forall>b \<in> set (map wf_branch brs). b" using w assms(3) by (cases ?c) auto
  have db: "distinct (concat (map ids_branch brs))" using dc assms(3) by (simp add: c_ID_ids)
  obtain as bs where s: "brs = as @ br # bs" using split_list [OF assms(4)] by blast
  have a: "ahead ?old = c_ID ?c # concat (map ids_branch as) @ ids_steps (cb_steps br) @ concat (map ids_branch bs)
      @ ids_steps (drop (Suc i) steps) @ concat (map (\<lambda>(steps, i). ids_steps (drop (Suc i) steps)) rest)"
    using assms(2,3) by (simp add: ids_drop c_ID_ids s ids_branch_steps [symmetric])
  have n: "ahead ?new = ids_steps (cb_steps br) @ ids_steps (drop (Suc i) steps) @ concat (map (\<lambda>(steps, i). ids_steps (drop (Suc i) steps)) rest)"
    by simp
  have e: "cb_entryID br \<in> set (ids_steps (cb_steps br))" "wf_steps (cb_steps br)"
    using wb assms(4) by (cases br; cases "cb_steps br"; auto simp: c_ID_ids)+
  have "find_schema (cb_steps br) sid = suspendSchemaForStep lw sid" if "sid \<in> set (ids_steps (cb_steps br))" for sid
  proof -
    have "sid \<in> set (ids_step ?c)" using that assms(3,4) by (auto simp: c_ID_ids ids_branch_steps)
    then show ?thesis using find_branch_child [OF assms(3,4) dc that] find_child [OF c _ , of sid] k c by (auto simp: known_def)
  qed
  then have kb: "known lw (cb_steps br)" using e(2) d(1) unfolding a known_def by auto
  have "branch_entry ?c (cb_entryID br # p) = Some br" for p
    using entry_unique [OF db wb assms(4)] assms(3) by (simp add: branch_entry_def)
  then have m: "resume_walk sid ([cb_entryID br] @ p) ?old = resume_walk sid p ?new" if "sid \<in> set (ahead ?new)" for sid p
    using that d(1) assms(2) unfolding a n by auto
  show ?thesis
  proof (rule tracked_move [OF assms(1)])
    show "\<forall>f \<in> set ?new. known lw (fst f)" using d(2) kb by simp
  qed (use d(1) e(1) m in \<open>auto simp: a n simp del: ahead.simps resume_walk.simps\<close>)
qed

lemma exec_step_tracked:
  assumes "exec_step env lw an ra x = Inl y" "tracked lw (x_frames x) (x_path x) (x_position x)"
  shows "tracked lw (x_frames y) (x_path y) (x_position y)"
  using assms(1)
proof (cases rule: exec_step_Inl)
  case (pop steps i rest)
  then show ?thesis using tracked_pop [of lw steps i rest] assms(2) by simp
next
  case (run steps i rest)
  from exec_control_Inl [OF run(3)] show ?thesis
    using tracked_advance [of lw steps i rest] tracked_push [of lw steps i rest] run(1,2) assms(2) selectBranch_in by fastforce
qed

section \<open>The life of a run\<close>

lemma terminal_sequence_mono:
  "0 \<le> p \<Longrightarrow> p < q \<Longrightarrow> q < 2147483648 \<Longrightarrow> workflowTerminalSnapshotSequence p < workflowTerminalSnapshotSequence q"
  by (simp add: workflowTerminalSnapshotSequence_def wrap64_def)

text \<open>Documented behaviour of \<^verbatim>\<open>encoding/json\<close> on the envelope of a suspension: numbers and valid text are kept, and a raw
  message is kept as a value.\<close>

definition same_json :: "'w env \<Rightarrow> RawMessage \<Rightarrow> RawMessage \<Rightarrow> bool" where
  "same_json env v v' \<longleftrightarrow> (raw_bytes v = [] \<longleftrightarrow> raw_bytes v' = []) \<and> en_Decode env (raw_bytes v') = en_Decode env (raw_bytes v)"

definition keeps :: "'w env \<Rightarrow> workflowSnapshotEnvelope \<Rightarrow> suspendEnvelope \<Rightarrow> workflowSnapshotEnvelope \<Rightarrow> suspendEnvelope \<Rightarrow> bool" where
  "keeps env e se e' se' \<longleftrightarrow> sv_Step e' = sv_Step e \<and> sv_StepID e' = sv_StepID e \<and> sv_Path e' = sv_Path e
     \<and> list_all2 (\<lambda>v v'. raw_bytes v \<noteq> [] \<longrightarrow> same_json env v v') (sv_Outputs e) (sv_Outputs e')
     \<and> same_json env (se_Contract se) (se_Contract se') \<and> same_json env (se_Payload se) (se_Payload se')
     \<and> (se_Wake se' = None \<longleftrightarrow> se_Wake se = None)
     \<and> (\<forall>w. se_Wake se = Some w \<and> utf8_valid (wk_Token w) \<longrightarrow> map_option wk_Token (se_Wake se') = Some (wk_Token w))"

definition snapshot_codec :: "'w env \<Rightarrow> bool" where
  "snapshot_codec env \<longleftrightarrow> (\<forall>e raw se. en_Marshal env e = Inr raw \<longrightarrow> sv_Suspend e = Some se \<longrightarrow> (\<forall>t \<in> set (sv_StepID e # sv_Path e). utf8_valid t) \<longrightarrow>
     (\<exists>e' se'. en_Unmarshal env raw = Some e' \<and> sv_Suspend e' = Some se' \<and> keeps env e se e' se'))"

text \<open>The setting: an accepted workflow with fewer than \<open>2\<^sup>3\<^sup>1\<close> steps and valid text as step IDs, and the codec above.\<close>

definition durable :: "'w env \<Rightarrow> 'w workflow \<Rightarrow> bool" where
  "durable env lw \<longleftrightarrow> (\<exists>ident vers steps compiler policy. NewLinearWorkflow ident vers steps compiler policy = Inr lw)
     \<and> length (ids_steps (lw_steps lw)) < 2147483648 \<and> (\<forall>t \<in> set (ids_steps (lw_steps lw)). utf8_valid t) \<and> json_nonempty env \<and> snapshot_codec env"

text \<open>The records of a run stay as they are while it is suspended; a slice is no longer than the largest \<^verbatim>\<open>int\<close>.\<close>

definition undisturbed :: "runAnchor \<Rightarrow> 'w wstate \<Rightarrow> 'w wstate \<Rightarrow> bool" where
  "undisturbed an s s' \<longleftrightarrow> stored_run an s' = stored_run an s \<and> stored_snapshots an s' = stored_snapshots an s
     \<and> int (length (stored_snapshots an s)) \<le> max_int64"

text \<open>The configurations of one run: from its start, through its steps, and through any number of suspensions.\<close>

inductive live :: "'w env \<Rightarrow> 'w workflow \<Rightarrow> string \<Rightarrow> runAnchor \<Rightarrow> run_args \<Rightarrow> 'w exec_config \<Rightarrow> bool"
  for env lw rid where
  live_start: "start_run env lw rid input s = (an, Inl x) \<Longrightarrow> stored_snapshots an s = [] \<Longrightarrow> live env lw rid an (args_of rid input) x"
| live_step: "live env lw rid an ra x \<Longrightarrow> exec_step env lw an ra x = Inl y \<Longrightarrow> live env lw rid an ra y"
| live_resume: "live env lw rid an ra x \<Longrightarrow> exec_step env lw an ra x = Inr ((None, r), s) \<Longrightarrow> undisturbed an s s' \<Longrightarrow>
    ri_RunID input = rid \<Longrightarrow> resume_point env lw input s' = Some (Inr (an', ra', x')) \<Longrightarrow> live env lw rid an' ra' x'"
| live_wake: "live env lw rid an ra x \<Longrightarrow> exec_step env lw an ra x = Inr ((None, r), s) \<Longrightarrow> undisturbed an s s' \<Longrightarrow>
    wake_point env lw rid token s' = Some (Inr (an', ra', x')) \<Longrightarrow> live env lw rid an' ra' x'"

definition live_ok :: "'w workflow \<Rightarrow> string \<Rightarrow> runAnchor \<Rightarrow> run_args \<Rightarrow> 'w exec_config \<Rightarrow> bool" where
  "live_ok lw rid an ra x \<longleftrightarrow> an_runID an = rid \<and> ra_runID ra = rid \<and> tracked lw (x_frames x) (x_path x) (x_position x)
     \<and> seq_below an (workflowTerminalSnapshotSequence (x_position x)) (x_state x)"

lemma below_up: "seq_below an m s \<Longrightarrow> m \<le> n \<Longrightarrow> seq_below an n s"
  by (auto simp: seq_below_def)

lemma fold_best_stays:
  "sn_ID sn \<noteq> [] \<Longrightarrow> \<forall>y \<in> set ys. sn_Sequence y \<le> sn_Sequence sn \<Longrightarrow> fold (better_snapshot env) ys (Some (sn, e, se)) = Some (sn, e, se)"
  by (induction ys) (auto simp: better_snapshot_def split: option.splits)

lemma fold_best:
  assumes "en_Unmarshal env (raw_bytes (sn_State sn)) = Some e" "sv_Suspend e = Some se" "sn_ID sn \<noteq> []"
  shows "sn \<in> set ys \<Longrightarrow> \<forall>y \<in> set ys. y = sn \<or> sn_Sequence y < sn_Sequence sn \<Longrightarrow> \<forall>b r. best = Some (b, r) \<longrightarrow> sn_Sequence b < sn_Sequence sn \<Longrightarrow>
    fold (better_snapshot env) ys best = Some (sn, e, se)"
proof (induction ys arbitrary: best)
  case (Cons y ys)
  show ?case
  proof (cases "y = sn")
    case True
    have "better_snapshot env sn best = Some (sn, e, se)" using Cons.prems(3) assms by (auto simp: better_snapshot_def split: option.splits)
    moreover have "\<forall>y \<in> set ys. sn_Sequence y \<le> sn_Sequence sn" using Cons.prems(2) by auto
    ultimately show ?thesis using fold_best_stays [OF assms(3)] True by simp
  next
    case False
    then have "\<forall>b r. better_snapshot env y best = Some (b, r) \<longrightarrow> sn_Sequence b < sn_Sequence sn"
      using Cons.prems(2,3) by (auto simp: better_snapshot_def split: option.splits if_splits)
    then show ?thesis using Cons False by simp
  qed
qed simp

text \<open>The suspension is the snapshot that is loaded.\<close>

lemma suspension_loaded:
  assumes d: "durable env lw" and ok: "live_ok lw rid an ra x" and f: "x_frames x = (steps, i) # rest" "i < length steps"
    and su: "suspension env lw an x (c_ID (steps ! i)) se s" and un: "undisturbed an s s'"
    and st: "ws_Store s' = Some store" "stored_run an s' = Some v" and ctx: "cx_Err ctx = None"
  shows "\<exists>e' se'. loadSuspendSnapshot env ctx (state store) rid = Some (Inr (e', se')) \<and> keeps env (suspend_envelope x (c_ID (steps ! i)) se) se e' se'"
    and "getWorkflowRun ctx (state store) rid = Inr (cloneWorkflowRunRecord v) \<and> wr_ID v = rid \<and> wr_WorkflowID v = lw_ID lw \<and> wr_Status v = RunStatusSuspended"
    and "seq_below an (workflowTerminalSnapshotSequence (x_position x + 1)) s'"
proof -
  let ?e = "suspend_envelope x (c_ID (steps ! i)) se" and ?q = "workflowTerminalSnapshotSequence (x_position x + 1)"
  obtain w where b: "boundary env an ?q ?e (boundary_record env lw an RunStatusSuspended (x_path x) (x_position x + 1) (c_ID (steps ! i)) (map cloneJSON (x_outputs x)))
      ((x_state x)\<lparr>ws_World := w\<rparr>) s"
    using su by (auto simp: suspension_def)
  have "ws_Store s \<noteq> None" using un st(2) by (auto simp: undisturbed_def stored_run_def split: option.splits)
  then have "ws_Store (x_state x) \<noteq> None" using boundary_store [OF b] by simp
  then obtain now raw sn where n: "en_Marshal env ?e = Inr raw" "sn_ID sn \<noteq> []" "raw_bytes (sn_State sn) = raw" "sn_Sequence sn = ?q"
      "set (stored_snapshots an s) = insert sn (cloneWorkflowSnapshotRecord ` set (stored_snapshots an (x_state x)))"
      "stored_run an s = Some (cloneWorkflowRunRecord (boundary_record env lw an RunStatusSuspended (x_path x) (x_position x + 1) (c_ID (steps ! i)) (map cloneJSON (x_outputs x)) now))"
    using b by (auto simp: boundary_def)
  have rid: "an_runID an = rid" and tr: "tracked lw (x_frames x) (x_path x) (x_position x)"
      and bel: "seq_below an (workflowTerminalSnapshotSequence (x_position x)) (x_state x)"
    using ok by (simp_all add: live_ok_def)
  have v: "v = cloneWorkflowRunRecord (boundary_record env lw an RunStatusSuspended (x_path x) (x_position x + 1) (c_ID (steps ! i)) (map cloneJSON (x_outputs x)) now)"
    using n(6) un st(2) by (simp add: undisturbed_def)
  have run: "mget (runs (state store)) rid = Some v" using st rid by (simp add: stored_run_def)
  then show "getWorkflowRun ctx (state store) rid = Inr (cloneWorkflowRunRecord v) \<and> wr_ID v = rid \<and> wr_WorkflowID v = lw_ID lw \<and> wr_Status v = RunStatusSuspended"
    using v ctx rid by (simp add: getWorkflowRun_def) (simp add: boundary_record_def baseRunRecord_def)
  have "set (ids_step (steps ! i)) \<subseteq> set (ahead (x_frames x))" "c_ID (steps ! i) \<in> set (ids_step (steps ! i))"
    using f by (auto simp: ids_drop) (simp add: c_ID_ids)
  then have ids: "set (c_ID (steps ! i) # x_path x) \<subseteq> set (ids_steps (lw_steps lw))" and pos: "0 \<le> x_position x" "x_position x + 1 < 2147483648"
    using tr d f by (auto simp: tracked_def durable_def ids_drop c_ID_ids)
  have "?q > workflowTerminalSnapshotSequence (x_position x)" using terminal_sequence_mono pos by simp
  then have lt: "\<forall>y \<in> set (stored_snapshots an s). y = sn \<or> sn_Sequence y < sn_Sequence sn" and "seq_below an ?q s"
    using n(4,5) bel by (fastforce simp: seq_below_def)+
  then show "seq_below an ?q s'" using un by (simp add: seq_below_def undisturbed_def)
  have sv: "sv_Suspend ?e = Some se" by (simp add: suspend_envelope_def)
  have codec: "snapshot_codec env" and "\<forall>t \<in> set (ids_steps (lw_steps lw)). utf8_valid t" using d by (simp_all add: durable_def)
  then have ut: "\<forall>t \<in> set (sv_StepID ?e # sv_Path ?e). utf8_valid t" using ids by (auto simp add: suspend_envelope_def simp del: set_concat)
  obtain e' se' where e': "en_Unmarshal env raw = Some e'" "sv_Suspend e' = Some se'" "keeps env ?e se e' se'"
    using codec n(1) sv ut unfolding snapshot_codec_def by blast
  let ?records = "map cloneWorkflowSnapshotRecord (stored_snapshots an s)"
  have l: "mslice (snapshots (state store)) rid = stored_snapshots an s" using un st(1) rid by (simp add: undisturbed_def stored_snapshots_def)
  have "listWorkflowSnapshots ctx (state store) rid = (\<lambda>p. paginate (stored_snapshots an s) p cloneWorkflowSnapshotRecord)"
    using ctx run l by (auto simp: listWorkflowSnapshots_def)
  then have "collect_pages (listWorkflowSnapshots ctx (state store) rid) 1000 [] [] = Some (Inr ?records)"
    using un by (simp add: paged.collect_all undisturbed_def)
  moreover have "fold (better_snapshot env) ?records None = Some (cloneWorkflowSnapshotRecord sn, e', se')"
    using lt n(2,3,5) e'(1,2) by (intro fold_best) (auto simp: cloneWorkflowSnapshotRecord_def)
  moreover have "?records \<noteq> []" using n(5) by auto
  ultimately show "\<exists>e' se'. loadSuspendSnapshot env ctx (state store) rid = Some (Inr (e', se')) \<and> keeps env ?e se e' se'"
    using e'(3) n(2) by (auto simp: loadSuspendSnapshot_def)
qed

lemma done_not_branching:
  assumes "exec_step env lw an ra x = Inr ((None, r), s)" "x_frames x = (steps, i) # rest" "i < length steps"
  shows "\<forall>brs d. c_control (steps ! i) \<noteq> Branching brs d"
  using assms
  by (auto simp: exec_step_def exec_control_def exec_branching_def stop_failed_def fail_def cancelled_def Let_def split: option.splits sum.splits)

lemma walk_here: "i < length steps \<Longrightarrow> resume_walk (c_ID (steps ! i)) p ((steps, i) # rest) = Some (advance_top ((steps, i) # rest))"
  by simp

lemma frames_here:
  assumes "tracked lw ((steps, i) # rest) path position" "i < length steps"
  shows "resumeFrames lw path (c_ID (steps ! i)) = Some (advance_top ((steps, i) # rest))"
proof -
  have "c_ID (steps ! i) \<in> set (ahead ((steps, i) # rest))" using assms(2) by (simp add: ids_drop c_ID_ids)
  then have "resumeFrames lw (path @ []) (c_ID (steps ! i)) = resume_walk (c_ID (steps ! i)) [] ((steps, i) # rest)"
    using assms(1) unfolding tracked_def by blast
  then show ?thesis unfolding walk_here [OF assms(2)] by simp
qed

lemma resumed_ok:
  assumes d: "durable env lw" and ok: "live_ok lw rid an ra x" and e: "exec_step env lw an ra x = Inr ((None, r), s)" and un: "undisturbed an s s'"
    and st: "ws_Store s' = Some store" "cx_Err ctx = None" "getWorkflowRun ctx (state store) rid = Inr run" "wr_Status run = RunStatusSuspended"
    and l: "loadSuspendSnapshot env ctx (state store) rid = Some (Inr (e', se'))"
  shows "x_frames x \<noteq> [] \<and> resumeFrames lw (sv_Path e') (sv_StepID e') = Some (advance_top (x_frames x)) \<and> sv_Path e' = x_path x
    \<and> sv_Step e' = x_position x + 1 \<and> list_all2 (\<lambda>v v'. raw_bytes v \<noteq> [] \<longrightarrow> same_json env v v') (map cloneJSON (x_outputs x)) (sv_Outputs e')
    \<and> live_ok lw rid (resumed_anchor run metadata) (args_of (wr_ID run) input) (resumed_config e' (advance_top (x_frames x)) current s')"
proof -
  have rid: "an_runID an = rid" and tr: "tracked lw (x_frames x) (x_path x) (x_position x)" using ok by (simp_all add: live_ok_def)
  obtain v where v: "stored_run an s' = Some v" "run = cloneWorkflowRunRecord v"
    using st rid by (auto simp: getWorkflowRun_def stored_run_def split: option.splits)
  from e show ?thesis
  proof (cases rule: exec_step_done)
    case finished
    have "stored_run an s = Some v" using un v(1) by (simp add: undisturbed_def)
    then have "ws_Store (x_state x) \<noteq> None"
      using finished(3) by (auto simp: stored_run_def persistTerminal_def split: option.splits)
    from terminal_stored [OF finished(3) this] have "wr_Status v = RunStatusSucceeded"
      using \<open>stored_run an s = Some v\<close> by (auto simp: terminal_record_def)
    then show ?thesis using st(4) v(2) by (simp add: RunStatusSucceeded_def RunStatusSuspended_def)
  next
    case (suspended steps i rest su se each)
    note sl = suspension_loaded [OF d ok suspended(1,2,6) un st(1) v(1) st(2)]
    have k: "keeps env (suspend_envelope x (c_ID (steps ! i)) se) se e' se'" using sl(1) l by auto
    have t': "tracked lw (advance_top (x_frames x)) (x_path x) (x_position x + 1)"
      using tracked_advance [OF tr [unfolded suspended(1)] suspended(2) done_not_branching [OF e suspended(1,2)]] suspended(1) by simp
    have "wr_ID run = rid" using sl(2) v(2) by simp
    moreover have "stored_snapshots (resumed_anchor run metadata) s' = stored_snapshots an s'"
      using rid \<open>wr_ID run = rid\<close> by (simp add: stored_snapshots_def resumed_anchor_def split: option.split)
    ultimately show ?thesis
      using k t' sl(3) frames_here [OF tr [unfolded suspended(1)] suspended(2)] suspended(1)
      by (simp add: keeps_def suspend_envelope_def live_ok_def resumed_config_def resumed_anchor_def args_of_def seq_below_def)
  qed
qed

lemma resume_point_Inr:
  assumes "resume_point env lw input s = Some (Inr (an, ra, x))"
  obtains store run e se frames metadata where "ws_Store s = Some store" "cx_Err (en_Ctx env (ws_World s)) = None"
    "getWorkflowRun (en_Ctx env (ws_World s)) (state store) (ri_RunID input) = Inr run" "wr_Status run = RunStatusSuspended"
    "loadSuspendSnapshot env (en_Ctx env (ws_World s)) (state store) (ri_RunID input) = Some (Inr (e, se))"
    "resumeFrames lw (sv_Path e) (sv_StepID e) = Some frames" "resumption run metadata e frames (cloneJSON (ri_Input input)) s = (an, ra, x)"
  using assms
  by (auto simp: resume_point_def suspended_run_def Let_def split: option.splits sum.splits if_splits)

lemma wake_point_Inr:
  assumes "wake_point env lw rid token s = Some (Inr (an, ra, x))"
  obtains store run e se frames metadata where "ws_Store s = Some store" "cx_Err (en_Ctx env (ws_World s)) = None"
    "getWorkflowRun (en_Ctx env (ws_World s)) (state store) rid = Inr run" "wr_Status run = RunStatusSuspended"
    "loadSuspendSnapshot env (en_Ctx env (ws_World s)) (state store) rid = Some (Inr (e, se))"
    "resumeFrames lw (sv_Path e) (sv_StepID e) = Some frames" "resumption run metadata e frames (cloneJSON (se_Payload se)) s = (an, ra, x)"
  using assms
  by (auto simp: wake_point_def Let_def split: option.splits sum.splits if_splits)

lemma exec_step_below:
  assumes "exec_step env lw an ra x = Inl y" "json_nonempty env" "length (ids_steps (lw_steps lw)) < 2147483648" "live_ok lw rid an ra x"
  shows "live_ok lw rid an ra y"
proof -
  have tr: "tracked lw (x_frames x) (x_path x) (x_position x)" and bel: "seq_below an (workflowTerminalSnapshotSequence (x_position x)) (x_state x)"
    and ids: "an_runID an = rid" "ra_runID ra = rid" using assms(4) by (simp_all add: live_ok_def)
  note ty = exec_step_tracked [OF assms(1) tr]
  have "seq_below an (workflowTerminalSnapshotSequence (x_position y)) (x_state y)"
    using assms(1)
  proof (cases rule: exec_step_Inl)
    case pop
    then show ?thesis using bel by simp
  next
    case (run steps i rest)
    let ?p = "x_position x + 1"
    have py: "x_position y = ?p" using exec_control_Inl [OF run(3)] by simp
    have "workflowTerminalSnapshotSequence (x_position x) \<le> workflowTerminalSnapshotSequence ?p"
      using terminal_sequence_mono [of "x_position x" ?p] tr ty py assms(3) by (auto simp: tracked_def)
    with bel have bel': "seq_below an (workflowTerminalSnapshotSequence ?p) (x_state x)" by (rule below_up)
    show ?thesis
    proof (cases "\<exists>brs d. c_control (steps ! i) = Branching brs d")
      case True
      then show ?thesis using run(3) bel' py by (auto simp: exec_control_def exec_branching_def split: option.splits sum.splits)
    next
      case False
      then show ?thesis using exec_control_written [OF run(3) _ assms(2)] bel' py
        by (auto simp: step_written_def intro: boundary_below)
    qed
  qed
  then show ?thesis using ty ids by (simp add: live_ok_def)
qed

lemma live_invariant:
  assumes "live env lw rid an ra x" "durable env lw"
  shows "live_ok lw rid an ra x"
  using assms(1)
proof (induction rule: live.induct)
  case (live_start input s an x)
  obtain ident vers steps compiler policy where "NewLinearWorkflow ident vers steps compiler policy = Inr lw"
    using assms(2) by (auto simp: durable_def)
  from accepted_tree [OF this] have "tracked lw [(lw_steps lw, 0)] [] 0" by (intro tracked_init) auto
  then show ?case using start_run_inv [OF live_start(1)] start_run_anchor [OF live_start(1)] live_start(2)
    by (simp add: live_ok_def seq_below_def args_of_def)
next
  case (live_step an ra x y)
  then show ?case using exec_step_below assms(2) by (auto simp: durable_def)
next
  case (live_resume an ra x r s s' input an' ra' x')
  from live_resume(5) show ?case
  proof (cases rule: resume_point_Inr)
    case (1 store run e se frames metadata)
    note p = 1 [unfolded live_resume(4)]
    from resumed_ok [OF assms(2) live_resume.IH live_resume(2,3) p(1-5)] p(6,7)
    show ?thesis by (auto simp: resumption_def)
  qed
next
  case (live_wake an ra x r s s' token an' ra' x')
  from live_wake(4) show ?case
  proof (cases rule: wake_point_Inr)
    case (1 store run e se frames metadata)
    from resumed_ok [OF assms(2) live_wake.IH live_wake(2,3) 1(1-5)] 1(6,7)
    show ?thesis by (auto simp: resumption_def)
  qed
qed

section \<open>Resumption\<close>

lemma same_json_clone [simp]: "same_json env (cloneJSON v) = same_json env v" "same_json env v (cloneJSON v') = same_json env v v'"
  by (auto simp: same_json_def fun_eq_iff)

lemma rawJSONEqual_same: "rawJSONEqual env v c \<Longrightarrow> same_json env c c' \<Longrightarrow> rawJSONEqual env (cloneJSON v) c'"
  by (auto simp: rawJSONEqual_def same_json_def split: sum.splits if_splits)

lemma schema_here:
  assumes "tracked lw ((steps, i) # rest) path position" "i < length steps"
  shows "suspendSchemaForStep lw (c_ID (steps ! i)) = c_suspendSchema (steps ! i)"
proof -
  have k: "known lw steps" using assms(1) by (simp add: tracked_def)
  have c: "steps ! i \<in> set steps" using assms(2) by simp
  have "findSuspendSchema (steps ! i) (c_ID (steps ! i)) = c_suspendSchema (steps ! i)" by (cases "steps ! i") simp
  then show ?thesis using find_child [OF c, of "c_ID (steps ! i)"] k c by (auto simp: known_def c_ID_ids)
qed

text \<open>What a resumption takes over from the configuration \<open>x\<close> in which the run was suspended.\<close>

definition continues :: "'w env \<Rightarrow> 'w exec_config \<Rightarrow> 'w exec_config \<Rightarrow> bool" where
  "continues env x x' \<longleftrightarrow> x_frames x' = advance_top (x_frames x) \<and> x_path x' = x_path x \<and> x_position x' = x_position x + 1
     \<and> list_all2 (\<lambda>v v'. raw_bytes v \<noteq> [] \<longrightarrow> same_json env v v') (x_outputs x) (x_outputs x')"

lemma suspended_stored:
  assumes "suspension env lw an x ident se s" "ws_Store s \<noteq> None" "undisturbed an s s'"
  obtains store v where "ws_Store s' = Some store" "stored_run an s' = Some v"
  using assms by (auto simp: suspension_def boundary_def undisturbed_def stored_run_def split: option.splits if_splits)

lemma continued:
  assumes "list_all2 (\<lambda>v v'. raw_bytes v \<noteq> [] \<longrightarrow> same_json env v v') (map cloneJSON (x_outputs x)) (sv_Outputs e)"
    "sv_Path e = x_path x" "sv_Step e = x_position x + 1"
  shows "continues env x (resumed_config e (advance_top (x_frames x)) current s)"
  using assms by (simp add: continues_def resumed_config_def list.rel_map)

text \<open>C0 resume_continues: a run that a handler suspended, at whatever depth of its branches and after whatever earlier
  suspensions, is continued by \<^verbatim>\<open>Resume\<close> in another process from the store alone. If the context is live, the policy allows
  the run, and the input satisfies the schema of the step and equals the published contract, the walk goes on from the step
  after the one that suspended it, in the same branch, with the same path, position and outputs, on the resume input, and
  no completed step is repeated.\<close>

theorem resume_continues:
  assumes "durable env lw" "live env lw rid an ra x" "exec_step env lw an ra x = Inr ((None, r), s)" "rr_Suspend r = Some su"
    "x_frames x = (steps, i) # rest" "\<not> sleeps (steps ! i)" "ws_Store s \<noteq> None" "undisturbed an s s'"
    "cx_Err (en_Ctx env (ws_World s')) = None" "authorize_run lw (en_Ctx env (ws_World s')) = None" "ri_RunID input = rid"
    "c_suspendSchema (steps ! i) = Some sch" "sch (cloneJSON (ri_Input input)) = None"
    "raw_bytes (su_Contract su) = [] \<or> rawJSONEqual env (ri_Input input) (su_Contract su)"
  shows "\<exists>an' ra' x'. Resume env lw input s' = executeFrames env lw an' ra' x' \<and> live env lw rid an' ra' x' \<and> continues env x x'
    \<and> x_current x' = cloneJSON (ri_Input input)"
proof -
  let ?ctx = "en_Ctx env (ws_World s')" and ?in = "cloneJSON (ri_Input input)"
  have ok: "live_ok lw rid an ra x" by (rule live_invariant [OF assms(2,1)])
  then have tr: "tracked lw ((steps, i) # rest) (x_path x) (x_position x)" using assms(5) by (simp add: live_ok_def)
  from assms(3) obtain se where i: "i < length steps" and su: "suspension env lw an x (c_ID (steps ! i)) se s" "se_Wake se = None" "se_Contract se = su_Contract su"
  proof (cases rule: exec_step_done)
    case (suspended steps' i' rest' su' se each)
    then show ?thesis using that assms(4-6) by (auto simp: run_result_def)
  qed (use assms(5) in simp)
  obtain store v where st: "ws_Store s' = Some store" "stored_run an s' = Some v" by (rule suspended_stored [OF su(1) assms(7,8)])
  note sl = suspension_loaded [OF assms(1) ok assms(5) i su(1) assms(8) st assms(9)]
  obtain e' se' where l: "loadSuspendSnapshot env ?ctx (state store) rid = Some (Inr (e', se'))"
      and k: "keeps env (suspend_envelope x (c_ID (steps ! i)) se) se e' se'"
    using sl(1) by blast
  let ?run = "cloneWorkflowRunRecord v"
  let ?md = "fold (\<lambda>(k, v) m. mset_at k v m) (ri_Metadata input) (decodeMetadata env (wr_Metadata ?run))"
  have run: "getWorkflowRun ?ctx (state store) rid = Inr ?run" "wr_Status ?run = RunStatusSuspended" "wr_WorkflowID ?run = lw_ID lw"
    using sl(2) by simp_all
  note ro = resumed_ok [OF assms(1) ok assms(3,8) st(1) assms(9) run(1,2) l]
  have fr: "resumeFrames lw (sv_Path e') (sv_StepID e') = Some (advance_top (x_frames x))" using ro by blast
  have k': "sv_StepID e' = c_ID (steps ! i)" "se_Wake se' = None" "same_json env (su_Contract su) (se_Contract se')"
    using k su(2,3) by (simp_all add: keeps_def suspend_envelope_def)
  have "chk (raw_bytes (se_Contract se') \<noteq> [] \<and> \<not> rawJSONEqual env ?in (se_Contract se')) err = None" for err
    using assms(14) rawJSONEqual_same [OF _ k'(3)] k'(3) by (auto simp: same_json_def)
  then have ri: "resume_input_err env lw e' se' ?in = None"
    using k' schema_here [OF tr i] assms(12,13) by (simp add: resume_input_err_def validateStepValue_def)
  have rp: "resume_point env lw input s' = Some (Inr (resumption ?run ?md e' (advance_top (x_frames x)) ?in s'))"
    using st(1) assms(9-11) run l ri fr by (simp add: resume_point_def suspended_run_def Let_def)
  let ?x' = "resumed_config e' (advance_top (x_frames x)) ?in s'"
  have "continues env x ?x'" using ro by (blast intro: continued)
  moreover have "x_current ?x' = ?in" by (simp add: resumed_config_def)
  ultimately show ?thesis
    using rp live_resume [OF assms(2,3,8,11) rp [unfolded resumption_def]] by (fastforce simp: Resume_def resumption_def)
qed

text \<open>C0 wake_continues: a run that sleeps is continued by \<^verbatim>\<open>resumeWake\<close> with the token of its wakeup, from the step after the
  sleep, on the value that the sleep step got; the token of any other wakeup is stale and changes nothing.\<close>

theorem wake_continues:
  assumes "durable env lw" "live env lw rid an ra x" "exec_step env lw an ra x = Inr ((None, r), s)"
    "x_frames x = (steps, i) # rest" "sleeps (steps ! i)" "undisturbed an s s'" "ws_Store s \<noteq> None"
    "cx_Err (en_Ctx env (ws_World s')) = None" "authorize_run lw (en_Ctx env (ws_World s')) = None"
    "utf8_valid (rid @ ''-wake-'' @ itoa (x_position x + 1))"
  shows "if token = rid @ ''-wake-'' @ itoa (x_position x + 1)
    then \<exists>an' ra' x'. resumeWake env lw rid token s' = map_option Inr (executeFrames env lw an' ra' x') \<and> live env lw rid an' ra' x' \<and> continues env x x'
      \<and> same_json env (x_current x) (x_current x')
    else resumeWake env lw rid token s' = Some (Inl errWorkflowWakeupStale)"
proof -
  let ?ctx = "en_Ctx env (ws_World s')" and ?token = "rid @ ''-wake-'' @ itoa (x_position x + 1)"
  have ok: "live_ok lw rid an ra x" by (rule live_invariant [OF assms(2,1)])
  from assms(3) obtain se where i: "i < length steps" and su: "suspension env lw an x (c_ID (steps ! i)) se s"
      "se_Payload se = cloneJSON (x_current x)" "map_option wk_Token (se_Wake se) = Some ?token"
  proof (cases rule: exec_step_done)
    case (suspended steps' i' rest' su' se each)
    then show ?thesis using that assms(4,5) ok by (auto simp: run_result_def live_ok_def)
  qed (use assms(4) in simp)
  obtain store v where st: "ws_Store s' = Some store" "stored_run an s' = Some v" by (rule suspended_stored [OF su(1) assms(7,6)])
  note sl = suspension_loaded [OF assms(1) ok assms(4) i su(1) assms(6) st assms(8)]
  obtain e' se' where l: "loadSuspendSnapshot env ?ctx (state store) rid = Some (Inr (e', se'))"
      and k: "keeps env (suspend_envelope x (c_ID (steps ! i)) se) se e' se'"
    using sl(1) by blast
  let ?run = "cloneWorkflowRunRecord v"
  have run: "getWorkflowRun ?ctx (state store) rid = Inr ?run" "wr_Status ?run = RunStatusSuspended" "wr_WorkflowID ?run = lw_ID lw"
    using sl(2) by simp_all
  note ro = resumed_ok [OF assms(1) ok assms(3,6) st(1) assms(8) run(1,2) l]
  have fr: "resumeFrames lw (sv_Path e') (sv_StepID e') = Some (advance_top (x_frames x))" using ro by blast
  have k': "map_option wk_Token (se_Wake se') = Some ?token" "same_json env (x_current x) (se_Payload se')"
    using k su(2,3) assms(10) by (auto simp: keeps_def)
  let ?md = "decodeMetadata env (wr_Metadata ?run)" and ?x' = "resumed_config e' (advance_top (x_frames x)) (cloneJSON (se_Payload se')) s'"
  have wp: "wake_point env lw rid token s' = (if token = ?token
      then Some (Inr (resumption ?run ?md e' (advance_top (x_frames x)) (cloneJSON (se_Payload se')) s')) else Some (Inl errWorkflowWakeupStale))"
    using st(1) assms(8,9) run l k'(1) fr by (auto simp: wake_point_def Let_def)
  have c: "continues env x ?x'" using ro by (blast intro: continued)
  have cur: "same_json env (x_current x) (x_current ?x')" using k'(2) by (simp add: resumed_config_def)
  show ?thesis
  proof (cases "token = ?token")
    case True
    then have rp: "wake_point env lw rid token s' = Some (Inr (resumption ?run ?md e' (advance_top (x_frames x)) (cloneJSON (se_Payload se')) s'))"
      using wp by simp
    show ?thesis using True rp c cur live_wake [OF assms(2,3,6) rp [unfolded resumption_def]] by (fastforce simp: resumeWake_def resumption_def)
  next
    case False
    then show ?thesis using wp by (simp add: resumeWake_def)
  qed
qed

text \<open>The sample run, resumed.\<close>

lemmas accept_simps = NewLinearWorkflow_def plain_step_def step_err_def controlCount_def control_flow_def handler_err_def sleep_err_def
  step_groups_def default_err_def declares_schema_def pass_def validateRetryPolicy_def compiled_def compile_schema_def plain_control_def

definition ask_step :: "(MemoryStore option, unit) Step" where
  "ask_step = Step ''ask'' [] [] ''{}'' None [] [] None None None None None None None (Some ask)"

lemma json_valid_object: "json_valid ''{}''"
  by code_simp

lemma sample_flow_accepted: "NewLinearWorkflow ''wf'' ''v1'' [plain_step ''first'' echo, ask_step] (Some (\<lambda>_. Inr (Some (\<lambda>_. None)))) None = Inr sample_flow"
  by (simp add: accept_simps ask_step_def sample_flow_def json_valid_object)

lemma sample_codec: "snapshot_codec sample_env"
  by (auto simp: snapshot_codec_def sample_env_def keeps_def same_json_def sample_envelope_def split: if_splits)

lemma sample_ids: "\<forall>t \<in> set (ids_steps (lw_steps sample_flow)). utf8_valid t"
  by code_simp

lemma sample_durable: "durable sample_env sample_flow"
  unfolding durable_def using sample_flow_accepted sample_codec sample_ids sample_nonempty
  by (intro conjI exI) (assumption | simp add: sample_flow_def)+

definition resume_input :: WorkflowResumeInput where
  "resume_input = \<lparr>ri_RunID = ''run'', ri_Input = Some ''5'', ri_Metadata = []\<rparr>"

lemma sample_frames:
  "case start_run sample_env sample_flow ''run'' sample_input sample_state of (an, Inl x) \<Rightarrow>
     (case exec_step sample_env sample_flow an (args_of ''run'' sample_input) x of Inl y \<Rightarrow>
       (case x_frames y of (steps, i) # rest \<Rightarrow> \<not> sleeps (steps ! i) \<and> (case c_suspendSchema (steps ! i) of Some sch \<Rightarrow> sch (Some ''5'') = None | None \<Rightarrow> False)
        | [] \<Rightarrow> False) | _ \<Rightarrow> False) | _ \<Rightarrow> False"
  by code_simp

lemma sample_suspends:
  "case start_run sample_env sample_flow ''run'' sample_input sample_state of (an, Inl x) \<Rightarrow>
     (case exec_step sample_env sample_flow an (args_of ''run'' sample_input) x of Inl y \<Rightarrow>
       (case exec_step sample_env sample_flow an (args_of ''run'' sample_input) y of Inr ((err, r), s) \<Rightarrow> Option.is_none err
          \<and> (case rr_Suspend r of Some su \<Rightarrow> raw_bytes (su_Contract su) = [] | None \<Rightarrow> False) \<and> length (stored_snapshots an s) = 2 | _ \<Rightarrow> False) | _ \<Rightarrow> False) | _ \<Rightarrow> False"
  by code_simp

lemma undisturbed_refl: "length (stored_snapshots an s) \<le> 2 \<Longrightarrow> undisturbed an s s"
  by (simp add: undisturbed_def max_int64_def)

lemma sample_open: "cx_Err (en_Ctx sample_env w) = None" "authorize_run sample_flow (en_Ctx sample_env w) = None"
  by (simp_all add: sample_env_def background_def authorize_run_def sample_flow_def authorize_def)

theorem resume_continues_witness:
  "\<exists>an x s an' ra' x'. live sample_env sample_flow ''run'' an (args_of ''run'' sample_input) x \<and> x_outputs x = [Some ''1'']
     \<and> Resume sample_env sample_flow resume_input s = executeFrames sample_env sample_flow an' ra' x'
     \<and> continues sample_env x x' \<and> x_current x' = Some ''5''"
proof -
  let ?ra = "args_of ''run'' sample_input"
  obtain an x y where x: "start_run sample_env sample_flow ''run'' sample_input sample_state = (an, Inl x)" "exec_step sample_env sample_flow an ?ra x = Inl y"
    using sample_step by (auto split: prod.splits sum.splits)
  obtain steps i rest sch where f: "x_frames y = (steps, i) # rest" "\<not> sleeps (steps ! i)" "c_suspendSchema (steps ! i) = Some sch" "sch (Some ''5'') = None"
    using sample_frames x by (auto split: option.splits list.splits)
  obtain r s su where e: "exec_step sample_env sample_flow an ?ra y = Inr ((None, r), s)" "rr_Suspend r = Some su" "raw_bytes (su_Contract su) = []"
      "length (stored_snapshots an s) = 2"
    using sample_suspends x by (auto simp: Option.is_none_def split: sum.splits option.splits)
  have out: "x_outputs y = [Some ''1'']" using sample_step x(1,2) by simp
  have "stored_snapshots an sample_state = []" by (simp add: stored_snapshots_def sample_state_def NewMemoryStore_def newMemoryState_def mslice_def mget_def)
  then have live: "live sample_env sample_flow ''run'' an ?ra y" using live_step [OF live_start [OF x(1)] x(2)] by blast
  have st: "ws_Store s \<noteq> None" using e(4) by (auto simp: stored_snapshots_def split: option.splits)
  have un: "undisturbed an s s" using e(4) by (intro undisturbed_refl) simp
  have inp: "ri_RunID resume_input = ''run''" "sch (cloneJSON (ri_Input resume_input)) = None" "cloneJSON (ri_Input resume_input) = Some ''5''"
    using f(4) by (simp_all add: resume_input_def cloneJSON_def)
  show ?thesis
    using resume_continues [OF sample_durable live e(1,2) f(1,2) st un sample_open inp(1) f(3) inp(2) disjI1 [OF e(3)]] live out inp(3)
    by fastforce
qed

text \<open>A workflow that sleeps.\<close>

definition sleep_flow :: "unit workflow" where
  "sleep_flow = \<lparr>lw_ID = ''wf'', lw_Version = ''v1'', lw_steps = [CompiledStep ''nap'' None None None None (Sleeping 50),
     CompiledStep ''first'' None None None None (Handle (Some echo))], lw_policy = None\<rparr>"

definition sleep_envelope :: workflowSnapshotEnvelope where
  "sleep_envelope = \<lparr>sv_Step = 1, sv_StepID = ''nap'', sv_Output = None, sv_Outputs = [],
     sv_Suspend = Some \<lparr>se_Contract = None, se_Payload = Some ''1'', se_Wake = Some \<lparr>wk_At = 1050, wk_Token = ''run-wake-1''\<rparr>\<rparr>,
     sv_Path = [], sv_FanOut = [], sv_ForEach = [], sv_Loops = []\<rparr>"

definition sleep_env :: "unit env" where
  "sleep_env = sample_env\<lparr>en_Marshal := (\<lambda>e. if sv_Suspend e = None then Inr ''null'' else if e = sleep_envelope then Inr ''{}'' else Inl (Errorf ''encode'' [])),
     en_Unmarshal := (\<lambda>b. if b = ''{}'' then Some sleep_envelope else None)\<rparr>"

definition nap_step :: "(MemoryStore option, unit) Step" where
  "nap_step = Step ''nap'' [] [] [] None [] [] None None None None None (Some 50) None None"

lemma sleep_flow_accepted: "NewLinearWorkflow ''wf'' ''v1'' [nap_step, plain_step ''first'' echo] None None = Inr sleep_flow"
  by (simp add: accept_simps nap_step_def sleep_flow_def)

lemma sleep_codec: "snapshot_codec sleep_env"
  by (auto simp: snapshot_codec_def sleep_env_def keeps_def same_json_def sleep_envelope_def split: if_splits)

lemma sleep_ids: "\<forall>t \<in> set (ids_steps (lw_steps sleep_flow)). utf8_valid t"
  by code_simp

lemma sleep_durable: "durable sleep_env sleep_flow"
  unfolding durable_def using sleep_flow_accepted sleep_codec sleep_ids sample_nonempty
  by (intro conjI exI) (assumption | simp add: sleep_flow_def | simp add: sleep_env_def json_nonempty_def)+

lemma sleep_suspends:
  "case start_run sleep_env sleep_flow ''run'' sample_input sample_state of (an, Inl x) \<Rightarrow>
       (case x_frames x of (steps, i) # rest \<Rightarrow> sleeps (steps ! i) | [] \<Rightarrow> False) \<and> x_position x = 0
       \<and> (case exec_step sleep_env sleep_flow an (args_of ''run'' sample_input) x of Inr ((err, r), s) \<Rightarrow> Option.is_none err \<and> length (stored_snapshots an s) = 1 | _ \<Rightarrow> False) | _ \<Rightarrow> False"
  by code_simp

lemma sleep_open: "cx_Err (en_Ctx sleep_env w) = None" "authorize_run sleep_flow (en_Ctx sleep_env w) = None"
  by (simp_all add: sleep_env_def sample_env_def background_def authorize_run_def sleep_flow_def authorize_def)

lemma sleep_token: "''run'' @ ''-wake-'' @ itoa (0 + 1) = ''run-wake-1''" "utf8_valid ''run-wake-1''"
  by code_simp+

theorem wake_continues_witness:
  "\<exists>an x s an' ra' x'. live sleep_env sleep_flow ''run'' an (args_of ''run'' sample_input) x
     \<and> resumeWake sleep_env sleep_flow ''run'' ''run-wake-1'' s = map_option Inr (executeFrames sleep_env sleep_flow an' ra' x')
     \<and> continues sleep_env x x' \<and> resumeWake sleep_env sleep_flow ''run'' ''run-wake-0'' s = Some (Inl errWorkflowWakeupStale)"
proof -
  let ?ra = "args_of ''run'' sample_input"
  obtain an x where b: "start_run sleep_env sleep_flow ''run'' sample_input sample_state = (an, Inl x)"
    using sleep_suspends by (auto split: prod.splits sum.splits)
  obtain steps i rest where f: "x_frames x = (steps, i) # rest" "sleeps (steps ! i)" "x_position x = 0"
    using sleep_suspends b by (auto split: list.splits)
  obtain r s where e: "exec_step sleep_env sleep_flow an ?ra x = Inr ((None, r), s)" "length (stored_snapshots an s) = 1"
    using sleep_suspends b by (auto simp: Option.is_none_def split: sum.splits)
  have "stored_snapshots an sample_state = []" by (simp add: stored_snapshots_def sample_state_def NewMemoryStore_def newMemoryState_def mslice_def mget_def)
  then have live: "live sleep_env sleep_flow ''run'' an ?ra x" by (rule live_start [OF b])
  have st: "ws_Store s \<noteq> None" using e(2) by (auto simp: stored_snapshots_def split: option.splits)
  have un: "undisturbed an s s" using e(2) by (intro undisturbed_refl) simp
  have ut: "utf8_valid (''run'' @ ''-wake-'' @ itoa (x_position x + 1))" using sleep_token f(3) by simp
  note w = wake_continues [OF sleep_durable live e(1) f(1,2) un st sleep_open ut]
  show ?thesis using w [of "''run-wake-1''"] w [of "''run-wake-0''"] live unfolding f(3) sleep_token(1) by (simp, blast)
qed

end
