(* ===== verification/Spec2Isabelle.thy ===== *)
theory Spec2Isabelle
  imports Metadata Cost Chunking Dedup Router Store_Guard Scheduler_Tick Workflow_Resume
begin

text \<open>lebro verification development: header to be completed.\<close>

end
